(* ===== verification/Miner_Prelude.thy ===== *)
theory Miner_Prelude
  imports Complex_Main "HOL-Library.Word"
begin

text \<open>
  Shared vocabulary of the development: the machine integer types of the C sources, the
  lemma collections that the component theories extend, and the facts on words, byte
  strings and lists that several components use. Nothing here models a particular
  function of the program.
\<close>

unbundle bit_operations_syntax

section \<open>Machine types\<close>

type_synonym u8 = "8 word"
type_synonym u16 = "16 word"
type_synonym u32 = "32 word"
type_synonym u64 = "64 word"

text \<open>
  Lemma collections: \<open>word_bounds\<close> has the ranges of the fixed width types, \<open>unat_simps\<close>
  moves word expressions to natural numbers, \<open>layout\<close> collects the sizes of the arrays
  and buffers, and \<open>array_simps\<close> reads an array after updates at other indices.
\<close>

named_theorems word_bounds \<open>upper bounds of the values of the fixed width types\<close>
named_theorems unat_simps \<open>word operations as operations on natural numbers\<close>
named_theorems layout \<open>lengths of arrays and buffers\<close>
named_theorems array_simps \<open>reads of an updated array\<close>

section \<open>Words and bytes\<close>

lemma unat_u8_less [word_bounds]: "unat (b :: u8) < 256"
  using unsigned_less [of b, where 'a = nat] by simp

lemma unat_u16_less [word_bounds]: "unat (b :: u16) < 65536"
  using unsigned_less [of b, where 'a = nat] by simp

lemma unat_u32_less [word_bounds]: "unat (b :: u32) < 4294967296"
  using unsigned_less [of b, where 'a = nat] by simp

lemma unat_u64_less [word_bounds]: "unat (b :: u64) < 18446744073709551616"
  using unsigned_less [of b, where 'a = nat] by simp

lemma unat_ucast_u8_u16 [unat_simps]: "unat (ucast (b :: u8) :: u16) = unat b"
  using unat_u8_less [of b] by (simp add: unsigned_ucast_eq take_bit_nat_eq_self)

lemma unat_ucast_u8_u32 [unat_simps]: "unat (ucast (b :: u8) :: u32) = unat b"
  using unat_u8_less [of b] by (simp add: unsigned_ucast_eq take_bit_nat_eq_self)

lemma unat_ucast_u8_u64 [unat_simps]: "unat (ucast (b :: u8) :: u64) = unat b"
  using unat_u8_less [of b] by (simp add: unsigned_ucast_eq take_bit_nat_eq_self)

lemma unat_ucast_u32_u64 [unat_simps]: "unat (ucast (b :: u32) :: u64) = unat b"
  using unat_u32_less [of b] by (simp add: unsigned_ucast_eq take_bit_nat_eq_self)

lemma unat_add_of_nat_u32: "unat (a :: u32) + k < 4294967296 \<Longrightarrow> unat (a + of_nat k) = unat a + k"
  by (simp add: unat_word_ariths unat_of_nat)

lemma unat_Suc_u32: "(a :: u32) < b \<Longrightarrow> unat (a + 1) = unat a + 1"
  using unat_add_of_nat_u32 [of a 1] unat_u32_less [of b] by (simp add: word_less_nat_alt)

lemma unat_ucast_u32_u8: "unat (ucast (x :: u32) :: u8) = unat x mod 256"
  by (simp add: unsigned_ucast_eq take_bit_eq_mod [where 'a = nat])

lemma unat_ucast_u64_u8: "unat (ucast (x :: u64) :: u8) = unat x mod 256"
  by (simp add: unsigned_ucast_eq take_bit_eq_mod [where 'a = nat])

lemma unat_ucast_u64_u32: "unat (ucast (x :: u64) :: u32) = unat x mod 4294967296"
  by (simp add: unsigned_ucast_eq take_bit_eq_mod [where 'a = nat])

text \<open>The low byte of a shifted word, the expression all byte encoders use.\<close>

lemma and_ff_u32: "x AND 0xff = take_bit 8 (x :: u32)"
  by (simp add: take_bit_eq_mask mask_eq_exp_minus_1)

lemma and_ff_u64: "x AND 0xff = take_bit 8 (x :: u64)"
  by (simp add: take_bit_eq_mask mask_eq_exp_minus_1)

lemma unat_drop_bit_u32 [unat_simps]: "unat (drop_bit n (x :: u32)) = unat x div 2 ^ n"
  by (simp add: unsigned_drop_bit_eq drop_bit_eq_div [where 'a = nat]
      take_bit_eq_mod [where 'a = nat] mod_less [OF unat_u32_less])

lemma unat_drop_bit_u64 [unat_simps]: "unat (drop_bit n (x :: u64)) = unat x div 2 ^ n"
  by (simp add: unsigned_drop_bit_eq drop_bit_eq_div [where 'a = nat]
      take_bit_eq_mod [where 'a = nat] mod_less [OF unat_u64_less])

lemma unat_low_byte_u32: "unat (ucast ((x :: u32) AND 0xff) :: u8) = unat x mod 256"
  unfolding and_ff_u32
  by (simp add: unsigned_ucast_eq unsigned_take_bit_eq take_bit_eq_mod [where 'a = nat])

lemma unat_low_byte_u64: "unat (ucast ((x :: u64) AND 0xff) :: u8) = unat x mod 256"
  unfolding and_ff_u64
  by (simp add: unsigned_ucast_eq unsigned_take_bit_eq take_bit_eq_mod [where 'a = nat])

lemma horner_256 [simp]:
  "b < 256 \<Longrightarrow> (a * 256 + b) div 256 = (a :: nat)"
  "b < 256 \<Longrightarrow> (a * 256 + b) mod 256 = (b :: nat)"
  by simp_all

section \<open>Values of byte and word strings\<close>

text \<open>Big endian value of a byte string and little endian value of an array of 32 bit words.\<close>

definition be_val :: "u8 list \<Rightarrow> nat" where
  "be_val bs = foldl (\<lambda>v b. v * 256 + unat b) 0 bs"

primrec le_val :: "u8 list \<Rightarrow> nat" where
  "le_val [] = 0"
| "le_val (b # bs) = unat b + 256 * le_val bs"

primrec le32_val :: "u32 list \<Rightarrow> nat" where
  "le32_val [] = 0"
| "le32_val (w # ws) = unat w + 4294967296 * le32_val ws"

lemma be_val_Nil [simp]: "be_val [] = 0"
  by (simp add: be_val_def)

lemma be_val_snoc: "be_val (bs @ [b]) = be_val bs * 256 + unat b"
  by (simp add: be_val_def)

lemma be_val_append: "be_val (as @ bs) = be_val as * 256 ^ length bs + be_val bs"
  by (induction bs rule: rev_induct)
    (simp_all add: be_val_snoc algebra_simps flip: append_assoc)

lemma be_val_less: "be_val bs < 256 ^ length bs"
proof (induction bs rule: rev_induct)
  case Nil
  then show ?case by simp
next
  case (snoc b bs)
  have "be_val bs * 256 + unat b < (be_val bs + 1) * 256" by (simp add: word_bounds)
  also have "\<dots> \<le> 256 ^ length bs * 256" using snoc by (intro mult_right_mono) auto
  finally show ?case by (simp add: be_val_snoc)
qed

lemma be_val_inj: "be_val as = be_val bs \<Longrightarrow> length as = length bs \<Longrightarrow> as = bs"
proof (induction bs arbitrary: as rule: rev_induct)
  case Nil
  then show ?case by simp
next
  case (snoc b bs)
  then obtain a as' where as: "as = as' @ [a]" "length as' = length bs"
    by (cases as rule: rev_cases) auto
  then have eq: "be_val as' * 256 + unat a = be_val bs * 256 + unat b"
    using snoc.prems by (simp add: be_val_snoc)
  have "be_val as' = be_val bs"
    using arg_cong [OF eq, of "\<lambda>n. n div 256"] by (simp add: word_bounds)
  moreover have "unat a = unat b"
    using arg_cong [OF eq, of "\<lambda>n. n mod 256"] by (simp add: word_bounds)
  ultimately show ?case using snoc.IH as by (simp add: word_unat_eq_iff)
qed

lemma le_val_less: "le_val bs < 256 ^ length bs"
proof (induction bs)
  case Nil
  then show ?case by simp
next
  case (Cons b bs)
  have "unat b + 256 * le_val bs < 256 * (le_val bs + 1)" by (simp add: word_bounds)
  also have "\<dots> \<le> 256 * 256 ^ length bs" using Cons by (intro mult_left_mono) auto
  finally show ?case by simp
qed

lemma le32_val_less: "le32_val ws < 4294967296 ^ length ws"
proof (induction ws)
  case Nil
  then show ?case by simp
next
  case (Cons w ws)
  have "unat w + 4294967296 * le32_val ws < 4294967296 * (le32_val ws + 1)"
    by (simp add: word_bounds)
  also have "\<dots> \<le> 4294967296 * 4294967296 ^ length ws" using Cons by (intro mult_left_mono) auto
  finally show ?case by simp
qed

lemma le32_val_append:
  "le32_val (xs @ ys) = le32_val xs + 4294967296 ^ length xs * le32_val ys"
  by (induction xs) (simp_all add: algebra_simps)

section \<open>Arrays as lists\<close>

text \<open>
  C arrays are lists; a store at an index in range is a list update. The reads that
  follow a store at another index skip it.
\<close>

lemma nth_update_in [array_simps]:
  "i < length xs \<Longrightarrow> xs[i := x] ! j = (if i = j then x else xs ! j)"
  by simp

text \<open>A copy into the front of a buffer and a copy at an offset.\<close>

definition memcpy_at :: "'a list \<Rightarrow> nat \<Rightarrow> 'a list \<Rightarrow> 'a list" where
  "memcpy_at dst off src = take off dst @ src @ drop (off + length src) dst"

lemma length_memcpy_at [layout, simp]:
  "off + length src \<le> length dst \<Longrightarrow> length (memcpy_at dst off src) = length dst"
  by (simp add: memcpy_at_def)

lemma nth_memcpy_at [array_simps]:
  assumes "off + length src \<le> length dst" and "i < length dst"
  shows "memcpy_at dst off src ! i =
    (if off \<le> i \<and> i < off + length src then src ! (i - off) else dst ! i)"
  using assms by (auto simp: memcpy_at_def nth_append min_def)

lemma memcpy_at_0: "length src \<le> length dst \<Longrightarrow> memcpy_at dst 0 src = src @ drop (length src) dst"
  by (simp add: memcpy_at_def)

text \<open>Folding over a list of indices: equal steps give equal results.\<close>

lemma fold_cong_set: "(\<And>x s. x \<in> set xs \<Longrightarrow> f x s = g x s) \<Longrightarrow> fold f xs s = fold g xs s"
  by (induction xs arbitrary: s) simp_all

lemma fold_invariant_list:
  assumes "P s" and "\<And>x s. x \<in> set xs \<Longrightarrow> P s \<Longrightarrow> P (f x s)"
  shows "P (fold f xs s)"
  using assms by (induction xs arbitrary: s) simp_all

lemma fold_upt_Suc: "m \<le> n \<Longrightarrow> fold f [m..<Suc n] s = f n (fold f [m..<n] s)"
  by simp

end
