(* ===== verification/Endian.thy ===== *)
theory Endian
  imports Miner_Prelude
begin

text \<open>
  The byte order helpers of \<^verbatim>\<open>miner.h\<close>. A pointer to bytes is the list of the bytes it
  points to; a pointer to 32 bit words that the code reads as bytes is laid out by
  \<open>bytes_of_words\<close>, little endian as on the x86 hosts the miner is built for.
\<close>

section \<open>Definitions\<close>

definition swab32 :: "u32 \<Rightarrow> u32" where
  "swab32 x = (push_bit 24 x AND 0xff000000) OR (push_bit 8 x AND 0x00ff0000)
     OR (drop_bit 8 x AND 0x0000ff00) OR (drop_bit 24 x AND 0x000000ff)"

definition be32dec :: "u8 list \<Rightarrow> u32" where
  "be32dec p = ucast (p ! 3) + push_bit 8 (ucast (p ! 2)) +
     push_bit 16 (ucast (p ! 1)) + push_bit 24 (ucast (p ! 0))"

definition le32dec :: "u8 list \<Rightarrow> u32" where
  "le32dec p = ucast (p ! 0) + push_bit 8 (ucast (p ! 1)) +
     push_bit 16 (ucast (p ! 2)) + push_bit 24 (ucast (p ! 3))"

definition be32enc :: "u32 \<Rightarrow> u8 list" where
  "be32enc x = [ucast (drop_bit 24 x AND 0xff), ucast (drop_bit 16 x AND 0xff),
     ucast (drop_bit 8 x AND 0xff), ucast (x AND 0xff)]"

definition le32enc :: "u32 \<Rightarrow> u8 list" where
  "le32enc x = [ucast (x AND 0xff), ucast (drop_bit 8 x AND 0xff),
     ucast (drop_bit 16 x AND 0xff), ucast (drop_bit 24 x AND 0xff)]"

definition le16dec :: "u8 list \<Rightarrow> u16" where
  "le16dec p = ucast (p ! 0) + push_bit 8 (ucast (p ! 1))"

definition le16enc :: "u16 \<Rightarrow> u8 list" where
  "le16enc x = [ucast (x AND 0xff), ucast (drop_bit 8 x AND 0xff)]"

definition bytes_of_words :: "u32 list \<Rightarrow> u8 list" where
  "bytes_of_words ws = concat (map le32enc ws)"

section \<open>Values\<close>

lemma length_enc32 [layout, simp]: "length (be32enc x) = 4" "length (le32enc x) = 4"
  by (simp_all add: be32enc_def le32enc_def)

lemma length_bytes_of_words [layout, simp]: "length (bytes_of_words ws) = 4 * length ws"
  by (induction ws) (simp_all add: bytes_of_words_def)

lemma unat_be32dec: "unat (be32dec [a, b, c, d]) = be_val [a, b, c, d]"
  using unat_u8_less [of a] unat_u8_less [of b] unat_u8_less [of c] unat_u8_less [of d]
  by (simp add: be32dec_def be_val_def push_bit_eq_mult unat_word_ariths unat_ucast_u8_u32)

lemma le32dec_be32dec: "le32dec [a, b, c, d] = be32dec [d, c, b, a]"
  by (simp add: le32dec_def be32dec_def)

lemma le32enc_rev: "le32enc x = rev (be32enc x)"
  by (simp add: le32enc_def be32enc_def)

lemma be32enc_bytes: "map unat (be32enc x) =
   [unat x div 16777216 mod 256, unat x div 65536 mod 256, unat x div 256 mod 256, unat x mod 256]"
  by (simp add: be32enc_def unat_low_byte_u32 unat_drop_bit_u32)

lemma base256_digits:
  "((x div 16777216 * 256 + x div 65536 mod 256) * 256 + x div 256 mod 256) * 256 + x mod 256
     = (x :: nat)"
proof -
  have "x div 65536 = x div 256 div 256" "x div 16777216 = x div 256 div 256 div 256"
    by (simp_all flip: div_mult2_eq)
  then show ?thesis by (metis div_mod_decomp mult.commute)
qed

lemma be_val_map: "be_val bs = foldl (\<lambda>v n. v * 256 + n) 0 (map unat bs)"
  by (simp add: be_val_def foldl_map)

lemma be_val_be32enc: "be_val (be32enc x) = unat x"
proof -
  have "unat x div 16777216 < 256" using unat_u32_less [of x] by linarith
  then show ?thesis
    using base256_digits [of "unat x"] by (simp add: be_val_map be32enc_bytes)
qed

lemma list4: "length bs = 4 \<Longrightarrow> \<exists>a b c d. bs = [a, b, c, d]"
  by (auto simp: numeral_eq_Suc length_Suc_conv)

lemma unat_be32dec_val: "length bs = 4 \<Longrightarrow> unat (be32dec bs) = be_val bs"
  using list4 unat_be32dec by blast

lemma be32dec_be32enc [simp]: "be32dec (be32enc x) = x"
  by (simp add: word_unat_eq_iff unat_be32dec_val be_val_be32enc)

lemma be32enc_be32dec: "length bs = 4 \<Longrightarrow> be32enc (be32dec bs) = bs"
  by (rule be_val_inj) (simp_all add: be_val_be32enc unat_be32dec_val)

lemma le32dec_rev: "length bs = 4 \<Longrightarrow> le32dec bs = be32dec (rev bs)"
  by (auto dest: list4 simp: le32dec_be32dec)

lemma le32dec_le32enc [simp]: "le32dec (le32enc x) = x"
  by (simp add: le32dec_rev le32enc_rev)

lemma le32enc_le32dec: "length bs = 4 \<Longrightarrow> le32enc (le32dec bs) = bs"
  by (simp add: le32enc_rev le32dec_rev be32enc_be32dec)

text \<open>Byte swapping exchanges the two byte orders.\<close>

lemma swab32_masks:
  "swab32 x = (push_bit 24 x AND push_bit 24 (mask 8)) OR (push_bit 8 x AND push_bit 16 (mask 8))
     OR (drop_bit 8 x AND push_bit 8 (mask 8)) OR (drop_bit 24 x AND mask 8)"
  by (simp add: swab32_def mask_eq_exp_minus_1 push_bit_eq_mult)

lemma le32enc_swab32: "le32enc (swab32 x) = be32enc x"
proof -
  have ff: "0xff = (mask 8 :: u32)" by (simp add: mask_eq_exp_minus_1)
  show ?thesis
    unfolding le32enc_def be32enc_def swab32_masks ff list.inject
    by (intro conjI; (rule refl | (rule bit_word_eqI, auto simp: bit_simps)))
qed

lemma swab32_swab32 [simp]: "swab32 (swab32 x) = x"
  by (metis le32enc_swab32 be32dec_be32enc le32dec_le32enc le32enc_rev rev_rev_ident)

lemma swab32_le32dec: "swab32 x = be32dec (le32enc x)"
  by (metis le32enc_swab32 swab32_swab32 be32dec_be32enc)

section \<open>Byte arrays seen as words\<close>

text \<open>The words that a little-endian host sees in a byte array.\<close>

definition words_of_bytes :: "u8 list \<Rightarrow> u32 list" where
  "words_of_bytes bs = map (\<lambda>i. le32dec (take 4 (drop (4 * i) bs))) [0..<length bs div 4]"

lemma length_words_of_bytes [layout, simp]: "length (words_of_bytes bs) = length bs div 4"
  by (simp add: words_of_bytes_def)

lemma nth_words_of_bytes:
  "i < length bs div 4 \<Longrightarrow> words_of_bytes bs ! i = le32dec (take 4 (drop (4 * i) bs))"
  by (simp add: words_of_bytes_def)

lemma take4_bytes_of_words:
  "i < length ws \<Longrightarrow> take 4 (drop (4 * i) (bytes_of_words ws)) = le32enc (ws ! i)"
proof (induction ws arbitrary: i)
  case (Cons w ws)
  then show ?case by (cases i) (simp_all add: bytes_of_words_def)
qed simp

lemma words_of_bytes_of_words [simp]: "words_of_bytes (bytes_of_words ws) = ws"
  by (rule nth_equalityI) (simp_all add: nth_words_of_bytes take4_bytes_of_words)

text \<open>Copying bytes over the start of a word array.\<close>

definition memcpy_words :: "u32 list \<Rightarrow> u8 list \<Rightarrow> u32 list" where
  "memcpy_words ws bs = words_of_bytes (memcpy_at (bytes_of_words ws) 0 bs)"

lemma length_memcpy_words [layout, simp]:
  "length bs \<le> 4 * length ws \<Longrightarrow> length (memcpy_words ws bs) = length ws"
  by (simp add: memcpy_words_def length_memcpy_at)

end
