(* ===== verification/Double.thy ===== *)
theory Double
  imports Miner_Prelude
begin

text \<open>
  The C type \<^verbatim>\<open>double\<close> as IEEE 754 binary64 with rounding to nearest, ties to even: the
  arithmetic of the difficulty computations. A finite non-zero value is the rational it
  denotes; zeros and infinities carry their sign. All operations are executable.
\<close>

section \<open>Values and rounding\<close>

datatype double = DZero bool | DFin rat | DInf bool | DNaN

definition pow2 :: "int \<Rightarrow> rat" where
  "pow2 e = (if 0 \<le> e then 2 ^ nat e else 1 / 2 ^ nat (- e))"

text \<open>The number of binary digits of a positive integer.\<close>

function ibits :: "int \<Rightarrow> int" where
  "ibits n = (if n \<le> 0 then 0 else 1 + ibits (n div 2))"
  by pat_completeness auto
termination by (relation "measure nat") auto

declare ibits.simps [simp del]

text \<open>The exponent of a positive rational: the largest \<open>e\<close> with \<open>pow2 e \<le> x\<close>.\<close>

definition ilog2 :: "rat \<Rightarrow> int" where
  "ilog2 x = (case quotient_of x of (p, q) \<Rightarrow>
     let e = ibits p - ibits q in if pow2 e \<le> x then e else e - 1)"

definition round_even :: "rat \<Rightarrow> int" where
  "round_even x = (let f = \<lfloor>x\<rfloor>; d = x - of_int f
     in if d < 1 / 2 then f else if d > 1 / 2 then f + 1 else if even f then f else f + 1)"

text \<open>Rounding of an exact result; the sign of a zero comes from the operation.\<close>

definition dbl_round :: "bool \<Rightarrow> rat \<Rightarrow> double" where
  "dbl_round neg x =
    (if x = 0 then DZero neg
     else
       let u = max (ilog2 \<bar>x\<bar>) (-1022) - 52;
           m = round_even (\<bar>x\<bar> / pow2 u)
       in if m = 0 then DZero (x < 0)
          else if 1024 < ibits m + u then DInf (x < 0)
          else DFin ((if x < 0 then - 1 else 1) * of_int m * pow2 u))"

section \<open>Operations\<close>

fun dneg :: "double \<Rightarrow> bool" where
  "dneg (DZero s) = s"
| "dneg (DFin x) = (x < 0)"
| "dneg (DInf s) = s"
| "dneg DNaN = False"

definition dbl_of_int :: "int \<Rightarrow> double" where
  "dbl_of_int n = dbl_round False (of_int n)"

fun dmul :: "double \<Rightarrow> double \<Rightarrow> double" where
  "dmul DNaN y = DNaN"
| "dmul x DNaN = DNaN"
| "dmul (DInf s) (DZero t) = DNaN"
| "dmul (DZero s) (DInf t) = DNaN"
| "dmul (DInf s) y = DInf (s \<noteq> dneg y)"
| "dmul x (DInf t) = DInf (dneg x \<noteq> t)"
| "dmul (DZero s) y = DZero (s \<noteq> dneg y)"
| "dmul x (DZero t) = DZero (dneg x \<noteq> t)"
| "dmul (DFin x) (DFin y) = dbl_round ((x < 0) \<noteq> (y < 0)) (x * y)"

fun ddiv :: "double \<Rightarrow> double \<Rightarrow> double" where
  "ddiv DNaN y = DNaN"
| "ddiv x DNaN = DNaN"
| "ddiv (DInf s) (DInf t) = DNaN"
| "ddiv (DZero s) (DZero t) = DNaN"
| "ddiv (DInf s) y = DInf (s \<noteq> dneg y)"
| "ddiv x (DInf t) = DZero (dneg x \<noteq> t)"
| "ddiv (DZero s) y = DZero (s \<noteq> dneg y)"
| "ddiv x (DZero t) = DInf (dneg x \<noteq> t)"
| "ddiv (DFin x) (DFin y) = dbl_round ((x < 0) \<noteq> (y < 0)) (x / y)"

fun dadd :: "double \<Rightarrow> double \<Rightarrow> double" where
  "dadd DNaN y = DNaN"
| "dadd x DNaN = DNaN"
| "dadd (DInf s) (DInf t) = (if s = t then DInf s else DNaN)"
| "dadd (DInf s) y = DInf s"
| "dadd x (DInf t) = DInf t"
| "dadd (DZero s) (DZero t) = DZero (s \<and> t)"
| "dadd (DZero s) y = y"
| "dadd x (DZero t) = x"
| "dadd (DFin x) (DFin y) = dbl_round False (x + y)"

text \<open>The order of the numbers; comparisons with NaN are false.\<close>

fun dlt :: "double \<Rightarrow> double \<Rightarrow> bool" where
  "dlt DNaN y = False"
| "dlt x DNaN = False"
| "dlt (DInf s) (DInf t) = (s \<and> \<not> t)"
| "dlt (DInf s) y = s"
| "dlt x (DInf t) = (\<not> t)"
| "dlt (DZero s) (DZero t) = False"
| "dlt (DZero s) (DFin y) = (0 < y)"
| "dlt (DFin x) (DZero t) = (x < 0)"
| "dlt (DFin x) (DFin y) = (x < y)"

fun deq :: "double \<Rightarrow> double \<Rightarrow> bool" where
  "deq DNaN y = False"
| "deq x DNaN = False"
| "deq (DZero s) (DZero t) = True"
| "deq x y = (x = y)"

definition dle :: "double \<Rightarrow> double \<Rightarrow> bool" where
  "dle x y = (dlt x y \<or> deq x y)"

text \<open>Conversion to \<^verbatim>\<open>uint64_t\<close>: the value truncated towards zero; where it does not fit the
  conversion is undefined in C, and \<open>None\<close> here.\<close>

definition trunc_rat :: "rat \<Rightarrow> int" where
  "trunc_rat x = (if 0 \<le> x then \<lfloor>x\<rfloor> else \<lceil>x\<rceil>)"

fun dbl_to_u64 :: "double \<Rightarrow> u64 option" where
  "dbl_to_u64 (DZero s) = Some 0"
| "dbl_to_u64 (DFin x) = (let n = trunc_rat x in
     if 0 \<le> n \<and> n < 2 ^ 64 then Some (of_int n) else None)"
| "dbl_to_u64 (DInf s) = None"
| "dbl_to_u64 DNaN = None"

definition dbl_zero :: double where "dbl_zero = DZero False"

definition dbl_one :: double where "dbl_one = DFin 1"

end
