(* ===== verification/Target.thy ===== *)
theory Target
  imports Endian Double
begin

text \<open>
  The unit of work (\<^verbatim>\<open>struct work\<close> of \<^verbatim>\<open>miner.h\<close>) and the arithmetic of targets and
  difficulties: \<^verbatim>\<open>fulltest\<close>, \<^verbatim>\<open>diff_to_target\<close>, \<^verbatim>\<open>work_set_target\<close>, \<^verbatim>\<open>target_to_diff\<close> of
  \<^verbatim>\<open>util.c\<close>, the share ratio of \<^verbatim>\<open>uint256.cpp\<close>, and \<^verbatim>\<open>work_free\<close>, \<^verbatim>\<open>work_copy\<close> and
  \<^verbatim>\<open>calc_network_diff\<close> of \<^verbatim>\<open>cpu-miner.c\<close>. A hash and a target are arrays of eight words,
  least significant word first. Option flags the functions read are arguments.
\<close>

section \<open>The unit of work\<close>

record work =
  w_data :: "u32 list"
  w_target :: "u32 list"
  w_targetdiff :: double
  w_shareratio :: double
  w_sharediff :: double
  w_resnonce :: u32
  w_height :: int
  w_txs :: "string option"
  w_workid :: "string option"
  w_job_id :: "string option"
  w_xnonce2_len :: nat
  w_xnonce2 :: "u8 list option"

definition work_wf :: "work \<Rightarrow> bool" where
  "work_wf w \<longleftrightarrow> length (w_data w) = 48 \<and> length (w_target w) = 8 \<and>
     (case w_xnonce2 w of None \<Rightarrow> True | Some x \<Rightarrow> length x = w_xnonce2_len w)"

text \<open>The zeroed structure, as \<^verbatim>\<open>calloc\<close> and static storage give it.\<close>

definition work0 :: work where
  "work0 = \<lparr>w_data = replicate 48 0, w_target = replicate 8 0, w_targetdiff = dbl_zero,
     w_shareratio = dbl_zero, w_sharediff = dbl_zero, w_resnonce = 0, w_height = 0,
     w_txs = None, w_workid = None, w_job_id = None, w_xnonce2_len = 0, w_xnonce2 = None\<rparr>"

text \<open>\<^verbatim>\<open>work_copy\<close> copies the structure and duplicates what its pointers refer to; of the extra
  nonce it duplicates \<open>xnonce2_len\<close> bytes.\<close>

definition work_copy :: "work \<Rightarrow> work" where
  "work_copy src =
    (let dest = src;
         dest = (case w_txs src of None \<Rightarrow> dest | Some s \<Rightarrow> dest\<lparr>w_txs := Some s\<rparr>);
         dest = (case w_workid src of None \<Rightarrow> dest | Some s \<Rightarrow> dest\<lparr>w_workid := Some s\<rparr>);
         dest = (case w_job_id src of None \<Rightarrow> dest | Some s \<Rightarrow> dest\<lparr>w_job_id := Some s\<rparr>)
     in (case w_xnonce2 src of None \<Rightarrow> dest
         | Some x \<Rightarrow> dest\<lparr>w_xnonce2 := Some (take (w_xnonce2_len src) x)\<rparr>))"

section \<open>Comparison with the target\<close>

fun fulltest_loop :: "nat \<Rightarrow> u32 list \<Rightarrow> u32 list \<Rightarrow> bool" where
  "fulltest_loop 0 hash target = True"
| "fulltest_loop (Suc i) hash target =
    (if hash ! i > target ! i then False
     else if hash ! i < target ! i then True
     else fulltest_loop i hash target)"

definition fulltest :: "u32 list \<Rightarrow> u32 list \<Rightarrow> bool" where
  "fulltest hash target = fulltest_loop 8 hash target"

section \<open>Difficulty and target\<close>

text \<open>The loop of \<^verbatim>\<open>diff_to_target\<close>: the index of the word and the scaled difficulty.\<close>

fun diff_scale :: "nat \<Rightarrow> double \<Rightarrow> nat \<times> double" where
  "diff_scale 0 diff = (0, diff)"
| "diff_scale (Suc k) diff =
    (if dlt dbl_one diff then diff_scale k (ddiv diff (DFin 4294967296)) else (Suc k, diff))"

text \<open>\<open>None\<close> where the conversion of the quotient to \<^verbatim>\<open>uint64_t\<close> is undefined.\<close>

definition diff_to_target :: "double \<Rightarrow> u32 list option" where
  "diff_to_target diff =
    (case diff_scale 6 diff of (k, diff) \<Rightarrow>
      case dbl_to_u64 (ddiv (DFin 4294901760) diff) of
        None \<Rightarrow> None
      | Some m \<Rightarrow>
          Some (if m = 0 \<and> k = 6 then replicate 8 (-1)
                else (replicate 8 0)[k := ucast m, k + 1 := ucast (drop_bit 32 m)]))"

definition work_set_target :: "work \<Rightarrow> double \<Rightarrow> work option" where
  "work_set_target w diff =
    (case diff_to_target diff of
       None \<Rightarrow> None
     | Some t \<Rightarrow> Some (w\<lparr>w_target := t, w_targetdiff := diff\<rparr>))"

definition target_bits :: "u32 list \<Rightarrow> u64" where
  "target_bits target =
    (let tgt = bytes_of_words target in
       push_bit 56 (ucast (tgt ! 29)) OR push_bit 48 (ucast (tgt ! 28)) OR
       push_bit 40 (ucast (tgt ! 27)) OR push_bit 32 (ucast (tgt ! 26)) OR
       push_bit 24 (ucast (tgt ! 25)) OR push_bit 16 (ucast (tgt ! 24)) OR
       push_bit 8 (ucast (tgt ! 23)) OR push_bit 0 (ucast (tgt ! 22)))"

definition target_to_diff :: "u32 list \<Rightarrow> double" where
  "target_to_diff target =
    (let m = target_bits target in
     if m = 0 then dbl_zero else ddiv (DFin 0x0000ffff00000000) (dbl_of_int (uint m)))"

section \<open>The share ratio\<close>

text \<open>\<^verbatim>\<open>base_uint::getdouble\<close>: the words weighted by a running power of two.\<close>

definition getdouble :: "u32 list \<Rightarrow> double" where
  "getdouble pn = fst (fold (\<lambda>i (ret, fact).
      (dadd ret (dmul fact (dbl_of_int (uint (pn ! i)))), dmul fact (DFin 4294967296)))
    [0..<8] (dbl_zero, dbl_one))"

definition hash_target_ratio :: "bool \<Rightarrow> u32 list \<Rightarrow> u32 list \<Rightarrow> double" where
  "hash_target_ratio opt_showdiff hash target =
    (if \<not> opt_showdiff then dbl_zero
     else let dhash = getdouble hash in
       if dlt dbl_zero dhash then ddiv (getdouble target) dhash else dhash)"

definition work_set_target_ratio :: "bool \<Rightarrow> work \<Rightarrow> u32 list \<Rightarrow> work" where
  "work_set_target_ratio opt_showdiff w hash =
    (if opt_showdiff then
       let ratio = hash_target_ratio opt_showdiff hash (w_target w) in
       w\<lparr>w_shareratio := ratio, w_sharediff := dmul (w_targetdiff w) ratio\<rparr>
     else w)"

section \<open>The network difficulty\<close>

fun dpow_up :: "nat \<Rightarrow> double \<Rightarrow> double" where
  "dpow_up 0 d = d"
| "dpow_up (Suc m) d = dpow_up m (dmul d (DFin 256))"

fun dpow_down :: "nat \<Rightarrow> double \<Rightarrow> double" where
  "dpow_down 0 d = d"
| "dpow_down (Suc m) d = dpow_down m (ddiv d (DFin 256))"

text \<open>The value that \<^verbatim>\<open>calc_network_diff\<close> stores in \<^verbatim>\<open>net_diff\<close>.\<close>

definition calc_network_diff :: "bool \<Rightarrow> work \<Rightarrow> double" where
  "calc_network_diff have_longpoll w =
    (let nbits = (if have_longpoll then w_data w ! 18 else swab32 (w_data w ! 18));
         bits = nbits AND 0xffffff;
         shift = unat (swab32 nbits AND 0xff);
         d = ddiv (dbl_of_int 0xffff) (dbl_of_int (uint bits));
         d = dpow_up (29 - shift) d
     in dpow_down (shift - 29) d)"

section \<open>What the comparison decides\<close>

lemma le32_val_take_Suc:
  "i < length ws \<Longrightarrow> le32_val (take (Suc i) ws) = le32_val (take i ws) + 4294967296 ^ i * unat (ws ! i)"
  by (simp add: take_Suc_conv_app_nth le32_val_append)

lemma le32_val_take_less: "i \<le> length ws \<Longrightarrow> le32_val (take i ws) < 4294967296 ^ i"
  using le32_val_less [of "take i ws"] by (simp add: min_absorb2)

text \<open>The leading digit decides a comparison of two numbers written in the same base.\<close>

lemma leading_digit:
  fixes a b x y B :: nat
  assumes "a < B" and "x < y"
  shows "a + B * x < b + B * y"
proof -
  have "a + B * x < B * (x + 1)" using assms by simp
  also have "\<dots> \<le> B * y" using assms by (intro mult_le_mono2) simp
  finally show ?thesis by simp
qed

lemma fulltest_loop_val:
  assumes "k \<le> length hash" "k \<le> length target"
  shows "fulltest_loop k hash target \<longleftrightarrow> le32_val (take k hash) \<le> le32_val (take k target)"
  using assms
proof (induction k)
  case (Suc i)
  let ?h = "hash ! i" and ?t = "target ! i"
  note digits = le32_val_take_Suc [of i hash] le32_val_take_Suc [of i target]
  have bound: "le32_val (take i hash) < 4294967296 ^ i" "le32_val (take i target) < 4294967296 ^ i"
    using Suc.prems le32_val_take_less by auto
  consider "?t < ?h" | "?h < ?t" | "?h = ?t" by force
  then show ?case
  proof cases
    case 1
    then show ?thesis
      using Suc.prems digits leading_digit [OF bound(2), of "unat ?t" "unat ?h"]
      by (simp add: word_less_nat_alt not_le)
  next
    case 2
    then show ?thesis
      using Suc.prems digits leading_digit [OF bound(1), of "unat ?h" "unat ?t"]
      by (simp add: word_less_nat_alt less_imp_le)
  next
    case 3
    then show ?thesis using Suc digits by simp
  qed
qed simp

lemma fulltest_val:
  assumes "length hash = 8" "length target = 8"
  shows "fulltest hash target \<longleftrightarrow> le32_val hash \<le> le32_val target"
  using assms fulltest_loop_val [of 8 hash target] by (simp add: fulltest_def)

text \<open>Every hash meets the largest target.\<close>

lemma fulltest_full_target:
  assumes "length hash = 8" shows "fulltest hash (replicate 8 (-1))"
proof -
  have "unat (-1 :: u32) = 4294967295" by (simp add: unsigned_minus_1_eq_mask mask_eq_exp_minus_1)
  then have "Suc (le32_val (replicate n (-1))) = 4294967296 ^ n" for n
    by (induction n) (simp_all add: algebra_simps)
  from this [of 8] have "le32_val (replicate 8 (-1 :: u32)) = 4294967296 ^ 8 - 1" by simp
  then show ?thesis using le32_val_less [of hash] assms by (simp add: fulltest_val)
qed

text \<open>The most significant word alone rejects most hashes.\<close>

lemma fulltest_top_word: "fulltest hash target \<Longrightarrow> hash ! 7 \<le> target ! 7"
  by (cases "target ! 7 < hash ! 7") (simp_all add: fulltest_def eval_nat_numeral not_less)

section \<open>Property\<close>

text \<open>C9: the word-wise test from the top is the comparison of the two 256-bit numbers that the
  arrays denote.\<close>

theorem fulltest_compares:
  assumes "length hash = 8" and "length target = 8"
  shows "fulltest hash target \<longleftrightarrow> le32_val hash \<le> le32_val target"
  using assms by (rule fulltest_val)

theorem fulltest_compares_witness:
  "fulltest [5, 0, 0, 0, 0, 0, 0, 1] [4, 0, 0, 0, 0, 0, 0, 1] \<longleftrightarrow>
   le32_val [5, 0, 0, 0, 0, 0, 0, 1] \<le> le32_val [4, 0, 0, 0, 0, 0, 0, 1]"
  by (rule fulltest_compares) simp_all

end
