(* ===== verification/Cstring.thy ===== *)
theory Cstring
  imports Miner_Prelude
begin

text \<open>
  C strings as HOL strings (without the terminating zero) and the functions of the C library
  that the program applies to them, in the C locale: character classes, case-insensitive
  comparison, searching, tokens and the \<^verbatim>\<open>strtol\<close> family. Nothing here models code of the
  program itself.
\<close>

section \<open>Characters\<close>

definition code :: "char \<Rightarrow> nat" where
  "code c = of_char c"

definition chr :: "nat \<Rightarrow> char" where
  "chr n = char_of n"

definition isspace :: "char \<Rightarrow> bool" where
  "isspace c \<longleftrightarrow> code c = 32 \<or> (9 \<le> code c \<and> code c \<le> 13)"

definition isdigit :: "char \<Rightarrow> bool" where
  "isdigit c \<longleftrightarrow> 48 \<le> code c \<and> code c \<le> 57"

definition tolower :: "char \<Rightarrow> char" where
  "tolower c = (if 65 \<le> code c \<and> code c \<le> 90 then chr (code c + 32) else c)"

text \<open>The value of a digit in a base up to 36, as \<^verbatim>\<open>strtol\<close> reads it.\<close>

definition digit_val :: "char \<Rightarrow> nat option" where
  "digit_val c =
    (if 48 \<le> code c \<and> code c \<le> 57 then Some (code c - 48)
     else if 97 \<le> code c \<and> code c \<le> 122 then Some (code c - 87)
     else if 65 \<le> code c \<and> code c \<le> 90 then Some (code c - 55)
     else None)"

definition is_digit_of :: "nat \<Rightarrow> char \<Rightarrow> bool" where
  "is_digit_of base c = (case digit_val c of None \<Rightarrow> False | Some d \<Rightarrow> d < base)"

section \<open>Comparison and search\<close>

definition strcasecmp_eq :: "string \<Rightarrow> string \<Rightarrow> bool" where
  "strcasecmp_eq s t \<longleftrightarrow> map tolower s = map tolower t"

definition strncasecmp_eq :: "string \<Rightarrow> string \<Rightarrow> nat \<Rightarrow> bool" where
  "strncasecmp_eq s t n \<longleftrightarrow> map tolower (take n s) = map tolower (take n t)"

definition strncmp_eq :: "string \<Rightarrow> string \<Rightarrow> nat \<Rightarrow> bool" where
  "strncmp_eq s t n \<longleftrightarrow> take n s = take n t"

fun starts_with :: "string \<Rightarrow> string \<Rightarrow> bool" where
  "starts_with [] s = True"
| "starts_with (p # ps) [] = False"
| "starts_with (p # ps) (c # s) = (p = c \<and> starts_with ps s)"

text \<open>\<^verbatim>\<open>strstr\<close>: the rest of the string from the first occurrence on.\<close>

fun strstr :: "string \<Rightarrow> string \<Rightarrow> string option" where
  "strstr [] pat = (if pat = [] then Some [] else None)"
| "strstr (c # s) pat = (if starts_with pat (c # s) then Some (c # s) else strstr s pat)"

fun strchr :: "string \<Rightarrow> char \<Rightarrow> string option" where
  "strchr [] x = None"
| "strchr (c # s) x = (if c = x then Some (c # s) else strchr s x)"

text \<open>The last occurrence, as \<^verbatim>\<open>strrchr\<close>.\<close>

fun strrchr :: "string \<Rightarrow> char \<Rightarrow> string option" where
  "strrchr [] x = None"
| "strrchr (c # s) x = (case strrchr s x of Some r \<Rightarrow> Some r | None \<Rightarrow> if c = x then Some (c # s) else None)"

text \<open>\<^verbatim>\<open>strtok\<close> with one delimiter: leading delimiters are skipped; the token and what follows
  the delimiter that ends it.\<close>

definition strtok :: "char \<Rightarrow> string \<Rightarrow> (string \<times> string) option" where
  "strtok d s =
    (let s = dropWhile (\<lambda>c. c = d) s in
     if s = [] then None
     else Some (takeWhile (\<lambda>c. c \<noteq> d) s, drop 1 (dropWhile (\<lambda>c. c \<noteq> d) s)))"

section \<open>Reading numbers\<close>

definition digits_val :: "nat \<Rightarrow> string \<Rightarrow> nat" where
  "digits_val base ds = foldl (\<lambda>a c. a * base + (case digit_val c of None \<Rightarrow> 0 | Some d \<Rightarrow> d)) 0 ds"

text \<open>
  \<^verbatim>\<open>strtol\<close> in base 10 or 16, before the result is clamped to its type: white space, a sign, the
  prefix of base 16 when a digit follows it, then the digits. The value and the rest of the
  string; without digits the rest is the whole string.
\<close>

definition strto_sign :: "string \<Rightarrow> bool \<times> string" where
  "strto_sign s = (case s of c # r \<Rightarrow> if c = CHR ''-'' then (True, r) else if c = CHR ''+'' then (False, r) else (False, s)
     | [] \<Rightarrow> (False, []))"

definition strto_prefix :: "nat \<Rightarrow> string \<Rightarrow> string" where
  "strto_prefix base s = (case s of
     z # x # d # r \<Rightarrow> if base = 16 \<and> z = CHR ''0'' \<and> (x = CHR ''x'' \<or> x = CHR ''X'') \<and> is_digit_of 16 d
       then d # r else s
   | _ \<Rightarrow> s)"

definition strto_int :: "nat \<Rightarrow> string \<Rightarrow> int \<times> string" where
  "strto_int base s =
    (case strto_sign (dropWhile isspace s) of (neg, s1) \<Rightarrow>
      let s2 = strto_prefix base s1;
          ds = takeWhile (is_digit_of base) s2
      in if ds = [] then (0, s)
         else ((if neg then - int (digits_val base ds) else int (digits_val base ds)), drop (length ds) s2))"

definition strtol :: "nat \<Rightarrow> string \<Rightarrow> int \<times> string" where
  "strtol base s = (case strto_int base s of (v, r) \<Rightarrow> (max (- (2 ^ 63)) (min v (2 ^ 63 - 1)), r))"

text \<open>\<^verbatim>\<open>atoi\<close>: the result of \<^verbatim>\<open>strtol\<close> converted to \<^verbatim>\<open>int\<close>.\<close>

definition atoi :: "string \<Rightarrow> int" where
  "atoi s = sint (word_of_int (fst (strtol 10 s)) :: 32 word)"

section \<open>Printing numbers\<close>

definition hexdigit :: "nat \<Rightarrow> char" where
  "hexdigit n = (if n < 10 then chr (48 + n) else chr (87 + n))"

text \<open>The format \<^verbatim>\<open>%02x\<close> of a byte.\<close>

definition hex_of_u8 :: "u8 \<Rightarrow> string" where
  "hex_of_u8 b = [hexdigit (unat b div 16), hexdigit (unat b mod 16)]"

fun dec_nat :: "nat \<Rightarrow> string" where
  "dec_nat n = (if n < 10 then [chr (48 + n)] else dec_nat (n div 10) @ [chr (48 + n mod 10)])"

declare dec_nat.simps [simp del]

text \<open>The format \<^verbatim>\<open>%d\<close>.\<close>

definition dec_int :: "int \<Rightarrow> string" where
  "dec_int i = (if i < 0 then CHR ''-'' # dec_nat (nat (- i)) else dec_nat (nat i))"

section \<open>Facts\<close>

lemma code_chr [simp]: "n < 256 \<Longrightarrow> code (chr n) = n"
  by (simp add: code_def chr_def)

lemma chr_code [simp]: "chr (code c) = c"
  by (simp add: code_def chr_def)

lemma code_less [word_bounds]: "code c < 256"
  by (simp add: code_def)

lemma code_inject: "code c = code d \<longleftrightarrow> c = d"
  by (metis chr_code)

lemma digit_val_hexdigit [simp]: "n < 16 \<Longrightarrow> digit_val (hexdigit n) = Some n"
  by (simp add: hexdigit_def digit_val_def)

lemma hexdigit_plain:
  assumes "n < 16"
  shows "\<not> isspace (hexdigit n)" "hexdigit n \<noteq> CHR ''-''" "hexdigit n \<noteq> CHR ''+''"
    "hexdigit n \<noteq> CHR ''x''" "hexdigit n \<noteq> CHR ''X''"
proof -
  have c: "code (hexdigit n) = (if n < 10 then 48 + n else 87 + n)"
    using assms by (simp add: hexdigit_def)
  then show "\<not> isspace (hexdigit n)" by (simp add: isspace_def)
  have "code CHR ''-'' = 45" "code CHR ''+'' = 43" "code CHR ''x'' = 120" "code CHR ''X'' = 88"
    by (simp_all add: code_def)
  with c assms show "hexdigit n \<noteq> CHR ''-''" "hexdigit n \<noteq> CHR ''+''"
    "hexdigit n \<noteq> CHR ''x''" "hexdigit n \<noteq> CHR ''X''"
    by (auto split: if_splits dest!: arg_cong [where f = code])
qed

lemma strtol_hex_of_u8: "strtol 16 (hex_of_u8 b) = (uint b, [])"
proof -
  have b: "unat b div 16 < 16" "unat b mod 16 < 16" "unat b < 256" by (simp_all add: word_bounds less_mult_imp_div_less)
  note plain = hexdigit_plain [OF b(1)] hexdigit_plain [OF b(2)]
  have "is_digit_of 16 (hexdigit n)" if "n < 16" for n using that by (simp add: is_digit_of_def)
  then have "strto_int 16 (hex_of_u8 b) = (int (unat b div 16 * 16 + unat b mod 16), [])"
    using b plain
    by (simp only: strto_int_def hex_of_u8_def strto_sign_def strto_prefix_def Let_def digits_val_def
        dropWhile.simps takeWhile.simps list.case prod.case foldl.simps digit_val_hexdigit option.case if_False
        if_True drop.simps) simp
  also have "int (unat b div 16 * 16 + unat b mod 16) = uint b"
    by (simp only: div_mult_mod_eq) simp
  finally have v: "strto_int 16 (hex_of_u8 b) = (uint b, [])" .
  have "uint b < 256" using unsigned_less [of b, where ?'a = int] by simp
  moreover have "0 \<le> uint b" by simp
  ultimately have "- 9223372036854775808 \<le> uint b" "uint b \<le> 9223372036854775807" by linarith+
  then show ?thesis by (simp add: strtol_def v)
qed

lemma dec_nat_digits: "c \<in> set (dec_nat n) \<Longrightarrow> isdigit c"
proof (induction n rule: dec_nat.induct)
  case (1 n)
  then show ?case by (subst (asm) (2) dec_nat.simps) (auto simp: isdigit_def split: if_splits)
qed

lemma dec_nat_nonempty: "dec_nat n \<noteq> []"
  by (subst dec_nat.simps) simp

lemma digits_val_snoc: "digits_val b (ds @ [c]) = digits_val b ds * b + (case digit_val c of None \<Rightarrow> 0 | Some d \<Rightarrow> d)"
  by (simp add: digits_val_def)

lemma digits_val_dec_nat: "digits_val 10 (dec_nat n) = n"
proof (induction n rule: dec_nat.induct)
  case (1 n)
  have d: "digit_val (chr (48 + m)) = Some m" if "m < 10" for m
    using that by (simp add: digit_val_def)
  show ?case
  proof (cases "n < 10")
    case True
    then show ?thesis using d by (subst dec_nat.simps) (simp add: digits_val_def)
  next
    case False
    then show ?thesis using 1 d by (subst dec_nat.simps) (simp add: digits_val_snoc)
  qed
qed

lemma dec_nat_head: "n \<noteq> 0 \<Longrightarrow> \<exists>c u. dec_nat n = c # u \<and> c \<noteq> CHR ''0''"
proof (induction n rule: dec_nat.induct)
  case (1 n)
  have z: "CHR ''0'' = chr 48" by (simp add: chr_def char_of_def bit_0)
  show ?case
  proof (cases "n < 10")
    case True
    then show ?thesis using 1(2) by (subst dec_nat.simps) (auto simp: z dest!: arg_cong [of _ _ code])
  next
    case False
    then show ?thesis using 1(1) by (subst dec_nat.simps) (fastforce simp: div_eq_0_iff)
  qed
qed

lemma length_dec_nat: "n < 10 ^ k \<Longrightarrow> 0 < k \<Longrightarrow> length (dec_nat n) \<le> k"
proof (induction k arbitrary: n)
  case (Suc k)
  show ?case
  proof (cases "n < 10")
    case False
    then have "k \<noteq> 0" using Suc.prems by (cases k) auto
    then show ?thesis using False Suc.IH [of "n div 10"] Suc.prems by (subst dec_nat.simps) (simp add: div_less_iff_less_mult mult.commute)
  qed (subst dec_nat.simps, simp)
qed simp

lemma is_digit_of_10: "is_digit_of 10 ch = isdigit ch"
  by (auto simp: is_digit_of_def digit_val_def isdigit_def)

lemma dec_nat_start:
  obtains d ds where "dec_nat n = d # ds" "\<not> isspace d" "d \<noteq> CHR ''-''" "d \<noteq> CHR ''+''"
proof -
  obtain d ds where d: "dec_nat n = d # ds" using dec_nat_nonempty by (cases "dec_nat n") auto
  have "isdigit d" by (rule dec_nat_digits [of _ n]) (simp add: d)
  then have "48 \<le> code d" "code d \<le> 57" by (simp_all add: isdigit_def)
  moreover have "code CHR ''-'' = 45" "code CHR ''+'' = 43" by (simp_all add: code_def)
  ultimately have "\<not> isspace d" "d \<noteq> CHR ''-''" "d \<noteq> CHR ''+''" by (auto simp: isspace_def)
  with d that show ?thesis by blast
qed

text \<open>Reading back a printed number.\<close>

lemma strto_int_digits: "strto_int 10 (CHR ''-'' # dec_nat n) = (- int n, [])" "strto_int 10 (dec_nat n) = (int n, [])"
proof -
  obtain d ds where d: "dec_nat n = d # ds" "\<not> isspace d" "d \<noteq> CHR ''-''" "d \<noteq> CHR ''+''" by (rule dec_nat_start [of n])
  have all: "\<forall>ch \<in> set (d # ds). is_digit_of 10 ch" using dec_nat_digits [of _ n] by (simp add: d(1) is_digit_of_10)
  have minus: "\<not> isspace CHR ''-''" by (simp add: isspace_def code_def)
  have sign: "strto_sign (dropWhile isspace (d # ds)) = (False, d # ds)"
    "strto_sign (dropWhile isspace (CHR ''-'' # d # ds)) = (True, d # ds)" using d(2-4) minus by (simp_all add: strto_sign_def)
  have pre: "strto_prefix 10 (d # ds) = d # ds" by (auto simp: strto_prefix_def split: list.split)
  have tw: "takeWhile (is_digit_of 10) (d # ds) = d # ds" using all by (simp only: takeWhile_eq_all_conv)
  have "strto_int 10 (d # ds) = (int (digits_val 10 (d # ds)), [])" "strto_int 10 (CHR ''-'' # d # ds) = (- int (digits_val 10 (d # ds)), [])"
    unfolding strto_int_def sign prod.case Let_def pre tw by simp_all
  then show "strto_int 10 (CHR ''-'' # dec_nat n) = (- int n, [])" "strto_int 10 (dec_nat n) = (int n, [])"
    using digits_val_dec_nat [of n] by (simp_all add: d(1))
qed

lemma strto_int_dec_nat: "strto_int 10 (dec_nat n) = (int n, [])"
  by (rule strto_int_digits)

lemma strto_int_dec_int: "strto_int 10 (dec_int i) = (i, [])"
  by (simp add: dec_int_def strto_int_digits)
end
