(* ===== verification/Json.thy ===== *)
theory Json
  imports Cstring Double
begin

text \<open>
  JSON values and the accessors of the bundled Jansson library (\<^verbatim>\<open>compat/jansson/value.c\<close>) that
  the miner calls. A null pointer is \<open>None\<close>; every accessor accepts it, as the C functions do.
  An object is an association list with one entry per key, in the order of insertion; the hash table
  behind it is the theory \<open>Hashtable\<close>. Reference counts are not modelled. The parser and
  the printer are the theories \<open>Json_Load\<close> and \<open>Json_Dump\<close>; the functions of the miner
  take them as arguments.
\<close>

section \<open>Values\<close>

datatype json = JNull | JTrue | JFalse | JInteger int | JReal double | JString string
  | JArray "json list" | JObject "(string \<times> json) list"

section \<open>Accessors\<close>

fun json_is_object :: "json option \<Rightarrow> bool" where
  "json_is_object (Some (JObject kvs)) = True"
| "json_is_object _ = False"

fun json_is_array :: "json option \<Rightarrow> bool" where
  "json_is_array (Some (JArray vs)) = True"
| "json_is_array _ = False"

fun json_is_string :: "json option \<Rightarrow> bool" where
  "json_is_string (Some (JString s)) = True"
| "json_is_string _ = False"

fun json_is_integer :: "json option \<Rightarrow> bool" where
  "json_is_integer (Some (JInteger i)) = True"
| "json_is_integer _ = False"

fun json_is_real :: "json option \<Rightarrow> bool" where
  "json_is_real (Some (JReal d)) = True"
| "json_is_real _ = False"

definition json_is_number :: "json option \<Rightarrow> bool" where
  "json_is_number v \<longleftrightarrow> json_is_integer v \<or> json_is_real v"

definition json_is_true :: "json option \<Rightarrow> bool" where
  "json_is_true v \<longleftrightarrow> v = Some JTrue"

definition json_is_false :: "json option \<Rightarrow> bool" where
  "json_is_false v \<longleftrightarrow> v = Some JFalse"

definition json_is_null :: "json option \<Rightarrow> bool" where
  "json_is_null v \<longleftrightarrow> v = Some JNull"

fun json_object_get :: "json option \<Rightarrow> string \<Rightarrow> json option" where
  "json_object_get (Some (JObject kvs)) key = map_of kvs key"
| "json_object_get _ key = None"

fun json_array_size :: "json option \<Rightarrow> nat" where
  "json_array_size (Some (JArray vs)) = length vs"
| "json_array_size _ = 0"

fun json_array_get :: "json option \<Rightarrow> nat \<Rightarrow> json option" where
  "json_array_get (Some (JArray vs)) i = (if i < length vs then Some (vs ! i) else None)"
| "json_array_get _ i = None"

fun json_string_value :: "json option \<Rightarrow> string option" where
  "json_string_value (Some (JString s)) = Some s"
| "json_string_value _ = None"

fun json_integer_value :: "json option \<Rightarrow> int" where
  "json_integer_value (Some (JInteger i)) = i"
| "json_integer_value _ = 0"

fun json_real_value :: "json option \<Rightarrow> double" where
  "json_real_value (Some (JReal d)) = d"
| "json_real_value _ = dbl_zero"

fun json_number_value :: "json option \<Rightarrow> double" where
  "json_number_value (Some (JInteger i)) = dbl_of_int i"
| "json_number_value (Some (JReal d)) = d"
| "json_number_value _ = dbl_zero"

text \<open>Setting a key of an object: replace its value or add the key; other values are left alone.\<close>

fun assoc_set :: "(string \<times> json) list \<Rightarrow> string \<Rightarrow> json \<Rightarrow> (string \<times> json) list" where
  "assoc_set [] key v = [(key, v)]"
| "assoc_set ((k, w) # kvs) key v = (if k = key then (k, v) # kvs else (k, w) # assoc_set kvs key v)"

fun json_object_set :: "json \<Rightarrow> string \<Rightarrow> json \<Rightarrow> json" where
  "json_object_set (JObject kvs) key v = JObject (assoc_set kvs key v)"
| "json_object_set j key v = j"

text \<open>The conversion of a 64-bit value to \<^verbatim>\<open>int\<close>.\<close>

definition to_int32 :: "int \<Rightarrow> int" where
  "to_int32 i = sint (word_of_int i :: 32 word)"

section \<open>Laws\<close>

lemma map_of_assoc_set: "map_of (assoc_set kvs key v) = (map_of kvs)(key \<mapsto> v)"
  by (induction kvs key v rule: assoc_set.induct) auto

lemma json_object_get_set:
  "json_object_get (Some (json_object_set (JObject kvs) key v)) k =
    (if k = key then Some v else json_object_get (Some (JObject kvs)) k)"
  by (simp add: map_of_assoc_set)

lemma json_array_get_None: "json_array_size v \<le> i \<Longrightarrow> json_array_get v i = None"
  by (cases "(v, i)" rule: json_array_get.cases) auto

end
