(* ===== verification/Sha256.thy ===== *)
theory Sha256
  imports Endian
begin

text \<open>
  The SHA-256 compression function of \<^verbatim>\<open>algo/sha2.c\<close>: the macros, the rotating-state
  rounds and \<^verbatim>\<open>sha256_transform\<close>, with the FIPS 180-4 compression function as the
  abstract specification. The main result is that the rotating eight word array of the C
  code computes the shift register of the standard.
\<close>

section \<open>Constants and macros\<close>

definition sha256_h :: "u32 list" where
  "sha256_h = [0x6A09E667, 0xBB67AE85, 0x3C6EF372, 0xA54FF53A,
     0x510E527F, 0x9B05688C, 0x1F83D9AB, 0x5BE0CD19]"

definition sha256_k :: "u32 list" where
  "sha256_k = [
    0x428A2F98, 0x71374491, 0xB5C0FBCF, 0xE9B5DBA5,
    0x3956C25B, 0x59F111F1, 0x923F82A4, 0xAB1C5ED5,
    0xD807AA98, 0x12835B01, 0x243185BE, 0x550C7DC3,
    0x72BE5D74, 0x80DEB1FE, 0x9BDC06A7, 0xC19BF174,
    0xE49B69C1, 0xEFBE4786, 0x0FC19DC6, 0x240CA1CC,
    0x2DE92C6F, 0x4A7484AA, 0x5CB0A9DC, 0x76F988DA,
    0x983E5152, 0xA831C66D, 0xB00327C8, 0xBF597FC7,
    0xC6E00BF3, 0xD5A79147, 0x06CA6351, 0x14292967,
    0x27B70A85, 0x2E1B2138, 0x4D2C6DFC, 0x53380D13,
    0x650A7354, 0x766A0ABB, 0x81C2C92E, 0x92722C85,
    0xA2BFE8A1, 0xA81A664B, 0xC24B8B70, 0xC76C51A3,
    0xD192E819, 0xD6990624, 0xF40E3585, 0x106AA070,
    0x19A4C116, 0x1E376C08, 0x2748774C, 0x34B0BCB5,
    0x391C0CB3, 0x4ED8AA4A, 0x5B9CCA4F, 0x682E6FF3,
    0x748F82EE, 0x78A5636F, 0x84C87814, 0x8CC70208,
    0x90BEFFFA, 0xA4506CEB, 0xBEF9A3F7, 0xC67178F2]"

text \<open>The initial value goes to the first eight words of the array.\<close>

definition sha256_init :: "u32 list \<Rightarrow> u32 list" where
  "sha256_init state = memcpy_at state 0 sha256_h"

definition Ch :: "u32 \<Rightarrow> u32 \<Rightarrow> u32 \<Rightarrow> u32" where
  "Ch x y z = (x AND (y XOR z)) XOR z"

definition Maj :: "u32 \<Rightarrow> u32 \<Rightarrow> u32 \<Rightarrow> u32" where
  "Maj x y z = (x AND (y OR z)) OR (y AND z)"

definition ROTR :: "u32 \<Rightarrow> nat \<Rightarrow> u32" where
  "ROTR x n = drop_bit n x OR push_bit (32 - n) x"

definition bigS0 :: "u32 \<Rightarrow> u32" where
  "bigS0 x = ROTR x 2 XOR ROTR x 13 XOR ROTR x 22"

definition bigS1 :: "u32 \<Rightarrow> u32" where
  "bigS1 x = ROTR x 6 XOR ROTR x 11 XOR ROTR x 25"

definition smallS0 :: "u32 \<Rightarrow> u32" where
  "smallS0 x = ROTR x 7 XOR ROTR x 18 XOR drop_bit 3 x"

definition smallS1 :: "u32 \<Rightarrow> u32" where
  "smallS1 x = ROTR x 17 XOR ROTR x 19 XOR drop_bit 10 x"

section \<open>Rounds on the rotating state\<close>

text \<open>
  \<^verbatim>\<open>RND\<close> updates the variables in the places of \<open>d\<close> and \<open>h\<close>; the places are given as
  indices into the array \<open>S\<close>, as \<^verbatim>\<open>RNDr\<close> passes them.
\<close>

definition RND :: "u32 list \<Rightarrow> nat \<Rightarrow> nat \<Rightarrow> nat \<Rightarrow> nat \<Rightarrow> nat \<Rightarrow> nat \<Rightarrow> nat \<Rightarrow> nat \<Rightarrow> u32 \<Rightarrow> u32 list" where
  "RND S a b c d e f g h k =
    (let t0 = S ! h + bigS1 (S ! e) + Ch (S ! e) (S ! f) (S ! g) + k;
         t1 = bigS0 (S ! a) + Maj (S ! a) (S ! b) (S ! c);
         S = S[d := S ! d + t0]
     in S[h := t0 + t1])"

definition RNDr :: "u32 list \<Rightarrow> nat \<Rightarrow> u32 list \<Rightarrow> u32 list" where
  "RNDr W i S =
    RND S ((64 - i) mod 8) ((65 - i) mod 8) ((66 - i) mod 8) ((67 - i) mod 8)
      ((68 - i) mod 8) ((69 - i) mod 8) ((70 - i) mod 8) ((71 - i) mod 8)
      (W ! i + sha256_k ! i)"

text \<open>Two words of the message schedule, the body of the loop over even indices.\<close>

definition sched_step :: "nat \<Rightarrow> u32 list \<Rightarrow> u32 list" where
  "sched_step i W =
    (let W = W[i := smallS1 (W ! (i - 2)) + W ! (i - 7) + smallS0 (W ! (i - 15)) + W ! (i - 16)]
     in W[i + 1 := smallS1 (W ! (i - 1)) + W ! (i - 6) + smallS0 (W ! (i - 14)) + W ! (i - 15)])"

text \<open>\<open>for (i = lo; i < hi; i += 2)\<close> of the schedule.\<close>

definition sched_loop :: "nat \<Rightarrow> nat \<Rightarrow> u32 list \<Rightarrow> u32 list" where
  "sched_loop lo hi W = fold sched_step (map (\<lambda>k. lo + 2 * k) [0..<(hi - lo + 1) div 2]) W"

definition sha256_transform :: "u32 list \<Rightarrow> u32 list \<Rightarrow> bool \<Rightarrow> u32 list" where
  "sha256_transform state block swap =
    (let W = (if swap then map swab32 (take 16 block) else take 16 block) @ replicate 48 0;
         W = sched_loop 16 64 W;
         S = take 8 state;
         S = fold (RNDr W) [0..<64] S
     in map2 (+) (take 8 state) S @ drop 8 state)"

section \<open>The standard's compression function\<close>

fun wsched :: "(nat \<Rightarrow> u32) \<Rightarrow> nat \<Rightarrow> u32" where
  "wsched M t = (if t < 16 then M t
     else smallS1 (wsched M (t - 2)) + wsched M (t - 7) + smallS0 (wsched M (t - 15)) + wsched M (t - 16))"

declare wsched.simps [simp del]

type_synonym regs = "u32 \<times> u32 \<times> u32 \<times> u32 \<times> u32 \<times> u32 \<times> u32 \<times> u32"

definition fips_Ch :: "u32 \<Rightarrow> u32 \<Rightarrow> u32 \<Rightarrow> u32" where
  "fips_Ch x y z = (x AND y) XOR (NOT x AND z)"

definition fips_Maj :: "u32 \<Rightarrow> u32 \<Rightarrow> u32 \<Rightarrow> u32" where
  "fips_Maj x y z = (x AND y) XOR (x AND z) XOR (y AND z)"

fun fips_round :: "u32 \<Rightarrow> regs \<Rightarrow> regs" where
  "fips_round kw (a, b, c, d, e, f, g, h) =
    (let T1 = h + bigS1 e + fips_Ch e f g + kw;
         T2 = bigS0 a + fips_Maj a b c
     in (T1 + T2, a, b, c, d + T1, e, f, g))"

definition fips_rounds :: "(nat \<Rightarrow> u32) \<Rightarrow> nat \<Rightarrow> nat \<Rightarrow> regs \<Rightarrow> regs" where
  "fips_rounds w lo hi r = fold (\<lambda>t. fips_round (w t + sha256_k ! t)) [lo..<hi] r"

definition regs_of :: "u32 list \<Rightarrow> regs" where
  "regs_of S = (S ! 0, S ! 1, S ! 2, S ! 3, S ! 4, S ! 5, S ! 6, S ! 7)"

fun list_of_regs :: "regs \<Rightarrow> u32 list" where
  "list_of_regs (a, b, c, d, e, f, g, h) = [a, b, c, d, e, f, g, h]"

definition fips_compress :: "u32 list \<Rightarrow> (nat \<Rightarrow> u32) \<Rightarrow> u32 list" where
  "fips_compress H M =
    map2 (+) H (list_of_regs (fips_rounds (wsched M) 0 64 (regs_of H)))"

section \<open>The macros agree with the standard\<close>

lemma Ch_fips: "Ch x y z = fips_Ch x y z"
  unfolding Ch_def fips_Ch_def by (rule bit_word_eqI) (auto simp: bit_simps)

lemma Maj_fips: "Maj x y z = fips_Maj x y z"
  unfolding Maj_def fips_Maj_def by (rule bit_word_eqI) (auto simp: bit_simps)

lemma length_sha256_h [layout, simp]: "length sha256_h = 8"
  by (simp add: sha256_h_def)

lemma length_sha256_k [layout, simp]: "length sha256_k = 64"
  by (simp add: sha256_k_def)

lemma length_RND [layout, simp]: "length (RND S a b c d e f g h k) = length S"
  by (simp add: RND_def Let_def)

lemma length_RNDr [layout, simp]: "length (RNDr W i S) = length S"
  by (simp add: RNDr_def)

lemma length_rounds [layout, simp]: "length (fold (RNDr W) is S) = length S"
  by (induction "is" arbitrary: S) simp_all

lemma length_sched_step [layout, simp]: "length (sched_step i W) = length W"
  by (simp add: sched_step_def Let_def)

lemma length_sched_fold: "length (fold sched_step is W) = length W"
  by (induction "is" arbitrary: W) simp_all

lemma length_sched_loop [layout, simp]: "length (sched_loop lo hi W) = length W"
  by (simp add: sched_loop_def length_sched_fold)

lemma length_sha256_transform [layout]:
  "8 \<le> length state \<Longrightarrow> length (sha256_transform state block sw) = length state"
  by (simp add: sha256_transform_def Let_def)

section \<open>The rotating array is the shift register\<close>

text \<open>Before round \<open>i\<close> the variable number \<open>j\<close> of the standard is at index \<open>rot i j\<close>.\<close>

definition rot :: "nat \<Rightarrow> nat \<Rightarrow> nat" where
  "rot i j = (64 + j - i) mod 8"

definition view :: "nat \<Rightarrow> u32 list \<Rightarrow> regs" where
  "view i S = (S ! rot i 0, S ! rot i 1, S ! rot i 2, S ! rot i 3,
     S ! rot i 4, S ! rot i 5, S ! rot i 6, S ! rot i 7)"

lemma rot_less [simp]: "rot i j < 8"
  by (simp add: rot_def)

lemma rot_Suc: "i < 64 \<Longrightarrow> j < 7 \<Longrightarrow> rot (Suc i) (Suc j) = rot i j"
  by (simp add: rot_def)

lemma rot_Suc_0: "i < 64 \<Longrightarrow> rot (Suc i) 0 = rot i 7"
proof -
  assume "i < 64"
  then have "64 + 7 - i = 64 + 0 - Suc i + 8" by simp
  then show ?thesis unfolding rot_def by (metis mod_add_self2)
qed

lemma rot_eq_iff: "i \<le> 64 \<Longrightarrow> j < 8 \<Longrightarrow> k < 8 \<Longrightarrow> rot i j = rot i k \<longleftrightarrow> j = k"
proof -
  assume *: "i \<le> 64" "j < 8" "k < 8"
  have aux: "a < 8 \<Longrightarrow> b \<le> a \<Longrightarrow> (m + a) mod 8 = (m + b) mod 8 \<Longrightarrow> a = b" for m a b :: nat
    using nat_dvd_not_less [of "a - b" 8] by (cases "b < a") (auto simp: mod_eq_dvd_iff_nat)
  show ?thesis
    using * aux [of j k "64 - i"] aux [of k j "64 - i"] by (cases "k \<le> j") (auto simp: rot_def)
qed

lemma rot_start: "j < 8 \<Longrightarrow> rot 0 j = j" and rot_end: "j < 8 \<Longrightarrow> rot 64 j = j"
  using mod_mult_self2 [of j 8 8] by (simp_all add: rot_def add.commute)

lemma RNDr_rot:
  "i < 64 \<Longrightarrow> RNDr W i S = RND S (rot i 0) (rot i 1) (rot i 2) (rot i 3)
     (rot i 4) (rot i 5) (rot i 6) (rot i 7) (W ! i + sha256_k ! i)"
  by (simp add: RNDr_def rot_def)

lemma RNDr_nth_other:
  assumes "i < 64" "8 \<le> length S" "j < 8" "j \<noteq> 3" "j \<noteq> 7"
  shows "RNDr W i S ! rot i j = S ! rot i j"
  using assms by (simp add: RNDr_rot RND_def Let_def rot_eq_iff less_le_trans [OF rot_less])

lemma view_RNDr:
  assumes "i < 64" and "8 \<le> length S"
  shows "view (Suc i) (RNDr W i S) = fips_round (W ! i + sha256_k ! i) (view i S)"
proof -
  have idx: "rot (Suc i) 0 = rot i 7" "rot (Suc i) 1 = rot i 0" "rot (Suc i) 2 = rot i 1"
    "rot (Suc i) 3 = rot i 2" "rot (Suc i) 4 = rot i 3" "rot (Suc i) 5 = rot i 4"
    "rot (Suc i) 6 = rot i 5" "rot (Suc i) 7 = rot i 6"
    using assms rot_Suc_0 rot_Suc [of i 0] rot_Suc [of i 1] rot_Suc [of i 2] rot_Suc [of i 3]
      rot_Suc [of i 4] rot_Suc [of i 5] rot_Suc [of i 6] by (simp_all add: numeral_eq_Suc)
  have lt: "rot i j < length S" for j using assms less_le_trans [OF rot_less] by blast
  have d: "RNDr W i S ! rot i 3 = S ! rot i 3 + (S ! rot i 7 + bigS1 (S ! rot i 4) +
      Ch (S ! rot i 4) (S ! rot i 5) (S ! rot i 6) + (W ! i + sha256_k ! i))"
    using assms by (simp add: RNDr_rot RND_def Let_def rot_eq_iff lt)
  have h: "RNDr W i S ! rot i 7 = (S ! rot i 7 + bigS1 (S ! rot i 4) +
      Ch (S ! rot i 4) (S ! rot i 5) (S ! rot i 6) + (W ! i + sha256_k ! i)) +
      (bigS0 (S ! rot i 0) + Maj (S ! rot i 0) (S ! rot i 1) (S ! rot i 2))"
    using assms by (simp add: RNDr_rot RND_def Let_def lt)
  show ?thesis
    using assms unfolding view_def idx
    by (simp add: d h RNDr_nth_other Let_def Ch_fips Maj_fips)
qed

lemma view_rounds:
  assumes "lo \<le> hi" "hi \<le> 64" "8 \<le> length S" and "\<And>t. lo \<le> t \<Longrightarrow> t < hi \<Longrightarrow> W ! t = w t"
  shows "view hi (fold (RNDr W) [lo..<hi] S) = fips_rounds w lo hi (view lo S)"
  using assms
proof (induction hi)
  case 0
  then show ?case by (simp add: fips_rounds_def)
next
  case (Suc n)
  show ?case
  proof (cases "lo \<le> n")
    case True
    with Suc have "view n (fold (RNDr W) [lo..<n] S) = fips_rounds w lo n (view lo S)"
      by simp
    with True Suc.prems show ?thesis by (simp add: view_RNDr fips_rounds_def)
  next
    case False
    with Suc.prems have "lo = Suc n" by simp
    then show ?thesis by (simp add: fips_rounds_def)
  qed
qed

lemma view_ends: "view 0 S = regs_of S" "view 64 S = regs_of S"
  by (simp_all add: view_def regs_of_def rot_start rot_end)

section \<open>The message schedule\<close>

lemma sched_step_prefix:
  assumes "16 \<le> i" "i + 1 < length W" and "\<forall>t < i. W ! t = wsched M t"
  shows "\<forall>t < i + 2. sched_step i W ! t = wsched M t"
proof (intro allI impI)
  fix t assume t: "t < i + 2"
  have "wsched M i = smallS1 (wsched M (i - 2)) + wsched M (i - 7) + smallS0 (wsched M (i - 15))
      + wsched M (i - 16)"
    using assms(1) by (subst wsched.simps) simp
  moreover have "wsched M (i + 1) = smallS1 (wsched M (i - 1)) + wsched M (i - 6) +
      smallS0 (wsched M (i - 14)) + wsched M (i - 15)"
    using assms(1) by (subst wsched.simps) simp
  ultimately show "sched_step i W ! t = wsched M t"
    using assms t by (auto simp: sched_step_def Let_def nth_list_update less_Suc_eq)
qed

lemma sched_loop_prefix:
  assumes "16 \<le> lo" "lo + 2 * n \<le> length W" and "\<forall>t < lo. W ! t = wsched M t"
  shows "\<forall>t < lo + 2 * n. sched_loop lo (lo + 2 * n) W ! t = wsched M t"
  using assms(2)
proof (induction n)
  case 0
  then show ?case using assms(3) by (simp add: sched_loop_def)
next
  case (Suc n)
  have "sched_loop lo (lo + 2 * Suc n) W = sched_step (lo + 2 * n) (sched_loop lo (lo + 2 * n) W)"
    by (simp add: sched_loop_def)
  then show ?case
    using Suc assms(1) sched_step_prefix [of "lo + 2 * n" "sched_loop lo (lo + 2 * n) W" M]
    by simp
qed

section \<open>Main results\<close>

lemma sha256_schedule:
  assumes "length B = 16" and "t < 64"
  shows "sched_loop 16 64 (B @ replicate 48 0) ! t = wsched (\<lambda>i. B ! i) t"
proof -
  have "\<forall>t < 16. (B @ replicate 48 0) ! t = wsched (\<lambda>i. B ! i) t"
    using assms(1) by (simp add: wsched.simps nth_append)
  with sched_loop_prefix [of 16 24 "B @ replicate 48 0" "\<lambda>i. B ! i"] assms show ?thesis
    by simp
qed

lemma list8_regs: "length S = 8 \<Longrightarrow> list_of_regs (regs_of S) = S"
  by (rule nth_equalityI)
    (auto simp: regs_of_def less_Suc_eq numeral_eq_Suc)

lemma sha256_transform_fips_gen:
  assumes "length H = 8" and "length B = 16"
  shows "sha256_transform H B False = fips_compress H (\<lambda>i. B ! i)"
proof -
  let ?W = "sched_loop 16 64 (B @ replicate 48 0)"
  let ?S = "fold (RNDr ?W) [0..<64] H"
  have "view 64 ?S = fips_rounds (wsched (\<lambda>i. B ! i)) 0 64 (view 0 H)"
    using assms sha256_schedule by (intro view_rounds) simp_all
  then have "?S = list_of_regs (fips_rounds (wsched (\<lambda>i. B ! i)) 0 64 (regs_of H))"
    using assms list8_regs [of ?S] by (simp add: view_ends)
  then show ?thesis
    using assms by (simp add: sha256_transform_def fips_compress_def Let_def)
qed

section \<open>Property\<close>

text \<open>C8: one call of \<^verbatim>\<open>sha256_transform\<close> is one application of the SHA-256 compression
  function of FIPS 180-4 to the sixteen words of the block, byte-swapped first when the caller
  asks for it: the rolling schedule that is extended two words at a time and the rotation of the
  register names by the index of the round change nothing.\<close>

theorem sha256_transform_compress:
  assumes "length H = 8" and "length B = 16"
  shows "sha256_transform H B swap = fips_compress H (\<lambda>i. (if swap then map swab32 B else B) ! i)"
proof (cases swap)
  case True
  have "sha256_transform H B True = sha256_transform H (map swab32 B) False"
    using assms by (simp add: sha256_transform_def)
  with True show ?thesis using sha256_transform_fips_gen [of H "map swab32 B"] assms by simp
qed (use assms sha256_transform_fips_gen in simp)

theorem sha256_transform_compress_witness:
  "length sha256_h = 8 \<and> length [0x61626380, 0, 0, 0, 0, 0, 0, 0, 0, 0, 0, 0, 0, 0, 0, 0x18 :: u32] = 16 \<and>
   sha256_transform sha256_h [0x61626380, 0, 0, 0, 0, 0, 0, 0, 0, 0, 0, 0, 0, 0, 0, 0x18] False =
   fips_compress sha256_h (\<lambda>i. [0x61626380, 0, 0, 0, 0, 0, 0, 0, 0, 0, 0, 0, 0, 0, 0, 0x18] ! i)"
  using sha256_transform_compress
    [of sha256_h "[0x61626380, 0, 0, 0, 0, 0, 0, 0, 0, 0, 0, 0, 0, 0, 0, 0x18]" False]
  by simp

end
