(* ===== verification/Sha256d.thy ===== *)
theory Sha256d
  imports Sha256
begin

text \<open>
  Double SHA-256 as \<^verbatim>\<open>algo/sha2.c\<close> computes it: \<^verbatim>\<open>sha256d\<close> on a byte string of any length,
  with its own padding loop, and \<^verbatim>\<open>sha256d_80_swap\<close> on a block header that is already
  padded. Both are shown equal to two applications of the FIPS 180-4 hash.
\<close>

section \<open>The C functions\<close>

definition sha256d_hash1 :: "u32 list" where
  "sha256d_hash1 = [
    0x00000000, 0x00000000, 0x00000000, 0x00000000,
    0x00000000, 0x00000000, 0x00000000, 0x00000000,
    0x80000000, 0x00000000, 0x00000000, 0x00000000,
    0x00000000, 0x00000000, 0x00000000, 0x00000100]"

definition sha256d_80_swap :: "u32 list \<Rightarrow> u32 list \<Rightarrow> u32 list" where
  "sha256d_80_swap hash data =
    (let S = replicate 16 0;
         S = sha256_init S;
         S = sha256_transform S data False;
         S = sha256_transform S (drop 16 data) False;
         S = memcpy_at S 8 (drop 8 sha256d_hash1);
         hash = sha256_init hash;
         hash = sha256_transform hash S False
     in map swab32 (take 8 hash) @ drop 8 hash)"

text \<open>The words of a 64 byte block, each read big endian.\<close>

definition be_words16 :: "u8 list \<Rightarrow> u32 list" where
  "be_words16 T = map (\<lambda>i. be32dec (take 4 (drop (4 * i) T))) [0..<16]"

text \<open>The body of the loop of \<^verbatim>\<open>sha256d\<close> up to the call of the compression function.\<close>

definition sha256d_block :: "u8 list \<Rightarrow> int \<Rightarrow> int \<Rightarrow> u8 list \<Rightarrow> u32 list" where
  "sha256d_block data len r T =
    (let T = (if r < 64 then replicate 64 0 else T);
         n = (if r > 64 then 64 else if r < 0 then 0 else nat r);
         T = memcpy_at T 0 (take n (drop (nat (len - r)) data));
         T = (if 0 \<le> r \<and> r < 64 then T[nat r := 0x80] else T);
         B = be_words16 T
     in if r < 56 then B[15 := of_int (8 * len)] else B)"

function sha256d_loop :: "u8 list \<Rightarrow> int \<Rightarrow> int \<Rightarrow> u32 list \<Rightarrow> u8 list \<Rightarrow> u32 list" where
  "sha256d_loop data len r S T =
    (if r > -9 then
       let B = sha256d_block data len r T
       in sha256d_loop data len (r - 64) (sha256_transform S B False) (bytes_of_words B)
     else S)"
  by pat_completeness auto
termination
  by (relation "measure (\<lambda>(data, len, r, S, T). nat (r + 9))") auto

declare sha256d_loop.simps [simp del]

text \<open>\<open>sha256d data len\<close> hashes the first \<open>len\<close> bytes of \<open>data\<close>.\<close>

definition sha256d :: "u8 list \<Rightarrow> nat \<Rightarrow> u8 list" where
  "sha256d data len =
    (let S = sha256_init (replicate 16 0);
         S = sha256d_loop data (int len) (int len) S (replicate 64 0);
         S = memcpy_at S 8 (drop 8 sha256d_hash1);
         T = sha256_init (replicate 16 0);
         T = sha256_transform T S False
     in concat (map be32enc (take 8 T)))"

section \<open>The standard\<close>

definition fips_pad :: "u8 list \<Rightarrow> u8 list" where
  "fips_pad m = m @ 0x80 # replicate ((119 - length m mod 64) mod 64) 0
     @ be32enc (of_nat (8 * length m div 4294967296)) @ be32enc (of_nat (8 * length m))"

fun fips_blocks :: "nat \<Rightarrow> u8 list \<Rightarrow> u32 list \<Rightarrow> u32 list" where
  "fips_blocks 0 bs H = H"
| "fips_blocks (Suc n) bs H =
     fips_blocks n (drop 64 bs) (fips_compress H (\<lambda>i. be32dec (take 4 (drop (4 * i) bs))))"

definition fips_sha256 :: "u8 list \<Rightarrow> u8 list" where
  "fips_sha256 m = concat (map be32enc
     (fips_blocks (length (fips_pad m) div 64) (fips_pad m) sha256_h))"

section \<open>Sizes\<close>

lemma length_hash1 [layout, simp]: "length sha256d_hash1 = 16"
  by (simp add: sha256d_hash1_def)

lemma length_sha256_init [layout, simp]: "8 \<le> length S \<Longrightarrow> length (sha256_init S) = length S"
  by (simp add: sha256_init_def)

lemma length_be_words16 [layout, simp]: "length (be_words16 T) = 16"
  by (simp add: be_words16_def)

lemma length_sha256d_block [layout, simp]: "length (sha256d_block data len r T) = 16"
  by (simp add: sha256d_block_def Let_def)

lemma length_list_of_regs [layout, simp]: "length (list_of_regs r) = 8"
  by (cases r rule: list_of_regs.cases) simp

lemma length_fips_compress [layout, simp]: "length H = 8 \<Longrightarrow> length (fips_compress H M) = 8"
  by (simp add: fips_compress_def)

lemma length_fips_blocks [layout, simp]: "length H = 8 \<Longrightarrow> length (fips_blocks n bs H) = 8"
  by (induction n arbitrary: bs H) simp_all

lemma length_concat_be32enc [layout, simp]: "length (concat (map be32enc ws)) = 4 * length ws"
  by (induction ws) simp_all

lemma length_fips_sha256 [layout, simp]: "length (fips_sha256 m) = 32"
  by (simp add: fips_sha256_def)

lemma length_fips_pad: "length (fips_pad m) = 64 * ((length m + 72) div 64)"
proof -
  obtain q r where len: "length m = 64 * q + r" and r: "r < 64"
    by (metis mod_less_divisor mult_div_mod_eq zero_less_numeral)
  then have m: "length m mod 64 = r" by simp
  show ?thesis
  proof (cases "r < 56")
    case True
    then have "(119 - r) mod 64 = 55 - r"
      using mod_add_self2 [of "55 - r" 64] by simp
    moreover have "(length m + 72) div 64 = q + 1" using len True by simp
    ultimately show ?thesis using len True m by (simp add: fips_pad_def)
  next
    case False
    then have "(119 - r) mod 64 = 119 - r" by simp
    moreover have "(length m + 72) div 64 = q + 2" using len False r by simp
    ultimately show ?thesis using len False m r by (simp add: fips_pad_def)
  qed
qed

section \<open>Compression with a longer state array\<close>

lemma sha256_transform_take:
  "sha256_transform S B False = sha256_transform (take 8 S) B False @ drop 8 S"
  by (simp add: sha256_transform_def Let_def)

lemma sha256_transform_block:
  "sha256_transform S (take 16 B) sw = sha256_transform S B sw"
  by (simp add: sha256_transform_def Let_def)

lemma sha256_transform_fips:
  assumes "8 \<le> length S" and "16 \<le> length B"
  shows "sha256_transform S B False = fips_compress (take 8 S) (\<lambda>i. take 16 B ! i) @ drop 8 S"
  using assms sha256_transform_fips_gen [of "take 8 S" "take 16 B"]
  by (simp add: sha256_transform_take [of S] sha256_transform_block)

lemma wsched_cong: "(\<And>i. i < 16 \<Longrightarrow> M i = N i) \<Longrightarrow> wsched M t = wsched N t"
proof (induction M t rule: wsched.induct)
  case (1 M t)
  then show ?case by (subst (1 2) wsched.simps) simp
qed

lemma fips_compress_cong:
  assumes "\<And>i. i < 16 \<Longrightarrow> M i = N i"
  shows "fips_compress H M = fips_compress H N"
proof -
  have "wsched M = wsched N" by (rule ext) (rule wsched_cong, rule assms)
  then show ?thesis by (simp add: fips_compress_def)
qed

section \<open>The padding loop\<close>

lemma be_words16_nth: "i < 16 \<Longrightarrow> be_words16 T ! i = be32dec (take 4 (drop (4 * i) T))"
  by (simp add: be_words16_def)

lemma be_words16_update:
  assumes "length T = 64"
  shows "(be_words16 T)[15 := x] = be_words16 (take 60 T @ be32enc x)"
proof (rule nth_equalityI)
  fix i assume "i < length ((be_words16 T)[15 := x])"
  then have i: "i = 15 \<or> i < 15" by simp arith
  have "4 * i + 4 \<le> 60 \<Longrightarrow> take 4 (drop (4 * i) (take 60 T @ be32enc x)) = take 4 (drop (4 * i) T)"
    using assms by (simp add: drop_take min_def) arith
  with i assms show "(be_words16 T)[15 := x] ! i = be_words16 (take 60 T @ be32enc x) ! i"
    by (auto simp: be_words16_nth)
qed simp

lemma be32enc_0: "be32enc 0 = [0, 0, 0, 0]"
  by (simp add: be32enc_def)

lemma replicate_4: "replicate 4 x = [x, x, x, x]"
  by (simp add: numeral_eq_Suc)

lemma fips_pad_nth:
  assumes "j < length (fips_pad m)" and "8 * length m < 4294967296"
  shows "fips_pad m ! j =
    (if j < length m then m ! j else if j = length m then 0x80
     else if j < length (fips_pad m) - 4 then 0
     else be32enc (of_nat (8 * length m)) ! (j - (length (fips_pad m) - 4)))"
proof -
  let ?k = "(119 - length m mod 64) mod 64" and ?x = "be32enc (of_nat (8 * length m))"
  have pad: "fips_pad m = (m @ [0x80]) @ replicate (?k + 4) 0 @ ?x"
    using assms(2) by (simp add: fips_pad_def be32enc_0 replicate_add replicate_4)
  have len: "length (fips_pad m) = length m + 1 + (?k + 4) + 4" by (simp add: pad)
  consider "j < length m" | "j = length m" | "length m < j" "j < length m + 1 + (?k + 4)"
    | "length m + 1 + (?k + 4) \<le> j" by linarith
  then show ?thesis
    using assms(1) unfolding len unfolding pad by cases (auto simp: nth_append)
qed

text \<open>The bytes of the block buffer after the data and the marker are stored.\<close>

definition block_bytes :: "u8 list \<Rightarrow> nat \<Rightarrow> u8 list" where
  "block_bytes m off = map (\<lambda>j. if off + j < length m then m ! (off + j)
     else if off + j = length m then 0x80 else 0) [0..<64]"

lemma length_block_bytes [layout, simp]: "length (block_bytes m off) = 64"
  by (simp add: block_bytes_def)

lemma block_bytes_nth: "j < 64 \<Longrightarrow> block_bytes m off ! j =
   (if off + j < length m then m ! (off + j) else if off + j = length m then 0x80 else 0)"
  by (simp add: block_bytes_def)

lemma sha256d_block_bytes:
  assumes r: "r = int (length m) - int off" and T: "length T = 64"
  shows "sha256d_block m (int (length m)) r T =
    (let B = be_words16 (block_bytes m off)
     in if r < 56 then B[15 := of_int (8 * int (length m))] else B)"
proof -
  let ?n = "if r > 64 then 64 else if r < 0 then 0 else nat r"
  let ?T = "if r < 64 then replicate 64 0 else T"
  let ?C = "memcpy_at ?T 0 (take ?n (drop off m))"
  let ?D = "if 0 \<le> r \<and> r < 64 then ?C[nat r := 0x80] else ?C"
  have n: "length (take ?n (drop off m)) \<le> 64" by auto
  have D: "?D = block_bytes m off"
  proof (rule nth_equalityI)
    have D: "length ?D = 64" using T n by simp
    then show "length ?D = length (block_bytes m off)" by simp
    fix j assume "j < length ?D"
    then have j: "j < 64" using D by (simp only:)
    have C: "?C ! j = (if off + j < length m then m ! (off + j) else ?T ! j)"
      using j T r n by (subst nth_memcpy_at) auto
    show "?D ! j = block_bytes m off ! j"
      using j T r n C by (auto simp: block_bytes_nth nth_list_update)
  qed
  have off: "nat (int (length m) - r) = off" using r by simp
  show ?thesis unfolding sha256d_block_def Let_def off D ..
qed

lemma sha256d_block_fips:
  assumes len: "8 * length m < 4294967296" and i: "i < (length m + 72) div 64"
    and r: "r = int (length m) - int (64 * i)" and T: "length T = 64"
  shows "sha256d_block m (int (length m)) r T = be_words16 (take 64 (drop (64 * i) (fips_pad m)))"
proof -
  let ?x = "of_nat (8 * length m) :: u32"
  let ?B = "block_bytes m (64 * i)"
  let ?P = "take 64 (drop (64 * i) (fips_pad m))"
  have tot: "length (fips_pad m) = 64 * ((length m + 72) div 64)" by (rule length_fips_pad)
  have P: "length ?P = 64" using i tot by simp
  have Pn: "?P ! j = fips_pad m ! (64 * i + j)" "64 * i + j < length (fips_pad m)" if "j < 64" for j
    using that i tot by simp_all
  show ?thesis
  proof (cases "r < 56")
    case True
    then have "(length m + 72) div 64 < i + 2" using r by (simp add: less_mult_imp_div_less)
    then have last: "length (fips_pad m) = 64 * i + 64" using i tot by simp
    have "take 60 ?B @ be32enc ?x = ?P"
    proof (rule nth_equalityI)
      fix j assume "j < length (take 60 ?B @ be32enc ?x)"
      then have j: "j < 64" by simp
      show "(take 60 ?B @ be32enc ?x) ! j = ?P ! j"
        using j True r unfolding Pn(1) [OF j] fips_pad_nth [OF Pn(2) [OF j] len] last
        by (auto simp: nth_append block_bytes_nth)
    qed (use P in simp)
    then show ?thesis
      using True be_words16_update [of ?B ?x] sha256d_block_bytes [OF r T] by simp
  next
    case False
    then have "i + 2 \<le> (length m + 72) div 64"
      using r by (simp add: less_eq_div_iff_mult_less_eq)
    then have more: "64 * i + 64 < length (fips_pad m) - 4" using tot by simp
    have "?B = ?P"
    proof (rule nth_equalityI)
      fix j assume "j < length ?B"
      then have j: "j < 64" by simp
      show "?B ! j = ?P ! j"
        using j more unfolding Pn(1) [OF j] fips_pad_nth [OF Pn(2) [OF j] len]
        by (auto simp: block_bytes_nth)
    qed (use P in simp)
    then show ?thesis using False sha256d_block_bytes [OF r T] by simp
  qed
qed

lemma fips_compress_words:
  assumes "64 \<le> length bs"
  shows "fips_compress H (\<lambda>i. be_words16 (take 64 bs) ! i) =
    fips_compress H (\<lambda>i. be32dec (take 4 (drop (4 * i) bs)))"
  by (rule fips_compress_cong) (simp add: be_words16_nth drop_take min_def)

lemma sha256d_loop_fips:
  assumes len: "8 * length m < 4294967296" and S: "length S = 16" and T: "length T = 64"
    and n: "i + n = (length m + 72) div 64"
  shows "sha256d_loop m (int (length m)) (int (length m) - int (64 * i)) S T =
    fips_blocks n (drop (64 * i) (fips_pad m)) (take 8 S) @ drop 8 S"
  using S T n
proof (induction n arbitrary: i S T)
  case 0
  then have "int (length m) - int (64 * i) \<le> -9" by linarith
  then show ?case by (subst sha256d_loop.simps) simp
next
  case (Suc n)
  let ?r = "int (length m) - int (64 * i)" and ?D = "drop (64 * i) (fips_pad m)"
  let ?B = "sha256d_block m (int (length m)) ?r T"
  have i: "i < (length m + 72) div 64" using Suc.prems by simp
  then have r: "?r > -9" by linarith
  have D: "64 \<le> length ?D" using i by (simp add: length_fips_pad)
  have B: "?B = be_words16 (take 64 ?D)"
    using sha256d_block_fips [OF len i refl] Suc.prems(2) .
  let ?S = "sha256_transform S ?B False"
  have S: "?S = fips_compress (take 8 S) (\<lambda>i. be32dec (take 4 (drop (4 * i) ?D))) @ drop 8 S"
    using Suc.prems(1) fips_compress_words [OF D, of "take 8 S"]
    unfolding B by (simp only: sha256_transform_fips length_be_words16) simp
  have "length ?S = 16" using Suc.prems(1) by (simp add: length_sha256_transform)
  then have IH: "sha256d_loop m (int (length m)) (int (length m) - int (64 * Suc i)) ?S (bytes_of_words ?B) =
      fips_blocks n (drop (64 * Suc i) (fips_pad m)) (take 8 ?S) @ drop 8 ?S"
    using Suc.prems by (intro Suc.IH) simp_all
  have "take 8 ?S = fips_compress (take 8 S) (\<lambda>i. be32dec (take 4 (drop (4 * i) ?D)))"
    "drop 8 ?S = drop 8 S" using S Suc.prems(1) by simp_all
  moreover have "sha256d_loop m (int (length m)) ?r S T =
      sha256d_loop m (int (length m)) (?r - 64) ?S (bytes_of_words ?B)"
    using r by (subst sha256d_loop.simps) (simp add: Let_def)
  moreover have "?r - 64 = int (length m) - int (64 * Suc i)" by simp
  ultimately show ?case
    using IH by (simp only: fips_blocks.simps drop_drop mult_Suc_right)
qed

text \<open>The padding of a 32 byte digest: the constant second half of the block.\<close>

lemma take4_concat_be32enc:
  "i < length ws \<Longrightarrow> take 4 (drop (4 * i) (concat (map be32enc ws))) = be32enc (ws ! i)"
  by (induction ws arbitrary: i) (auto simp: nth_Cons split: nat.splits)

lemma drop_concat_be32enc:
  "drop (4 * n) (concat (map be32enc ws)) = concat (map be32enc (drop n ws))"
  by (induction ws arbitrary: n) (auto simp: drop_Cons split: nat.splits)

lemma hash1_tail: "drop 8 sha256d_hash1 = [0x80000000, 0, 0, 0, 0, 0, 0, 0x100]"
  by (simp add: sha256d_hash1_def)

lemma fips_pad_32:
  assumes "length H = 8"
  shows "fips_pad (concat (map be32enc H)) = concat (map be32enc (H @ drop 8 sha256d_hash1))"
proof -
  have "be32enc 0x80000000 = [0x80, 0, 0, 0]" "be32enc 256 = [0, 0, 1, 0]"
    by (simp_all add: be32enc_def)
  moreover have "replicate 23 (0 :: u8) = [0,0,0,0,0,0,0,0,0,0,0,0,0,0,0,0,0,0,0,0,0,0,0]"
    by (simp add: numeral_eq_Suc)
  ultimately show ?thesis
    using assms by (simp add: fips_pad_def hash1_tail be32enc_0)
qed

lemma fips_sha256_32:
  assumes "length H = 8"
  shows "fips_sha256 (concat (map be32enc H)) = concat (map be32enc
    (fips_compress sha256_h (\<lambda>i. (H @ drop 8 sha256d_hash1) ! i)))"
proof -
  let ?ws = "H @ drop 8 sha256d_hash1"
  have "length (concat (map be32enc ?ws)) div 64 = Suc 0" using assms by simp
  then have "fips_sha256 (concat (map be32enc H)) = concat (map be32enc
    (fips_compress sha256_h (\<lambda>i. be32dec (take 4 (drop (4 * i) (concat (map be32enc ?ws)))))))"
    unfolding fips_sha256_def fips_pad_32 [OF assms] by (simp only: fips_blocks.simps)
  also have "fips_compress sha256_h (\<lambda>i. be32dec (take 4 (drop (4 * i) (concat (map be32enc ?ws)))))
      = fips_compress sha256_h (\<lambda>i. ?ws ! i)"
    using assms by (intro fips_compress_cong) (subst take4_concat_be32enc, simp_all)
  finally show ?thesis .
qed

section \<open>Both functions compute double SHA-256\<close>

lemma sha256d_block_take:
  "len \<le> length data \<Longrightarrow> r \<le> int len \<Longrightarrow> sha256d_block data (int len) r T = sha256d_block (take len data) (int len) r T"
  by (simp add: sha256d_block_def Let_def drop_take min_def nat_diff_distrib' nat_le_iff)

lemma sha256d_loop_take:
  "len \<le> length data \<Longrightarrow> r \<le> int len \<Longrightarrow>
   sha256d_loop data (int len) r S T = sha256d_loop (take len data) (int len) r S T"
proof (induction data "int len" r S T rule: sha256d_loop.induct)
  case (1 data r S T)
  then show ?case
    by (subst (1 2) sha256d_loop.simps) (simp add: Let_def sha256d_block_take [OF "1.prems"])
qed

lemma sha256_second_pass:
  assumes "length S = 16" "take 8 S = H"
  shows "concat (map be32enc (take 8 (sha256_transform (sha256_init (replicate 16 0))
      (memcpy_at S 8 (drop 8 sha256d_hash1)) False))) = fips_sha256 (concat (map be32enc H))"
proof -
  have "memcpy_at S 8 (drop 8 sha256d_hash1) = H @ drop 8 sha256d_hash1"
    using assms by (simp add: memcpy_at_def)
  moreover have "take 8 (sha256_init (replicate 16 0)) = sha256_h"
    by (simp add: sha256_init_def memcpy_at_def)
  moreover have "length H = 8" using assms by auto
  ultimately show ?thesis
    by (simp add: sha256_transform_fips fips_sha256_32)
qed

lemma sha256d_fips_gen:
  assumes "len \<le> length data" and "8 * len < 4294967296"
  shows "sha256d data len = fips_sha256 (fips_sha256 (take len data))"
proof -
  let ?m = "take len data" and ?S = "sha256_init (replicate 16 0)"
  have len: "length ?m = len" using assms by simp
  have S: "take 8 ?S = sha256_h" "length ?S = 16"
    by (simp_all add: sha256_init_def memcpy_at_def)
  let ?L = "sha256d_loop data (int len) (int len) ?S (replicate 64 0)"
  have "?L = fips_blocks ((len + 72) div 64) (fips_pad ?m) sha256_h @ drop 8 ?S"
    using sha256d_loop_fips [of ?m ?S "replicate 64 0" 0 "(len + 72) div 64"] assms len S
    by (simp add: sha256d_loop_take [of len data])
  then have "length ?L = 16"
    "take 8 ?L = fips_blocks (length (fips_pad ?m) div 64) (fips_pad ?m) sha256_h"
    using S assms(1) by (simp_all add: length_fips_pad min_absorb2)
  from sha256_second_pass [OF this] show ?thesis
    by (simp add: sha256d_def fips_sha256_def Let_def)
qed

text \<open>
  The header passed to \<^verbatim>\<open>sha256d_80_swap\<close> carries its padding in the words 20 to 31, as
  the work assembly writes them.
\<close>

definition header_padding :: "u32 list" where
  "header_padding = [0x80000000, 0, 0, 0, 0, 0, 0, 0, 0, 0, 0, 0x280]"

lemma header_blocks:
  assumes "length hdr = 20"
  shows "fips_sha256 (concat (map be32enc hdr)) = concat (map be32enc
    (fips_compress (fips_compress sha256_h (\<lambda>i. hdr ! i)) (\<lambda>i. (drop 16 hdr @ header_padding) ! i)))"
proof -
  have "be32enc 0x80000000 = [0x80, 0, 0, 0]" "be32enc 0x280 = [0, 0, 2, 0x80]"
    by (simp_all add: be32enc_def)
  moreover have "replicate 39 (0 :: u8) = concat (map be32enc [0,0,0,0,0,0,0,0,0]) @ [0,0,0]"
    by (simp add: numeral_eq_Suc be32enc_0)
  ultimately have pad: "fips_pad (concat (map be32enc hdr)) = concat (map be32enc (hdr @ header_padding))"
    using assms by (simp add: fips_pad_def header_padding_def be32enc_0)
  have two: "length (concat (map be32enc (hdr @ header_padding))) div 64 = Suc (Suc 0)"
    using assms by (simp add: header_padding_def)
  have "fips_compress H (\<lambda>i. be32dec (take 4 (drop (4 * i) (concat (map be32enc (hdr @ header_padding))))))
      = fips_compress H (\<lambda>i. hdr ! i)" for H
    using assms by (intro fips_compress_cong)
      (subst take4_concat_be32enc, simp_all add: nth_append)
  moreover have "drop 64 (concat (map be32enc (hdr @ header_padding)))
      = concat (map be32enc (drop 16 hdr @ header_padding))"
    using drop_concat_be32enc [of 16 "hdr @ header_padding"] assms by simp
  moreover have "fips_compress H (\<lambda>i. be32dec (take 4 (drop (4 * i) (concat (map be32enc (drop 16 hdr @ header_padding))))))
      = fips_compress H (\<lambda>i. (drop 16 hdr @ header_padding) ! i)" for H
    using assms by (intro fips_compress_cong)
      (subst take4_concat_be32enc, simp_all add: header_padding_def)
  ultimately show ?thesis
    unfolding fips_sha256_def pad two by (simp only: fips_blocks.simps)
qed

lemma sha256d_80_swap_words:
  assumes "length hash = 8" "length data \<ge> 32"
  shows "sha256d_80_swap hash data = map swab32 (fips_compress sha256_h (\<lambda>i.
    (fips_compress (fips_compress sha256_h (\<lambda>i. take 16 data ! i)) (\<lambda>i. take 16 (drop 16 data) ! i)
      @ drop 8 sha256d_hash1) ! i))"
  using assms
  by (simp add: sha256d_80_swap_def Let_def sha256_init_def memcpy_at_def sha256_transform_fips)

lemma sha256d_80_swap_fips_gen:
  assumes "length hash = 8" "length data \<ge> 32" and "take 12 (drop 20 data) = header_padding"
  shows "bytes_of_words (sha256d_80_swap hash data) =
    fips_sha256 (fips_sha256 (concat (map be32enc (take 20 data))))"
proof -
  let ?hdr = "take 20 data"
  have hdr: "length ?hdr = 20" using assms by simp
  have "take (4 + 12) (drop 16 data) = take 4 (drop 16 data) @ take 12 (drop 20 data)"
    by (simp only: take_add drop_drop) simp
  then have snd: "take 16 (drop 16 data) = drop 16 ?hdr @ header_padding"
    using assms(3) by (simp add: drop_take)
  have fst: "fips_compress H (\<lambda>i. take 16 data ! i) = fips_compress H (\<lambda>i. ?hdr ! i)" for H
    by (rule fips_compress_cong) simp
  have swap: "bytes_of_words (map swab32 ws) = concat (map be32enc ws)" for ws
    by (simp add: bytes_of_words_def le32enc_swab32 comp_def)
  show ?thesis
    unfolding sha256d_80_swap_words [OF assms(1,2)] swap fst snd header_blocks [OF hdr]
    by (rule fips_sha256_32 [symmetric]) simp
qed

section \<open>Properties\<close>

text \<open>C7: \<^verbatim>\<open>sha256d\<close> returns the double SHA-256 of FIPS 180-4 of the first \<open>len\<close> bytes of its
  input, for every length whose bit count fits the 32-bit length word that the code writes (the
  high word of the standard's 64-bit length is always zero in the code).\<close>

theorem sha256d_double_sha256:
  assumes "len \<le> length data" and "8 * len < 4294967296"
  shows "sha256d data len = fips_sha256 (fips_sha256 (take len data))"
  using assms by (rule sha256d_fips_gen)

theorem sha256d_double_sha256_witness:
  "(3 :: nat) \<le> length [0x61, 0x62, 0x63, 0x64 :: u8] \<and>
   sha256d [0x61, 0x62, 0x63, 0x64] 3 = fips_sha256 (fips_sha256 [0x61, 0x62, 0x63])"
  using sha256d_double_sha256 [of 3 "[0x61, 0x62, 0x63, 0x64]"] by (simp add: numeral_3_eq_3)

text \<open>For a work header in the layout the miner builds (twenty big-endian words followed by the
  padding words), the bytes of the hash array that \<^verbatim>\<open>sha256d_80_swap\<close> leaves on a little-endian
  host are the double SHA-256 of the eighty header bytes.\<close>

theorem sha256d_80_swap_double_sha256:
  assumes "length hash = 8" "length data \<ge> 32" and "take 12 (drop 20 data) = header_padding"
  shows "bytes_of_words (sha256d_80_swap hash data) =
    fips_sha256 (fips_sha256 (concat (map be32enc (take 20 data))))"
  using assms by (rule sha256d_80_swap_fips_gen)

theorem sha256d_80_swap_double_sha256_witness:
  "bytes_of_words (sha256d_80_swap (replicate 8 0) (replicate 20 7 @ header_padding)) =
    fips_sha256 (fips_sha256 (concat (map be32enc (replicate 20 7))))"
  using sha256d_80_swap_double_sha256 [of "replicate 8 0" "replicate 20 7 @ header_padding"]
  by (simp add: header_padding_def)

end
