(* ===== verification/Hexcodec.thy ===== *)
theory Hexcodec
  imports Cstring Endian Sha256d
begin

text \<open>
  The encodings of \<^verbatim>\<open>util.c\<close>: hexadecimal strings, variable-length integers, base 58 addresses
  and the output scripts built from them. A function that fills a buffer returns the bytes it
  writes from the start of the buffer, also when it fails half way. Strings carry no zero
  characters. Memory allocation succeeds.
\<close>

section \<open>Hexadecimal strings\<close>

definition bin2hex :: "u8 list \<Rightarrow> nat \<Rightarrow> string" where
  "bin2hex p len = concat (map (\<lambda>i. hex_of_u8 (p ! i)) [0..<len])"

definition abin2hex :: "u8 list \<Rightarrow> nat \<Rightarrow> string" where
  "abin2hex p len = bin2hex p len"

text \<open>The byte is stored before the end pointer is examined.\<close>

fun hex2bin :: "string \<Rightarrow> nat \<Rightarrow> bool \<times> u8 list" where
  "hex2bin hexstr 0 = (True, [])"
| "hex2bin [] (Suc len) = (False, [])"
| "hex2bin [c] (Suc len) = (False, [])"
| "hex2bin (c # d # hexstr) (Suc len) =
    (case strtol 16 [c, d] of (v, ep) \<Rightarrow>
      if ep \<noteq> [] then (False, [word_of_int v])
      else case hex2bin hexstr len of (ok, bs) \<Rightarrow> (ok, word_of_int v # bs))"

section \<open>Variable-length integers\<close>

fun low_bytes :: "nat \<Rightarrow> u64 \<Rightarrow> u8 list" where
  "low_bytes 0 n = []"
| "low_bytes (Suc k) n = ucast (n AND 0xff) # low_bytes k (drop_bit 8 n)"

definition varint_encode :: "u64 \<Rightarrow> u8 list" where
  "varint_encode n =
    (if n < 0xfd then [ucast n]
     else if n \<le> 0xffff then [0xfd, ucast (n AND 0xff), ucast (drop_bit 8 n)]
     else if n \<le> 0xffffffff then 0xfe # low_bytes 4 n
     else 0xff # low_bytes 8 n)"

section \<open>Base 58\<close>

definition b58digits :: string where
  "b58digits = ''123456789ABCDEFGHJKLMNPQRSTUVWXYZabcdefghijkmnopqrstuvwxyz''"

text \<open>The search for the digit; \<open>None\<close> when the end of the table is reached.\<close>

fun b58_index :: "string \<Rightarrow> char \<Rightarrow> nat \<Rightarrow> nat option" where
  "b58_index [] x c = None"
| "b58_index (d # ds) x c = (if d = x then Some c else b58_index ds x (Suc c))"

text \<open>The inner loop, from the last word to the first: multiply by 58 and add.\<close>

fun b58_mul :: "u32 list \<Rightarrow> u32 \<Rightarrow> u32 list \<times> u32" where
  "b58_mul [] c = ([], c)"
| "b58_mul (w # ws) c =
    (case b58_mul ws c of (ws, c) \<Rightarrow>
      let t = (ucast w * 58 + ucast c :: u64)
      in (ucast (t AND 0xffffffff) # ws, ucast (drop_bit 32 t)))"

fun b58_digits :: "u32 \<Rightarrow> string \<Rightarrow> u32 list \<Rightarrow> u32 list option" where
  "b58_digits remmask [] outi = Some outi"
| "b58_digits remmask (x # b58) outi =
    (case b58_index b58digits x 0 of
       None \<Rightarrow> None
     | Some d \<Rightarrow>
         (case b58_mul outi (of_nat d) of (outi, c) \<Rightarrow>
           if c \<noteq> 0 \<or> outi ! 0 AND remmask \<noteq> 0 then None else b58_digits remmask b58 outi))"

definition b58dec :: "nat \<Rightarrow> string \<Rightarrow> u8 list option" where
  "b58dec binsz b58 =
    (let outisz = (binsz + 3) div 4;
         rem = binsz mod 4;
         remmask = push_bit (8 * rem) 0xffffffff
     in case b58_digits remmask b58 (replicate outisz 0) of
          None \<Rightarrow> None
        | Some outi \<Rightarrow>
            Some ((if rem = 3 then [ucast (drop_bit 16 (outi ! 0) AND 0xff)] else []) @
                  (if rem = 3 \<or> rem = 2 then [ucast (drop_bit 8 (outi ! 0) AND 0xff)] else []) @
                  (if rem \<noteq> 0 then [ucast (outi ! 0 AND 0xff)] else []) @
                  concat (map be32enc (drop (if rem \<noteq> 0 then 1 else 0) outi))))"

text \<open>The leading zeros, after the checksum: reading past the buffer is \<open>None\<close>.\<close>

fun b58_zeros :: "u8 list \<Rightarrow> string \<Rightarrow> bool option" where
  "b58_zeros [] b58 = None"
| "b58_zeros (b # bin) b58 =
    (case b58 of
       [] \<Rightarrow> Some (b \<noteq> 0)
     | x # b58 \<Rightarrow> if b = 0 \<and> x = CHR ''1'' then b58_zeros bin b58 else Some (b \<noteq> 0 \<and> x \<noteq> CHR ''1''))"

definition b58check :: "u8 list \<Rightarrow> nat \<Rightarrow> string \<Rightarrow> int option" where
  "b58check bin binsz b58 =
    (let buf = sha256d bin (binsz - 4) in
     if take 4 (drop (binsz - 4) bin) \<noteq> take 4 buf then Some (-1)
     else case b58_zeros bin b58 of
       None \<Rightarrow> None
     | Some ok \<Rightarrow> Some (if ok then uint (bin ! 0) else -3))"

text \<open>The size of the script, and the bytes written when they fit.\<close>

definition address_to_script :: "nat \<Rightarrow> string \<Rightarrow> (nat \<times> u8 list) option" where
  "address_to_script outsz addr =
    (case b58dec 25 addr of
       None \<Rightarrow> Some (0, [])
     | Some addrbin \<Rightarrow>
         (case b58check addrbin 25 addr of
            None \<Rightarrow> None
          | Some addrver \<Rightarrow>
              Some (if addrver < 0 then (0, [])
                else if addrver = 5 \<or> addrver = 196 then
                  (23, if outsz < 23 then [] else [0xa9, 0x14] @ take 20 (drop 1 addrbin) @ [0x87])
                else
                  (25, if outsz < 25 then []
                       else [0x76, 0xa9, 0x14] @ take 20 (drop 1 addrbin) @ [0x88, 0xac]))))"

section \<open>Time\<close>

record timeval =
  tv_sec :: int
  tv_usec :: int

text \<open>The difference, the adjusted subtrahend and whether the difference is negative.\<close>

definition timeval_subtract :: "timeval \<Rightarrow> timeval \<Rightarrow> timeval \<times> timeval \<times> bool" where
  "timeval_subtract x y =
    (let y = (if tv_usec x < tv_usec y then
                let nsec = (tv_usec y - tv_usec x) div 1000000 + 1
                in y\<lparr>tv_usec := tv_usec y - 1000000 * nsec, tv_sec := tv_sec y + nsec\<rparr>
              else y);
         y = (if tv_usec x - tv_usec y > 1000000 then
                let nsec = (tv_usec x - tv_usec y) div 1000000
                in y\<lparr>tv_usec := tv_usec y + 1000000 * nsec, tv_sec := tv_sec y - nsec\<rparr>
              else y)
     in (\<lparr>tv_sec = tv_sec x - tv_sec y, tv_usec = tv_usec x - tv_usec y\<rparr>, y, tv_sec x < tv_sec y))"

section \<open>Large integers in JSON texts\<close>

text \<open>
  \<^verbatim>\<open>hack_json_numbers\<close>: the output so far, the offset of the current number and the two flags.
  \<open>intoff\<close> keeps its value when a number ends. The library is built with \<^verbatim>\<open>long long\<close> integers.
\<close>

definition int_overflows :: "string \<Rightarrow> bool" where
  "int_overflows s = (case strto_int 10 s of (v, end) \<Rightarrow> end = [] \<and> (v < - (2 ^ 63) \<or> v > 2 ^ 63 - 1))"

definition dquote :: char where "dquote = CHR 0x22"

definition backslash :: char where "backslash = CHR 0x5C"

definition number_goes_on :: "char \<Rightarrow> bool" where
  "number_goes_on c \<longleftrightarrow> isdigit c \<or> c \<in> set ''.eE+-''"

definition close_number :: "string \<Rightarrow> nat \<Rightarrow> string" where
  "close_number out intoff =
    (if length out - intoff > 4 \<and> int_overflows (drop intoff out) then out @ ''.0'' else out)"

fun hack_loop :: "string \<Rightarrow> string \<Rightarrow> nat \<Rightarrow> bool \<Rightarrow> bool \<Rightarrow> string" where
  "hack_loop [] out intoff in_str in_int = out"
| "hack_loop (c # s) out intoff in_str in_int =
    (if c = dquote then hack_loop s (out @ [c]) intoff (\<not> in_str) in_int
     else if c = backslash then
       (case s of [] \<Rightarrow> out @ [c] | d # s \<Rightarrow> hack_loop s (out @ [c, d]) intoff in_str in_int)
     else if \<not> in_str \<and> \<not> in_int \<and> isdigit c then hack_loop s (out @ [c]) (length out) in_str True
     else if in_int \<and> \<not> number_goes_on c then
       hack_loop s (close_number out intoff @ [c]) intoff in_str False
     else hack_loop s (out @ [c]) intoff in_str in_int)"

definition hack_json_numbers :: "string \<Rightarrow> string" where
  "hack_json_numbers s = hack_loop s [] 0 False False"

section \<open>Hexadecimal round trip\<close>

lemma bin2hex_Suc: "len < length p \<Longrightarrow> bin2hex p (Suc len) = bin2hex p len @ hex_of_u8 (p ! len)"
  by (simp add: bin2hex_def)

lemma bin2hex_Cons: "bin2hex (b # p) (Suc len) = hex_of_u8 b @ bin2hex p len"
proof -
  have "[0..<Suc len] = 0 # map Suc [0..<len]" by (simp add: upt_conv_Cons map_Suc_upt del: upt_Suc)
  then show ?thesis by (simp only: bin2hex_def) (simp add: comp_def)
qed

lemma length_bin2hex [layout]: "length (bin2hex p len) = 2 * len"
  by (induction len) (simp_all add: bin2hex_def hex_of_u8_def)

lemma hex2bin_hex_of_u8:
  "hex2bin (hex_of_u8 b @ s) (Suc len) = (case hex2bin s len of (ok, bs) \<Rightarrow> (ok, b # bs))"
  using strtol_hex_of_u8 [of b] by (simp add: hex_of_u8_def)

lemma hex2bin_bin2hex_gen:
  "len \<le> length p \<Longrightarrow> hex2bin (bin2hex p len @ rest) len = (True, take len p)"
proof (induction p arbitrary: len)
  case (Cons b p)
  then show ?case
    by (cases len) (simp_all add: bin2hex_Cons hex2bin_hex_of_u8 bin2hex_def [of _ 0])
qed (simp add: bin2hex_def)

text \<open>What \<^verbatim>\<open>hex2bin\<close> accepts: it stays in the buffer, and success means a full buffer.\<close>

lemma hex2bin_length:
  "hex2bin s len = (ok, bs) \<Longrightarrow> length bs \<le> len \<and> 2 * length bs \<le> length s \<and> (ok \<longrightarrow> length bs = len)"
  by (induction s len arbitrary: ok bs rule: hex2bin.induct) (force split: prod.splits if_splits)+

section \<open>Variable-length integers\<close>

text \<open>The reading of a variable-length integer in the Bitcoin wire format.\<close>

definition varint_decode :: "u8 list \<Rightarrow> (nat \<times> nat) option" where
  "varint_decode p = (case p of [] \<Rightarrow> None | b # bs \<Rightarrow>
     if unat b < 0xfd then Some (unat b, 1)
     else let k = (if b = 0xfd then 2 else if b = 0xfe then 4 else 8) in
       if length bs < k then None else Some (le_val (take k bs), Suc k))"

lemma length_low_bytes [layout, simp]: "length (low_bytes k n) = k"
  by (induction k arbitrary: n) simp_all

lemma le_val_low_bytes: "le_val (low_bytes k n) = unat n mod 256 ^ k"
proof (induction k arbitrary: n)
  case (Suc k)
  have "unat (ucast (n AND 0xff) :: u8) = unat n mod 256" by (rule unat_low_byte_u64)
  moreover have "unat (drop_bit 8 n) = unat n div 256" by (simp add: unat_drop_bit_u64)
  moreover have "unat n mod 256 ^ Suc k = unat n mod 256 + 256 * (unat n div 256 mod 256 ^ k)"
    by (simp add: mod_mult2_eq)
  ultimately show ?case using Suc by simp
qed simp

lemma varint_decode_encode:
  "varint_decode (varint_encode n @ rest) = Some (unat n, length (varint_encode n))"
proof -
  consider "n < 0xfd" | "0xfd \<le> n" "n \<le> 0xffff" | "0xffff < n" "n \<le> 0xffffffff" | "0xffffffff < n"
    by (meson not_less)
  then show ?thesis
  proof cases
    case 1
    then have "unat n < 0xfd" by (simp add: word_less_nat_alt)
    then have "unat (ucast n :: u8) = unat n" by (simp add: unsigned_ucast_eq take_bit_nat_eq_self)
    with 1 show ?thesis by (simp add: varint_encode_def varint_decode_def word_less_nat_alt)
  next
    case 2
    then have n: "0xfd \<le> unat n" "unat n \<le> 0xffff" by (simp_all add: word_le_nat_alt)
    have "unat (ucast (n AND 0xff) :: u8) = unat n mod 256" by (rule unat_low_byte_u64)
    moreover have "unat (ucast (drop_bit 8 n) :: u8) = unat n div 256"
      using n by (simp add: unsigned_ucast_eq unat_drop_bit_u64 take_bit_nat_eq_self)
    ultimately show ?thesis
      using 2 n by (simp add: varint_encode_def varint_decode_def not_less)
  next
    case 3
    then have "\<not> n < 0xfd" "\<not> n \<le> 0xffff" "unat n < 256 ^ 4"
      by (auto simp: word_le_nat_alt word_less_nat_alt)
    with 3 show ?thesis by (simp add: varint_encode_def varint_decode_def le_val_low_bytes)
  next
    case 4
    then have "\<not> n < 0xfd" "\<not> n \<le> 0xffff" "\<not> n \<le> 0xffffffff" "unat n < 256 ^ 8"
      using unat_u64_less [of n] by (auto simp: word_le_nat_alt word_less_nat_alt)
    then show ?thesis by (simp add: varint_encode_def varint_decode_def le_val_low_bytes)
  qed
qed

section \<open>Base 58 decodes the number\<close>

primrec be32_val :: "u32 list \<Rightarrow> nat" where
  "be32_val [] = 0"
| "be32_val (w # ws) = unat w * 4294967296 ^ length ws + be32_val ws"

lemma be32_val_less: "be32_val ws < 4294967296 ^ length ws"
proof (induction ws)
  case (Cons w ws)
  have "unat w * 4294967296 ^ length ws + be32_val ws < (unat w + 1) * 4294967296 ^ length ws"
    using Cons by simp
  also have "\<dots> \<le> 4294967296 * 4294967296 ^ length ws"
    by (intro mult_le_mono1) (use unat_u32_less [of w] in linarith)
  finally show ?case by simp
qed simp

lemma be_val_words: "be_val (concat (map be32enc ws)) = be32_val ws"
proof (induction ws)
  case (Cons w ws)
  have "length (concat (map be32enc ws)) = 4 * length ws" by (induction ws) simp_all
  then show ?case using Cons by (simp add: be_val_append be_val_be32enc power_mult)
qed simp

lemma b58_step:
  fixes w c :: u32
  defines "t \<equiv> ucast w * 58 + ucast c :: u64"
  shows "unat (ucast (t AND 0xffffffff) :: u32) + 4294967296 * unat (ucast (drop_bit 32 t) :: u32) = 58 * unat w + unat c"
proof -
  have wc: "unat w < 4294967296" "unat c < 4294967296" by (rule unat_u32_less)+
  have t: "unat t = 58 * unat w + unat c"
    unfolding t_def using wc by (simp add: unat_word_ariths unat_ucast_u32_u64)
  have low: "t AND 0xffffffff = take_bit 32 t" by (simp add: take_bit_eq_mask mask_eq_exp_minus_1)
  have "unat (ucast (t AND 0xffffffff) :: u32) = unat t mod 4294967296"
    unfolding low by (simp add: unsigned_ucast_eq unsigned_take_bit_eq take_bit_eq_mod [where 'a = nat])
  moreover have "unat t div 4294967296 < 4294967296" using t wc by (simp add: less_mult_imp_div_less)
  then have "unat (ucast (drop_bit 32 t) :: u32) = unat t div 4294967296"
    by (simp add: unsigned_ucast_eq unat_drop_bit_u64 take_bit_nat_eq_self)
  ultimately show ?thesis using t by simp
qed

lemma b58_mul_val:
  "b58_mul ws c = (ws', c') \<Longrightarrow>
    length ws' = length ws \<and> be32_val ws' + unat c' * 4294967296 ^ length ws = 58 * be32_val ws + unat c"
proof (induction ws arbitrary: ws' c')
  case (Cons w ws)
  obtain vs d where IH: "b58_mul ws c = (vs, d)" by fastforce
  define x where "x = unat (ucast ((ucast w * 58 + ucast d :: u64) AND 0xffffffff) :: u32)"
  have eq: "x + 4294967296 * unat c' = 58 * unat w + unat d" "be32_val ws' = x * 4294967296 ^ length vs + be32_val vs"
    "length ws' = Suc (length vs)"
    using Cons.prems b58_step [of w d] by (auto simp: IH Let_def x_def)
  have "be32_val ws' + unat c' * 4294967296 ^ Suc (length ws) =
      (x + 4294967296 * unat c') * 4294967296 ^ length ws + be32_val vs"
    using Cons.IH [OF IH] by (simp add: eq(2) algebra_simps)
  also have "\<dots> = 58 * unat w * 4294967296 ^ length ws + (be32_val vs + unat d * 4294967296 ^ length ws)"
    unfolding eq(1) by (simp add: algebra_simps)
  finally show ?case using Cons.IH [OF IH] eq(3) by simp
qed simp

lemma b58_index_less: "b58_index ds x c = Some d \<Longrightarrow> d < c + length ds"
  by (induction ds arbitrary: c) (force split: if_splits)+

definition b58_digit :: "char \<Rightarrow> nat option" where
  "b58_digit x = b58_index b58digits x 0"

definition b58_value :: "nat \<Rightarrow> string \<Rightarrow> nat" where
  "b58_value a s = foldl (\<lambda>a x. 58 * a + (case b58_digit x of None \<Rightarrow> 0 | Some d \<Rightarrow> d)) a s"

lemma b58_value_ge: "a \<le> b58_value a s"
proof (induction s arbitrary: a)
  case (Cons x s)
  have "a \<le> 58 * a + (case b58_digit x of None \<Rightarrow> 0 | Some d \<Rightarrow> d)" by simp
  also have "\<dots> \<le> b58_value \<dots> s" by (rule Cons)
  finally show ?case by (simp add: b58_value_def)
qed (simp add: b58_value_def)

lemma remmask_word:
  assumes "rem < 4"
  shows "(w :: u32) AND push_bit (8 * rem) 0xffffffff = 0 \<longleftrightarrow> unat w < 256 ^ rem"
proof -
  have "(0xffffffff :: u32) = -1" by simp
  then have "w AND push_bit (8 * rem) 0xffffffff = push_bit (8 * rem) (drop_bit (8 * rem) w)"
    by (simp only:) (rule bit_word_eqI, auto simp: bit_simps)
  moreover have "unat w < 256 ^ rem" if "push_bit (8 * rem) (drop_bit (8 * rem) w) = 0"
  proof -
    have "unat w = unat (take_bit (8 * rem) w)" using bits_ident [of "8 * rem" w] that by simp
    also have "\<dots> < 256 ^ rem" by (simp add: unsigned_take_bit_eq take_bit_eq_mod [where 'a = nat] power_mult)
    finally show ?thesis .
  qed
  moreover have "drop_bit (8 * rem) w = 0" if "unat w < 256 ^ rem"
    using that by (simp add: unat_drop_bit_u32 div_eq_0_iff power_mult flip: unat_eq_0)
  ultimately show ?thesis by auto
qed

text \<open>The first word alone tells whether the number fits.\<close>

lemma leading_word_fits:
  assumes "ws \<noteq> []" "rem < 4"
  shows "unat (ws ! 0) < 256 ^ rem \<longleftrightarrow> be32_val ws < 256 ^ rem * 4294967296 ^ (length ws - 1)"
proof (cases ws)
  case (Cons w vs)
  let ?B = "4294967296 ^ length vs :: nat"
  have "unat w * ?B + be32_val vs < 256 ^ rem * ?B \<longleftrightarrow> unat w < 256 ^ rem"
  proof
    assume "unat w < 256 ^ rem"
    then have "(unat w + 1) * ?B \<le> 256 ^ rem * ?B" by (intro mult_le_mono1) simp
    then show "unat w * ?B + be32_val vs < 256 ^ rem * ?B" using be32_val_less [of vs] by simp
  next
    assume "unat w * ?B + be32_val vs < 256 ^ rem * ?B"
    then have "unat w * ?B < 256 ^ rem * ?B" by (rule le_less_trans [OF le_add1])
    then show "unat w < 256 ^ rem" by simp
  qed
  with Cons show ?thesis by simp
qed (use assms in simp)

lemma b58_digits_val:
  assumes "rem < 4" "outi \<noteq> []" "be32_val outi < M" "M = 256 ^ rem * 4294967296 ^ (length outi - 1)"
  shows "case b58_digits (push_bit (8 * rem) 0xffffffff) s outi of
      Some ws \<Rightarrow> length ws = length outi \<and> (\<forall>x \<in> set s. b58_digit x \<noteq> None) \<and>
        be32_val ws = b58_value (be32_val outi) s \<and> be32_val ws < M
    | None \<Rightarrow> (\<exists>x \<in> set s. b58_digit x = None) \<or> M \<le> b58_value (be32_val outi) s"
  using assms
proof (induction s arbitrary: outi)
  case (Cons x s)
  show ?case
  proof (cases "b58_digit x")
    case None
    then show ?thesis by (simp add: b58_digit_def)
  next
    case (Some d)
    obtain ws c where m: "b58_mul outi (of_nat d) = (ws, c)" by fastforce
    have "d < 58" using Some b58_index_less [of b58digits x 0 d] by (simp add: b58_digit_def b58digits_def)
    then have "unat (of_nat d :: u32) = d" by (simp add: unat_of_nat)
    with b58_mul_val [OF m] have v: "length ws = length outi"
      "be32_val ws + unat c * 4294967296 ^ length outi = 58 * be32_val outi + d" by simp_all
    have step: "b58_value (be32_val outi) (x # s) = b58_value (58 * be32_val outi + d) s"
      by (simp add: b58_value_def Some)
    have ne: "ws \<noteq> []" using v(1) Cons.prems(2) by auto
    have fits: "ws ! 0 AND push_bit (8 * rem) 0xffffffff = 0 \<longleftrightarrow> be32_val ws < M"
      using leading_word_fits [OF ne Cons.prems(1)] remmask_word [OF Cons.prems(1)] v(1) Cons.prems(4) by simp
    show ?thesis
    proof (cases "c = 0 \<and> be32_val ws < M")
      case True
      then have "be32_val ws = 58 * be32_val outi + d" using v(2) by simp
      with True Cons.IH [OF Cons.prems(1) ne] Cons.prems(4) v(1) fits Some m step show ?thesis
        by (auto simp: b58_digit_def split: option.splits)
    next
      case False
      have "M \<le> 58 * be32_val outi + d"
      proof (cases "c = 0")
        case True
        then show ?thesis using v(2) False by simp
      next
        case c: False
        have "256 ^ rem \<le> (256 ^ 4 :: nat)" using Cons.prems(1) by (intro power_increasing) simp_all
        then have "M \<le> 256 ^ 4 * 4294967296 ^ (length outi - 1)" unfolding Cons.prems(4) by (intro mult_le_mono1)
        also have "\<dots> = 4294967296 ^ length outi" using Cons.prems(2) by (cases outi) simp_all
        also have "1 \<le> unat c" using c by (simp add: Suc_le_eq unat_gt_0)
        then have "4294967296 ^ length outi \<le> unat c * 4294967296 ^ length outi" by simp
        finally show ?thesis using v(2) by simp
      qed
      also have "\<dots> \<le> b58_value (58 * be32_val outi + d) s" by (rule b58_value_ge)
      finally show ?thesis using False fits Some m step by (auto simp: b58_digit_def)
    qed
  qed
qed (simp add: b58_value_def)

text \<open>The bytes of the first word.\<close>

definition b58_head :: "nat \<Rightarrow> u32 \<Rightarrow> u8 list" where
  "b58_head rem w =
    (if rem = 3 then [ucast (drop_bit 16 w AND 0xff)] else []) @
    (if rem = 3 \<or> rem = 2 then [ucast (drop_bit 8 w AND 0xff)] else []) @
    (if rem \<noteq> 0 then [ucast (w AND 0xff)] else [])"

lemma b58_head_val:
  assumes "0 < rem" "rem < 4" "unat w < 256 ^ rem"
  shows "be_val (b58_head rem w) = unat w" "length (b58_head rem w) = rem"
proof -
  have r: "rem = 1 \<or> rem = 2 \<or> rem = 3" using assms by auto
  then show "length (b58_head rem w) = rem" by (auto simp: b58_head_def)
  have bytes: "unat (ucast (w AND 0xff) :: u8) = unat w mod 256"
    "unat (ucast (drop_bit 8 w AND 0xff) :: u8) = unat w div 256 mod 256"
    "unat (ucast (drop_bit 16 w AND 0xff) :: u8) = unat w div 65536 mod 256"
    by (simp_all add: unat_low_byte_u32 unat_drop_bit_u32)
  have "(unat w div 65536 mod 256 * 256 + unat w div 256 mod 256) * 256 + unat w mod 256 = unat w"
    if "unat w < 16777216"
  proof -
    have "unat w div 65536 = unat w div 256 div 256" by (simp add: div_mult2_eq)
    moreover have "unat w div 256 div 256 < 256" using that by (simp add: less_mult_imp_div_less)
    ultimately have "unat w div 65536 mod 256 = unat w div 256 div 256" by simp
    then show ?thesis by (simp only: div_mult_mod_eq)
  qed
  then show "be_val (b58_head rem w) = unat w"
    using r assms(3) bytes by (auto simp: b58_head_def be_val_def)
qed

lemma b58dec_val:
  assumes "binsz mod 4 \<noteq> 0"
  shows "case b58dec binsz s of
      Some bin \<Rightarrow> length bin = binsz \<and> (\<forall>x \<in> set s. b58_digit x \<noteq> None) \<and> be_val bin = b58_value 0 s
    | None \<Rightarrow> (\<exists>x \<in> set s. b58_digit x = None) \<or> 256 ^ binsz \<le> b58_value 0 s"
proof -
  define rem n where "rem = binsz mod 4" and "n = (binsz + 3) div 4"
  have rem: "0 < rem" "rem < 4" and n: "0 < n" "binsz = 4 * (n - 1) + rem"
    using assms unfolding rem_def n_def by (simp, simp, presburger+)
  have zero: "be32_val (replicate n 0) = 0" by (induction n) simp_all
  have M: "(256 :: nat) ^ binsz = 256 ^ rem * 4294967296 ^ (n - 1)" by (simp add: n(2) power_add power_mult)
  have dec: "b58dec binsz s = map_option (\<lambda>ws. b58_head rem (ws ! 0) @ concat (map be32enc (tl ws)))
      (b58_digits (push_bit (8 * rem) 0xffffffff) s (replicate n 0))"
    using rem(1) by (simp add: b58dec_def Let_def b58_head_def drop_Suc flip: rem_def n_def split: option.splits)
  note digits = b58_digits_val [OF rem(2), of "replicate n 0" "256 ^ binsz" s, unfolded zero]
  show ?thesis
  proof (cases "b58_digits (push_bit (8 * rem) 0xffffffff) s (replicate n 0)")
    case None
    then show ?thesis using digits n(1) M by (simp add: dec)
  next
    case (Some ws)
    then have ws: "length ws = n" "be32_val ws = b58_value 0 s" "be32_val ws < 256 ^ binsz"
      "\<forall>x \<in> set s. b58_digit x \<noteq> None"
      using digits n M by auto
    then obtain w vs where w: "ws = w # vs" using n by (cases ws) auto
    have "n - 1 = length vs" using ws(1) w by auto
    with M rem w have "unat w < 256 ^ rem" using leading_word_fits [of ws rem] ws(3) by simp
    note h = b58_head_val [OF rem this]
    have len: "length (concat (map be32enc vs)) = 4 * length vs" by (induction vs) simp_all
    have "be_val (b58_head rem w @ concat (map be32enc vs)) = b58_value 0 s"
      using ws(2) by (simp add: be_val_append be_val_words h(1) len power_mult w)
    moreover have "rem + 4 * length vs = binsz" using n(2) \<open>n - 1 = length vs\<close> by simp
    ultimately show ?thesis using Some ws(4) h(2) len w by (simp add: dec)
  qed
qed


section \<open>Time\<close>

definition usecs :: "timeval \<Rightarrow> int" where
  "usecs t = 1000000 * tv_sec t + tv_usec t"

lemma timeval_subtract_exact:
  assumes "timeval_subtract x y = (r, y', neg)"
  shows "usecs r = usecs x - usecs y" "usecs y' = usecs y"
  using assms by (auto simp: timeval_subtract_def Let_def usecs_def split: if_splits)

lemma timeval_subtract_range:
  assumes "timeval_subtract x y = (r, y', neg)"
    and "0 \<le> tv_usec x" "tv_usec x < 1000000" "0 \<le> tv_usec y" "tv_usec y < 1000000"
  shows "0 \<le> tv_usec r" "tv_usec r < 1000000" "neg \<longleftrightarrow> usecs x < usecs y"
  using assms by (auto simp: timeval_subtract_def Let_def usecs_def split: if_splits)

section \<open>The JSON hack stays in its buffer\<close>

lemma length_close_number: "length (close_number out intoff) \<le> length out + (if 4 < length out - intoff then 2 else 0)"
  "length out \<le> length (close_number out intoff)"
  by (auto simp: close_number_def)

lemma hack_loop_bound:
  assumes "length out + (if in_int then length out - intoff else 0) \<le> 2 * i"
    and "intoff \<le> length out"
  shows "length (hack_loop s out intoff in_str in_int) \<le> 2 * (i + length s)"
  using assms
proof (induction s out intoff in_str in_int arbitrary: i rule: hack_loop.induct)
  case (2 c s out intoff in_str in_int)
  consider (quote) "c = dquote" | (bs) "c \<noteq> dquote" "c = backslash"
    | (num) "c \<noteq> dquote" "c \<noteq> backslash" "\<not> in_str \<and> \<not> in_int \<and> isdigit c"
    | (stop) "c \<noteq> dquote" "c \<noteq> backslash" "\<not> (\<not> in_str \<and> \<not> in_int \<and> isdigit c)" "in_int \<and> \<not> number_goes_on c"
    | (other) "c \<noteq> dquote" "c \<noteq> backslash" "\<not> (\<not> in_str \<and> \<not> in_int \<and> isdigit c)" "\<not> (in_int \<and> \<not> number_goes_on c)"
    by blast
  then show ?case
  proof cases
    case quote
    then show ?thesis using "2.IH"(1) [of "Suc i"] "2.prems" by (simp split: if_splits)
  next
    case bs
    then show ?thesis using "2.IH"(2) [of _ _ "Suc (Suc i)"] "2.prems" by (cases s) (simp_all split: if_splits)
  next
    case num
    then show ?thesis using "2.IH"(3) [of "Suc i"] "2.prems" by simp
  next
    case stop
    have "length (close_number out intoff @ [c]) \<le> 2 * Suc i" "intoff \<le> length (close_number out intoff @ [c])"
      using stop "2.prems" length_close_number [of out intoff] by (auto split: if_splits)
    with stop "2.IH"(4) [of "Suc i"] show ?thesis by simp
  next
    case other
    then show ?thesis using "2.IH"(5) [of "Suc i"] "2.prems" by (simp only: hack_loop.simps) (simp split: if_splits)
  qed
qed simp

section \<open>Properties\<close>

text \<open>Decoding the hexadecimal text of a byte string gives the bytes back, whatever follows the
  text in the source string.\<close>

theorem hex2bin_bin2hex:
  assumes "len \<le> length p"
  shows "hex2bin (bin2hex p len @ rest) len = (True, take len p)"
  using assms by (rule hex2bin_bin2hex_gen)

theorem hex2bin_bin2hex_witness:
  "hex2bin (bin2hex [0xde, 0xad, 0x01] 3 @ ''zz'') 3 = (True, [0xde, 0xad, 0x01])"
  using hex2bin_bin2hex [of 3 "[0xde, 0xad, 0x01]" "''zz''"] by simp

text \<open>\<^verbatim>\<open>hex2bin\<close> never writes outside the buffer it is given nor reads past the string, and when
  it reports success it has filled the buffer.\<close>

theorem hex2bin_in_bounds:
  "length (snd (hex2bin s len)) \<le> len \<and> 2 * length (snd (hex2bin s len)) \<le> length s \<and>
   (fst (hex2bin s len) \<longrightarrow> length (snd (hex2bin s len)) = len)"
  using hex2bin_length [of s len "fst (hex2bin s len)" "snd (hex2bin s len)"] by simp

theorem hex2bin_in_bounds_witness:
  "fst (hex2bin ''0a'' 1) \<and> length (snd (hex2bin ''0a'' 1)) = 1"
proof -
  have "fst (hex2bin ''0a'' (Suc 0))" by code_simp
  with hex2bin_in_bounds [of "''0a''" "Suc 0"] show ?thesis by simp
qed

text \<open>A variable-length integer is read back by the Bitcoin wire format's decoder, with the
  length that the encoder reports.\<close>

theorem varint_round_trip:
  "varint_decode (varint_encode n @ rest) = Some (unat n, length (varint_encode n))"
  by (rule varint_decode_encode)

text \<open>C38: base 58 decoding into a buffer whose size is not a multiple of four succeeds exactly on
  strings of valid digits whose value fits the buffer, and the bytes are the value, big-endian.\<close>

theorem b58dec_value:
  assumes "binsz mod 4 \<noteq> 0"
  shows "case b58dec binsz s of
      Some bin \<Rightarrow> length bin = binsz \<and> (\<forall>x \<in> set s. b58_digit x \<noteq> None) \<and> be_val bin = b58_value 0 s
    | None \<Rightarrow> (\<exists>x \<in> set s. b58_digit x = None) \<or> 256 ^ binsz \<le> b58_value 0 s"
  using assms by (rule b58dec_val)

theorem b58dec_value_witness:
  "case b58dec 25 ''2z'' of
      Some bin \<Rightarrow> length bin = 25 \<and> be_val bin = b58_value 0 ''2z''
    | None \<Rightarrow> (\<exists>x \<in> set ''2z''. b58_digit x = None) \<or> 256 ^ 25 \<le> b58_value 0 ''2z''"
  using b58dec_value [of 25 "''2z''"] by (auto split: option.splits)

text \<open>C39: a payout script is produced only for an address whose checksum is right: the script is the
  pay-to-script-hash or the pay-to-pubkey-hash template around the twenty bytes of the decoded
  address, it is written only when it fits, and the returned size is the size of the template.\<close>

theorem address_to_script_checked:
  "case address_to_script outsz addr of
     None \<Rightarrow> True
   | Some (rv, script) \<Rightarrow> rv = 0 \<and> script = [] \<or>
      (\<exists>bin. b58dec 25 addr = Some bin \<and> be_val bin = b58_value 0 addr \<and>
        drop 21 bin = take 4 (fips_sha256 (fips_sha256 (take 21 bin))) \<and>
        (rv, script) =
          (if bin ! 0 = 5 \<or> bin ! 0 = 196
           then (23, if outsz < 23 then [] else [0xa9, 0x14] @ take 20 (drop 1 bin) @ [0x87])
           else (25, if outsz < 25 then [] else [0x76, 0xa9, 0x14] @ take 20 (drop 1 bin) @ [0x88, 0xac])))"
proof (cases "b58dec 25 addr")
  case (Some bin)
  with b58dec_val [of 25 addr] have len: "length bin = 25" "be_val bin = b58_value 0 addr" by simp_all
  have sha: "sha256d bin 21 = fips_sha256 (fips_sha256 (take 21 bin))"
    using sha256d_fips_gen [of 21 bin] len by simp
  have "uint (bin ! 0) = 5 \<longleftrightarrow> bin ! 0 = 5" "uint (bin ! 0) = 196 \<longleftrightarrow> bin ! 0 = 196"
    by (simp_all add: word_uint_eq_iff)
  with Some len show ?thesis
    by (auto simp: address_to_script_def b58check_def Let_def sha split: option.splits)
qed (simp add: address_to_script_def)

text \<open>The subtraction of times is exact in microseconds, the result is normalised and the
  returned flag tells whether the difference is negative.\<close>

theorem timeval_subtract_correct:
  assumes "0 \<le> tv_usec x" "tv_usec x < 1000000" "0 \<le> tv_usec y" "tv_usec y < 1000000"
    and "timeval_subtract x y = (r, y', neg)"
  shows "usecs r = usecs x - usecs y \<and> usecs y' = usecs y \<and> 0 \<le> tv_usec r \<and> tv_usec r < 1000000 \<and>
    (neg \<longleftrightarrow> usecs x < usecs y)"
  using timeval_subtract_exact [OF assms(5)] timeval_subtract_range [OF assms(5,1-4)] by simp

theorem timeval_subtract_correct_witness:
  "let x = \<lparr>tv_sec = 5, tv_usec = 100\<rparr>; y = \<lparr>tv_sec = 3, tv_usec = 999999\<rparr> in
   usecs (fst (timeval_subtract x y)) = usecs x - usecs y \<and> \<not> snd (snd (timeval_subtract x y))"
  using timeval_subtract_correct [of "\<lparr>tv_sec = 5, tv_usec = 100\<rparr>" "\<lparr>tv_sec = 3, tv_usec = 999999\<rparr>"]
  by (simp add: timeval_subtract_def usecs_def)

text \<open>The rewritten JSON text fits the buffer of twice the input length (plus the terminator)
  that the code allocates for it.\<close>

lemma hack_json_numbers_fits: "length (hack_json_numbers s) \<le> 2 * length s"
  using hack_loop_bound [of "[]" False 0 0 s] by (simp add: hack_json_numbers_def)

end
