(* ===== verification/Stratum_Net.thy ===== *)
theory Stratum_Net
  imports Target Json Hexcodec
begin

text \<open>
  The state of a stratum connection (\<^verbatim>\<open>struct stratum_ctx\<close> and \<^verbatim>\<open>struct stratum_job\<close> of
  \<^verbatim>\<open>miner.h\<close>) and its line transport in \<^verbatim>\<open>util.c\<close>: \<^verbatim>\<open>send_line\<close>, \<^verbatim>\<open>stratum_buffer_append\<close>,
  \<^verbatim>\<open>stratum_recv_line\<close>, \<^verbatim>\<open>stratum_connect\<close> and \<^verbatim>\<open>stratum_disconnect\<close>. The operating system
  answers with a list of events, one per call of \<^verbatim>\<open>select\<close>, \<^verbatim>\<open>send\<close> or \<^verbatim>\<open>recv\<close>; when the list is
  exhausted the peer does not answer any more. The mutexes make every operation one step.
\<close>

section \<open>State\<close>

record stratum_job =
  j_job_id :: "string option"
  j_prevhash :: "u8 list"
  j_coinbase :: "u8 list"
  j_xnonce2 :: nat
  j_merkle :: "u8 list list"
  j_version :: "u8 list"
  j_nbits :: "u8 list"
  j_ntime :: "u8 list"
  j_extra :: "u8 list"
  j_clean :: bool
  j_diff :: double

text \<open>\<open>j_coinbase\<close> has \<^verbatim>\<open>coinbase_size\<close> bytes, \<open>j_xnonce2\<close> is the offset in it at which the pointer
  \<^verbatim>\<open>xnonce2\<close> points, and \<^verbatim>\<open>merkle_count\<close> is the length of \<open>j_merkle\<close>.\<close>

record stratum_ctx =
  s_url :: "string option"
  s_curl :: bool
  s_curl_url :: "string option"
  s_sockbuf_size :: nat
  s_sockbuf :: string
  s_next_diff :: double
  s_sharediff :: double
  s_session_id :: "string option"
  s_xnonce1_size :: nat
  s_xnonce1 :: "u8 list"
  s_xnonce2_size :: nat
  s_job :: stratum_job
  s_work :: work
  s_bloc_height :: int

definition job0 :: stratum_job where
  "job0 = \<lparr>j_job_id = None, j_prevhash = replicate 32 0, j_coinbase = [], j_xnonce2 = 0, j_merkle = [],
     j_version = replicate 4 0, j_nbits = replicate 4 0, j_ntime = replicate 4 0,
     j_extra = replicate 64 0, j_clean = False, j_diff = dbl_zero\<rparr>"

definition stratum0 :: stratum_ctx where
  "stratum0 = \<lparr>s_url = None, s_curl = False, s_curl_url = None, s_sockbuf_size = 0, s_sockbuf = [],
     s_next_diff = dbl_zero, s_sharediff = dbl_zero, s_session_id = None, s_xnonce1_size = 0, s_xnonce1 = [],
     s_xnonce2_size = 0, s_job = job0, s_work = work0, s_bloc_height = 0\<rparr>"

section \<open>Sending\<close>

text \<open>One round of the loop of \<^verbatim>\<open>send_line\<close>: \<^verbatim>\<open>select\<close> reports the socket as not writable; \<^verbatim>\<open>send\<close>
  takes some bytes, would block, or fails.\<close>

datatype send_event = Sel_none | Sent nat | Send_block | Send_error

fun send_loop :: "send_event list \<Rightarrow> string \<Rightarrow> bool \<times> string \<times> send_event list" where
  "send_loop evs [] = (True, [], evs)"
| "send_loop [] s = (False, [], [])"
| "send_loop (Sel_none # evs) s = (False, [], evs)"
| "send_loop (Send_error # evs) s = (False, [], evs)"
| "send_loop (Send_block # evs) s = send_loop evs s"
| "send_loop (Sent n # evs) s =
    (case send_loop evs (drop n s) of (ok, out, evs) \<Rightarrow> (ok, take n s @ out, evs))"

definition newline :: char where
  "newline = CHR 0x0A"

definition send_line :: "send_event list \<Rightarrow> string \<Rightarrow> bool \<times> string \<times> send_event list" where
  "send_line evs s = send_loop evs (s @ [newline])"

section \<open>Receiving\<close>

definition RBUFSIZE :: nat where "RBUFSIZE = 2048"

definition RECVSIZE :: nat where "RECVSIZE = RBUFSIZE - 4"

definition stratum_buffer_append :: "string \<Rightarrow> stratum_ctx \<Rightarrow> stratum_ctx" where
  "stratum_buffer_append s sctx =
    (let old = length (s_sockbuf sctx);
         n = old + length s + 1;
         sctx = (if n \<ge> s_sockbuf_size sctx
                 then sctx\<lparr>s_sockbuf_size := n + (RBUFSIZE - n mod RBUFSIZE)\<rparr> else sctx)
     in sctx\<lparr>s_sockbuf := s_sockbuf sctx @ s\<rparr>)"

text \<open>One round of the receive loop: what \<^verbatim>\<open>recv\<close> did, and whether the minute that the loop may
  take has not passed after it. Data is what the buffer holds as a C string, at most \<^verbatim>\<open>RECVSIZE\<close>
  bytes; a blocked call is followed by a wait of one second that sees data or not.\<close>

datatype recv_event = Recv string bool | Recv_eof | Recv_error | Recv_block bool bool

fun recv_loop :: "recv_event list \<Rightarrow> stratum_ctx \<Rightarrow> bool \<times> stratum_ctx \<times> recv_event list" where
  "recv_loop [] sctx = (False, sctx, [])"
| "recv_loop (Recv_eof # evs) sctx = (False, sctx, evs)"
| "recv_loop (Recv_error # evs) sctx = (False, sctx, evs)"
| "recv_loop (Recv_block again in_time # evs) sctx =
    (if \<not> again then (False, sctx, evs)
     else if in_time \<and> newline \<notin> set (s_sockbuf sctx) then recv_loop evs sctx
     else (True, sctx, evs))"
| "recv_loop (Recv s in_time # evs) sctx =
    (let sctx = stratum_buffer_append (take RECVSIZE s) sctx in
     if in_time \<and> newline \<notin> set (s_sockbuf sctx) then recv_loop evs sctx
     else (True, sctx, evs))"

text \<open>
  The end of \<^verbatim>\<open>stratum_recv_line\<close>: \<^verbatim>\<open>strtok\<close> skips the newlines at the front of the buffer and ends
  the token with a zero; the shift of the buffer, however, starts one byte after the token's length
  counted from the start of the buffer.
\<close>

definition take_line :: "string \<Rightarrow> (string \<times> string) option" where
  "take_line buf =
    (case strtok newline buf of
       None \<Rightarrow> None
     | Some (tok, _) \<Rightarrow>
         let buflen = length buf;
             len = length tok;
             skipped = length (takeWhile (\<lambda>c. c = newline) buf)
         in Some (tok,
              if buflen > len + 1
              then (if skipped = 0 then drop (len + 1) buf else take (skipped - 1) (drop (len + 1) buf))
              else []))"

text \<open>The first wait of a minute is answered by \<open>ready\<close>.\<close>

definition stratum_recv_line :: "bool \<Rightarrow> recv_event list \<Rightarrow> stratum_ctx \<Rightarrow> string option \<times> stratum_ctx \<times> recv_event list" where
  "stratum_recv_line ready evs sctx =
    (case (if newline \<in> set (s_sockbuf sctx) then (True, sctx, evs)
           else if \<not> ready then (False, sctx, evs) else recv_loop evs sctx) of
       (ok, sctx, evs) \<Rightarrow>
         if \<not> ok then (None, sctx, evs)
         else case take_line (s_sockbuf sctx) of
           None \<Rightarrow> (None, sctx, evs)
         | Some (line, rest) \<Rightarrow> (Some line, sctx\<lparr>s_sockbuf := rest\<rparr>, evs))"

definition stratum_socket_full :: "stratum_ctx \<Rightarrow> bool \<Rightarrow> bool" where
  "stratum_socket_full sctx readable \<longleftrightarrow> s_sockbuf sctx \<noteq> [] \<or> readable"

section \<open>Connecting\<close>

text \<open>\<open>init_ok\<close> and \<open>perform_ok\<close> are the results of \<^verbatim>\<open>curl_easy_init\<close> and \<^verbatim>\<open>curl_easy_perform\<close>. The
  URL for curl needs a scheme separator; without one the code passes a null pointer to
  \<^verbatim>\<open>sprintf\<close>, which is \<open>None\<close> here.\<close>

definition stratum_connect :: "bool \<Rightarrow> bool \<Rightarrow> string \<Rightarrow> stratum_ctx \<Rightarrow> (bool \<times> stratum_ctx) option" where
  "stratum_connect init_ok perform_ok url sctx =
    (if \<not> init_ok then Some (False, sctx\<lparr>s_curl := False\<rparr>)
     else
       let sctx = sctx\<lparr>s_curl := True, s_sockbuf := []\<rparr>;
           sctx = (if s_sockbuf_size sctx = 0 then sctx\<lparr>s_sockbuf_size := RBUFSIZE\<rparr> else sctx);
           sctx = sctx\<lparr>s_url := Some url\<rparr>
       in case strstr url ''://'' of
            None \<Rightarrow> None
          | Some rest \<Rightarrow>
              let sctx = sctx\<lparr>s_curl_url := Some (''http'' @ rest)\<rparr>
              in Some (if perform_ok then (True, sctx) else (False, sctx\<lparr>s_curl := False\<rparr>)))"

definition stratum_disconnect :: "stratum_ctx \<Rightarrow> stratum_ctx" where
  "stratum_disconnect sctx =
    (if s_curl sctx then sctx\<lparr>s_curl := False, s_sockbuf := []\<rparr> else sctx)"

section \<open>Transport lemmas\<close>

lemma send_loop_prefix:
  "send_loop evs s = (ok, out, evs') \<Longrightarrow> (\<exists>rest. s = out @ rest \<and> (ok \<longrightarrow> rest = []))"
proof (induction evs s arbitrary: ok out evs' rule: send_loop.induct)
  case (6 n evs v va)
  obtain ok' out' evs'' where r: "send_loop evs (drop n (v # va)) = (ok', out', evs'')"
    using prod_cases3 by blast
  with 6 obtain rest where "drop n (v # va) = out' @ rest" "ok' \<longrightarrow> rest = []" by blast
  moreover have "ok = ok'" "out = take n (v # va) @ out'" using 6 r by auto
  ultimately show ?case by (metis append.assoc append_take_drop_id)
qed auto

lemma send_loop_sent:
  "s \<noteq> [] \<Longrightarrow> send_loop (Sent n # evs) s =
    (case send_loop evs (drop n s) of (ok, out, evs) \<Rightarrow> (ok, take n s @ out, evs))"
  by (cases s) auto

text \<open>The receive buffer never overflows: the string and its terminator fit the allocation.\<close>

definition sockbuf_fits :: "stratum_ctx \<Rightarrow> bool" where
  "sockbuf_fits sctx \<longleftrightarrow> length (s_sockbuf sctx) < s_sockbuf_size sctx"

lemma sockbuf_fits_append: "sockbuf_fits (stratum_buffer_append s sctx)"
proof -
  have "n mod RBUFSIZE < RBUFSIZE" for n by (simp add: RBUFSIZE_def)
  then show ?thesis by (auto simp: stratum_buffer_append_def sockbuf_fits_def Let_def not_le)
qed

lemma recv_loop_fits:
  "recv_loop evs sctx = (ok, sctx', evs') \<Longrightarrow> sockbuf_fits sctx \<Longrightarrow> sockbuf_fits sctx'"
  by (induction evs sctx rule: recv_loop.induct) (auto simp: Let_def sockbuf_fits_append split: if_splits)

lemma recv_loop_buffer:
  "recv_loop evs sctx = (ok, sctx', evs') \<Longrightarrow> \<exists>ext. s_sockbuf sctx' = s_sockbuf sctx @ ext"
proof (induction evs sctx rule: recv_loop.induct)
  case (5 s in_time evs sctx)
  have "s_sockbuf (stratum_buffer_append x sctx) = s_sockbuf sctx @ x" for x
    by (simp add: stratum_buffer_append_def Let_def)
  with 5 show ?case by (auto simp: Let_def split: if_splits)
qed (auto split: if_splits)

text \<open>A line at the front of the buffer is handed out whole and what follows it stays.\<close>

lemma take_line_front:
  assumes "newline \<notin> set line" "line \<noteq> []"
  shows "take_line (line @ newline # rest) = Some (line, rest)"
proof -
  obtain c cs where line: "line = c # cs" using assms(2) by (cases line) auto
  have "takeWhile (\<lambda>c. c \<noteq> newline) (line @ newline # rest) = line"
    "dropWhile (\<lambda>c. c \<noteq> newline) (line @ newline # rest) = newline # rest"
    using assms(1) by (induction line) auto
  moreover have skip: "dropWhile (\<lambda>c. c = newline) (line @ newline # rest) = line @ newline # rest"
    "takeWhile (\<lambda>c. c = newline) (line @ newline # rest) = []"
    using assms by (auto simp: line)
  ultimately have tok: "strtok newline (line @ newline # rest) = Some (line, rest)"
    by (simp add: strtok_def Let_def)
  show ?thesis by (simp add: take_line_def tok skip Let_def)
qed

text \<open>Chunks arriving in time are collected until one of them has a newline.\<close>

lemma recv_loop_chunks:
  assumes "\<forall>c \<in> set (cs @ [c]). length c \<le> RECVSIZE" "newline \<notin> set (s_sockbuf sctx @ concat cs)" "newline \<in> set c"
  shows "\<exists>sctx'. recv_loop (map (\<lambda>c. Recv c True) (cs @ [c]) @ evs) sctx = (True, sctx', evs) \<and>
    s_sockbuf sctx' = s_sockbuf sctx @ concat cs @ c"
  using assms
proof (induction cs arbitrary: sctx)
  case Nil
  then show ?case by (auto simp: Let_def stratum_buffer_append_def)
next
  case (Cons b cs)
  let ?s = "stratum_buffer_append b sctx"
  have "s_sockbuf ?s = s_sockbuf sctx @ b" by (simp add: stratum_buffer_append_def Let_def)
  with Cons.IH [of ?s] Cons.prems show ?case by (auto simp: Let_def)
qed

lemma take_line_after_blank:
  assumes "newline \<notin> set line" "line \<noteq> []"
  shows "take_line (newline # line @ newline # rest) = Some (line, [])"
proof -
  obtain c cs where line: "line = c # cs" using assms(2) by (cases line) auto
  have "takeWhile (\<lambda>c. c \<noteq> newline) (line @ newline # rest) = line"
    "dropWhile (\<lambda>c. c \<noteq> newline) (line @ newline # rest) = newline # rest"
    using assms(1) by (induction line) auto
  moreover have skip: "dropWhile (\<lambda>c. c = newline) (newline # line @ newline # rest) = line @ newline # rest"
    "takeWhile (\<lambda>c. c = newline) (newline # line @ newline # rest) = [newline]"
    using assms by (auto simp: line)
  ultimately have tok: "strtok newline (newline # line @ newline # rest) = Some (line, rest)"
    unfolding strtok_def Let_def by (simp only: skip) simp
  show ?thesis by (simp only: take_line_def tok skip Let_def option.case prod.case) simp
qed

lemma send_loop_all: "send_loop evs s = (ok, out, evs') \<Longrightarrow> ok \<longleftrightarrow> out = s"
proof (induction evs s arbitrary: ok out evs' rule: send_loop.induct)
  case (6 n evs v va)
  obtain ok' out' evs'' where q: "send_loop evs (drop n (v # va)) = (ok', out', evs'')"
    using prod_cases3 by blast
  then have "ok' \<longleftrightarrow> out' = drop n (v # va)" by (rule "6.IH")
  moreover have "ok = ok'" "out = take n (v # va) @ out'" using "6.prems" q by auto
  ultimately show ?case by (metis append_take_drop_id same_append_eq)
qed auto

section \<open>Properties\<close>

text \<open>C35: a line is sent as a whole or the call fails: whatever the socket accepts piece by piece, the
  bytes that leave are a prefix of the line and its newline, and success means all of them left.\<close>

theorem send_line_complete:
  "case send_line evs s of (ok, out, _) \<Rightarrow> \<exists>rest. s @ [newline] = out @ rest \<and> (ok \<longleftrightarrow> rest = [])"
proof -
  obtain ok out evs' where r: "send_line evs s = (ok, out, evs')" using prod_cases3 by blast
  from r send_loop_prefix [of evs "s @ [newline]" ok out evs'] send_loop_all [of evs "s @ [newline]" ok out evs']
  show ?thesis by (auto simp: send_line_def)
qed

text \<open>C36: a line split over any number of packets is reassembled: when the packets bring the first
  newline, the line in front of it is returned and what came after it stays in the buffer.\<close>

theorem recv_line_reassembles:
  assumes "\<forall>c \<in> set (cs @ [c]). length c \<le> RECVSIZE"
    and "newline \<notin> set (s_sockbuf sctx @ concat cs)"
    and "s_sockbuf sctx @ concat cs @ c = line @ newline # rest" and "newline \<notin> set line" and "line \<noteq> []"
  shows "\<exists>sctx'. stratum_recv_line True (map (\<lambda>c. Recv c True) (cs @ [c]) @ evs) sctx = (Some line, sctx', evs) \<and>
    s_sockbuf sctx' = rest"
proof -
  have "newline \<in> set (s_sockbuf sctx @ concat cs @ c)" by (simp add: assms(3))
  then have "newline \<in> set c" using assms(2) by auto
  from recv_loop_chunks [OF assms(1,2) this, of evs] obtain sctx' where
    "recv_loop (map (\<lambda>c. Recv c True) (cs @ [c]) @ evs) sctx = (True, sctx', evs)"
    "s_sockbuf sctx' = line @ newline # rest" by (auto simp: assms(3))
  then show ?thesis
    using assms(2) take_line_front [OF assms(4,5), of rest] by (auto simp: stratum_recv_line_def)
qed

theorem recv_line_reassembles_witness:
  "\<exists>sctx'. stratum_recv_line True (map (\<lambda>c. Recv c True) [''ab'', ''c'' @ newline # ''d''] @ []) stratum0
      = (Some ''abc'', sctx', []) \<and> s_sockbuf sctx' = ''d''"
  using recv_line_reassembles [of "[''ab'']" "''c'' @ newline # ''d''" stratum0 "''abc''" "''d''" "[]"]
  by (simp add: stratum0_def RECVSIZE_def RBUFSIZE_def newline_def)

text \<open>C37: an empty line in front of a message makes the client lose what follows that message in the
  buffer: the token is right, but the buffer is shifted by the token's length from its start and not
  from the place of the token, so that the rest of the received text is dropped.\<close>

theorem recv_line_loses_after_blank:
  assumes "s_sockbuf sctx = newline # line @ newline # rest" and "newline \<notin> set line" and "line \<noteq> []"
  shows "stratum_recv_line ready evs sctx = (Some line, sctx\<lparr>s_sockbuf := []\<rparr>, evs)"
  using assms take_line_after_blank [OF assms(2,3), of rest] by (simp add: stratum_recv_line_def)

theorem recv_line_loses_after_blank_witness:
  "stratum_recv_line True [] (stratum0\<lparr>s_sockbuf := newline # ''a'' @ newline # ''b'' @ [newline]\<rparr>) =
   (Some ''a'', stratum0\<lparr>s_sockbuf := []\<rparr>, [])"
  using recv_line_loses_after_blank [of "stratum0\<lparr>s_sockbuf := newline # ''a'' @ newline # ''b'' @ [newline]\<rparr>"
      "''a''" "''b'' @ [newline]" True "[]"] by (simp add: newline_def)

text \<open>The receive buffer never overflows: after any number of receive rounds the string and its
  terminator fit the allocated size.\<close>

theorem recv_buffer_fits:
  assumes "sockbuf_fits sctx" and "recv_loop evs sctx = (ok, sctx', evs')"
  shows "sockbuf_fits sctx'"
  using assms(2,1) by (rule recv_loop_fits)

theorem recv_buffer_fits_witness:
  "sockbuf_fits (fst (snd (recv_loop [Recv ''abc'' True, Recv_eof] (stratum0\<lparr>s_sockbuf_size := 2048\<rparr>))))"
proof -
  have "sockbuf_fits (stratum0\<lparr>s_sockbuf_size := 2048\<rparr>)" by (simp add: sockbuf_fits_def stratum0_def)
  then show ?thesis using recv_buffer_fits by (metis prod.collapse)
qed

end
