(* ===== verification/Rpc2.thy ===== *)
theory Rpc2
  imports Stratum_Net
begin

text \<open>
  The JSON-RPC 2.0 protocol of \<^verbatim>\<open>util.c\<close> and \<^verbatim>\<open>cpu-miner.c\<close> (login, job decoding, retried
  calls). The global variables it keeps are the record \<open>rpc2\<close>. Where the code hands a null
  pointer to a string function the result is \<open>None\<close>.
\<close>

section \<open>State\<close>

text \<open>\<open>r_blob\<close> is \<^verbatim>\<open>rpc2_blob\<close> with its length, \<open>r_stratum_diff\<close> the global \<^verbatim>\<open>stratum_diff\<close>.\<close>

record rpc2 =
  r_id :: string
  r_blob :: "u8 list option"
  r_target :: u32
  r_job_id :: "string option"
  r_stratum_diff :: double

section \<open>Decoding\<close>

text \<open>The identifier is stored before the status is examined.\<close>

definition rpc2_login_decode :: "json option \<Rightarrow> rpc2 \<Rightarrow> bool \<times> rpc2" where
  "rpc2_login_decode val r =
    (let res = json_object_get val ''result'' in
     if res = None then (False, r)
     else case json_string_value (json_object_get res ''id'') of
       None \<Rightarrow> (False, r)
     | Some ident \<Rightarrow>
         let r = r\<lparr>r_id := take 64 ident\<rparr> in
         case json_string_value (json_object_get res ''status'') of
           None \<Rightarrow> (False, r)
         | Some s \<Rightarrow> (s = ''OK'', r))"

definition jobj_binary :: "json option \<Rightarrow> string \<Rightarrow> nat \<Rightarrow> bool \<times> u8 list" where
  "jobj_binary obj key buflen =
    (case json_object_get obj key of
       None \<Rightarrow> (False, [])
     | Some tmp \<Rightarrow>
         (case json_string_value (Some tmp) of
            None \<Rightarrow> (False, [])
          | Some hexstr \<Rightarrow> hex2bin hexstr buflen))"

text \<open>The part of \<^verbatim>\<open>rpc2_job_decode\<close> that stores a new blob, target and job id.\<close>

definition rpc2_store_job :: "json option \<Rightarrow> string option \<Rightarrow> string \<Rightarrow> rpc2 \<Rightarrow> (bool \<times> rpc2) option" where
  "rpc2_store_job job job_id hexblob r =
    (let n = length hexblob div 2 in
     case hex2bin hexblob n of (ok, blob) \<Rightarrow>
       if \<not> ok then Some (False, r)
       else
         let r = r\<lparr>r_blob := Some blob\<rparr>;
             target = le32dec (memcpy_at (replicate 4 0) 0 (snd (jobj_binary job ''target'' 4)));
             r = (if r_target r \<noteq> target
                  then r\<lparr>r_stratum_diff := ddiv (dbl_of_int 0xffffffff) (dbl_of_int (uint target)), r_target := target\<rparr>
                  else r)
         in case job_id of None \<Rightarrow> None | Some jid \<Rightarrow> Some (True, r\<lparr>r_job_id := Some jid\<rparr>))"

definition rpc2_fill_work :: "work option \<Rightarrow> rpc2 \<Rightarrow> (bool \<times> work option \<times> rpc2) option" where
  "rpc2_fill_work w r =
    (case w of
       None \<Rightarrow> Some (True, None, r)
     | Some wk \<Rightarrow>
         (case (r_blob r, r_job_id r) of
            (None, _) \<Rightarrow> Some (False, w, r)
          | (Some blob, None) \<Rightarrow> None
          | (Some blob, Some jid) \<Rightarrow>
              Some (True, Some (wk\<lparr>w_data := memcpy_words (w_data wk) blob,
                w_target := (replicate 8 (-1))[7 := r_target r], w_job_id := Some jid\<rparr>), r)))"

definition rpc2_job_decode :: "bool \<Rightarrow> json option \<Rightarrow> work option \<Rightarrow> rpc2 \<Rightarrow> (bool \<times> work option \<times> rpc2) option" where
  "rpc2_job_decode jsonrpc_2 job w r =
    (if \<not> jsonrpc_2 then Some (False, w, r)
     else if json_object_get job ''job_id'' = None then Some (False, w, r)
     else
       let job_id = json_string_value (json_object_get job ''job_id'') in
       if json_object_get job ''blob'' = None then Some (False, w, r)
       else case json_string_value (json_object_get job ''blob'') of
         None \<Rightarrow> None
       | Some hexblob \<Rightarrow>
           let blobLen = length hexblob in
           if blobLen mod 2 \<noteq> 0 \<or> (blobLen div 2 < 40 \<and> blobLen \<noteq> 0) \<or> blobLen div 2 > 128
           then Some (False, w, r)
           else case (if blobLen \<noteq> 0 then rpc2_store_job job job_id hexblob r else Some (True, r)) of
             None \<Rightarrow> None
           | Some (ok, r) \<Rightarrow>
               if \<not> ok then Some (False, w, r)
               else rpc2_fill_work w r)"

section \<open>Calls\<close>

text \<open>
  \<^verbatim>\<open>json_rpc2_call_recur\<close>: \<open>call\<close> performs a request and \<open>login\<close> a login, both on the state of the
  program; \<open>rem\<close> is the number of tries left, 5 at the start. The request carries the current id.
\<close>

definition rpc2_set_id :: "json option \<Rightarrow> string \<Rightarrow> json option" where
  "rpc2_set_id req rid =
    (case req of
       Some (JObject kvs) \<Rightarrow>
         (case map_of kvs ''params'' of
            Some (JObject ps) \<Rightarrow>
              (case map_of ps ''id'' of
                 Some (JString _) \<Rightarrow> Some (JObject (assoc_set kvs ''params'' (JObject (assoc_set ps ''id'' (JString rid)))))
               | _ \<Rightarrow> req)
          | _ \<Rightarrow> req)
     | _ \<Rightarrow> req)"

definition rpc2_error_message :: "json option \<Rightarrow> string option" where
  "rpc2_error_message res =
    (case json_object_get res ''error'' of
       None \<Rightarrow> None
     | Some error \<Rightarrow>
         let message = (if json_is_string (Some error) then Some error
                        else json_object_get (Some error) ''message'')
         in json_string_value message)"

fun json_rpc2_call_recur :: "(json option \<Rightarrow> 's \<Rightarrow> json option \<times> 's) \<Rightarrow> ('s \<Rightarrow> 's) \<Rightarrow> ('s \<Rightarrow> string) \<Rightarrow>
    nat \<Rightarrow> json option \<Rightarrow> 's \<Rightarrow> json option \<times> 's" where
  "json_rpc2_call_recur call login rid 0 req st = (None, st)"
| "json_rpc2_call_recur call login rid (Suc rem) req st =
    (if rid st = [] then (None, st)
     else
       let req = rpc2_set_id req (rid st) in
       case call req st of (res, st) \<Rightarrow>
         (case rpc2_error_message res of
            None \<Rightarrow> (res, st)
          | Some mes \<Rightarrow>
              if mes = ''Unauthenticated'' then json_rpc2_call_recur call login rid rem req (login st)
              else if mes \<in> {''Low difficulty share'', ''Block expired'', ''Invalid job id'', ''Duplicate share''} then
                ((case res of
                    Some (JObject kvs) \<Rightarrow>
                      (case map_of kvs ''result'' of
                         None \<Rightarrow> res
                       | Some result \<Rightarrow>
                           Some (JObject (assoc_set kvs ''result'' (json_object_set result ''reject-reason'' (JString mes)))))
                  | _ \<Rightarrow> res), st)
              else (None, st)))"

definition json_rpc2_call :: "(json option \<Rightarrow> 's \<Rightarrow> json option \<times> 's) \<Rightarrow> ('s \<Rightarrow> 's) \<Rightarrow> ('s \<Rightarrow> string) \<Rightarrow>
    json option \<Rightarrow> 's \<Rightarrow> json option \<times> 's" where
  "json_rpc2_call call login rid req st = json_rpc2_call_recur call login rid 5 req st"

text \<open>\<^verbatim>\<open>rpc2_login\<close> after the answer \<open>val\<close> to the login request arrived; it decodes the first job into
  the global work.\<close>

definition rpc2_login :: "bool \<Rightarrow> json option \<Rightarrow> work \<Rightarrow> rpc2 \<Rightarrow> (bool \<times> work \<times> rpc2) option" where
  "rpc2_login jsonrpc_2 val g_work r =
    (if \<not> jsonrpc_2 then Some (False, g_work, r)
     else if val = None then Some (False, g_work, r)
     else case rpc2_login_decode val r of (rc, r) \<Rightarrow>
       let result = json_object_get val ''result'' in
       if result = None then Some (rc, g_work, r)
       else case rpc2_job_decode jsonrpc_2 (json_object_get result ''job'') (Some g_work) r of
         None \<Rightarrow> None
       | Some (_, w, r) \<Rightarrow> Some (rc, (case w of None \<Rightarrow> g_work | Some w \<Rightarrow> w), r))"

text \<open>\<^verbatim>\<open>rpc2_stratum_job\<close>: a job pushed by the pool becomes the work of the connection and, when it
  decodes, the global work, whose time is reset.\<close>

definition rpc2_stratum_job :: "bool \<Rightarrow> json option \<Rightarrow> stratum_ctx \<Rightarrow> work \<Rightarrow> int \<Rightarrow> rpc2 \<Rightarrow>
    (bool \<times> stratum_ctx \<times> work \<times> int \<times> rpc2) option" where
  "rpc2_stratum_job jsonrpc_2 params sctx g_work g_work_time r =
    (case rpc2_job_decode jsonrpc_2 params (Some (s_work sctx)) r of
       None \<Rightarrow> None
     | Some (ret, w, r) \<Rightarrow>
         let sctx = sctx\<lparr>s_work := (case w of None \<Rightarrow> s_work sctx | Some w \<Rightarrow> w)\<rparr>
         in Some (if ret then (ret, sctx, work_copy (s_work sctx), 0, r) else (ret, sctx, g_work, g_work_time, r)))"

section \<open>Lemmas\<close>

lemma jobj_binary_length: "length (snd (jobj_binary obj key n)) \<le> n"
  using hex2bin_length [of _ n] by (auto simp: jobj_binary_def split: option.splits) (metis prod.collapse)

lemma rpc2_store_job_blob:
  assumes "rpc2_store_job job job_id hexblob r = Some (ok, r')" "length hexblob div 2 \<le> 128"
  shows "ok \<Longrightarrow> \<exists>blob. r_blob r' = Some blob \<and> length blob = length hexblob div 2"
    "\<not> ok \<Longrightarrow> r' = r" "ok \<Longrightarrow> r_job_id r' = job_id"
  using assms hex2bin_length [of hexblob "length hexblob div 2"]
  by (auto simp: rpc2_store_job_def Let_def split: prod.splits if_splits option.splits)

definition rpc2_wf :: "rpc2 \<Rightarrow> bool" where
  "rpc2_wf r \<longleftrightarrow> (case r_blob r of None \<Rightarrow> True | Some blob \<Rightarrow> length blob \<le> 128)"

lemma rpc2_store_job_wf:
  assumes "rpc2_store_job job job_id hexblob r = Some (ok, r')" "length hexblob div 2 \<le> 128" "rpc2_wf r"
  shows "rpc2_wf r'"
  using rpc2_store_job_blob [OF assms(1,2)] assms(2,3) by (cases ok) (auto simp: rpc2_wf_def)

lemma rpc2_fill_wf:
  assumes "rpc2_fill_work (Some w) r = Some (ok, w', r')" "work_wf w" "rpc2_wf r"
  shows "rpc2_wf r' \<and> (\<exists>v. w' = Some v \<and> work_wf v)"
proof -
  have "work_wf (w\<lparr>w_data := memcpy_words (w_data w) blob, w_target := (replicate 8 (-1))[7 := t], w_job_id := j\<rparr>)"
    if "length blob \<le> 128" for blob t j
    using assms(2) that by (cases "w_xnonce2 w") (simp_all add: work_wf_def)
  then show ?thesis
    using assms by (auto simp: rpc2_fill_work_def rpc2_wf_def split: option.splits)
qed

lemma rpc2_job_decode_layout:
  assumes "rpc2_wf r" and "work_wf w" and "rpc2_job_decode jsonrpc_2 job (Some w) r = Some (ok, w', r')"
  shows "rpc2_wf r' \<and> (\<exists>v. w' = Some v \<and> work_wf v)"
  using assms rpc2_store_job_wf [OF _ _ assms(1)] rpc2_fill_wf [OF _ assms(2)]
  by (fastforce simp: rpc2_job_decode_def Let_def split: if_splits option.splits)

section \<open>Properties\<close>

text \<open>Decoding a pushed job keeps the layout of the work and of the stored blob: a blob that is
  accepted has at most 128 bytes, so copying it into the work stays inside the data array.\<close>

theorem rpc2_job_decode_wf:
  assumes "rpc2_wf r" and "work_wf w" and "rpc2_job_decode jsonrpc_2 job (Some w) r = Some (ok, w', r')"
  shows "rpc2_wf r' \<and> (\<exists>v. w' = Some v \<and> work_wf v)"
  using rpc2_job_decode_layout [OF assms] .

definition rpc2_sample :: rpc2 where
  "rpc2_sample = \<lparr>r_id = ''x'', r_blob = None, r_target = 0, r_job_id = None, r_stratum_diff = dbl_zero\<rparr>"

theorem rpc2_job_decode_wf_witness:
  "\<exists>ok w' r'. rpc2_job_decode True (Some (JObject [(''job_id'', JString ''7''), (''blob'', JString [])])) (Some work0) rpc2_sample
      = Some (ok, w', r') \<and> rpc2_wf r' \<and> (\<exists>v. w' = Some v \<and> work_wf v)"
proof -
  have wf: "rpc2_wf rpc2_sample" "work_wf work0"
    by (simp_all add: rpc2_wf_def rpc2_sample_def work_wf_def work0_def)
  have r: "rpc2_job_decode True (Some (JObject [(''job_id'', JString ''7''), (''blob'', JString [])])) (Some work0) rpc2_sample
      = Some (False, Some work0, rpc2_sample)"
    by (simp add: rpc2_job_decode_def rpc2_fill_work_def rpc2_sample_def)
  from rpc2_job_decode_wf [OF wf r] r show ?thesis by blast
qed

text \<open>A call that the server keeps refusing as unauthenticated is sent at most five times.\<close>

theorem json_rpc2_call_bounded:
  assumes "\<And>req st. count (snd (call req st)) \<le> count st + 1" and "\<And>st. count (login st) \<le> count st"
  shows "count (snd (json_rpc2_call call login rid req st)) \<le> count st + (5 :: nat)"
proof -
  have "count (snd (json_rpc2_call_recur call login rid n req st)) \<le> count st + n" for n req st
  proof (induction n arbitrary: req st)
    case (Suc n)
    define req' where "req' = rpc2_set_id req (rid st)"
    obtain res st1 where c: "call req' st = (res, st1)" by fastforce
    have "count st1 \<le> count st + 1" using assms(1) [of req' st] by (simp add: c)
    moreover have "count (snd (json_rpc2_call_recur call login rid n req' (login st1))) \<le> count st1 + n"
      using Suc.IH [of req' "login st1"] assms(2) [of st1] by simp
    ultimately show ?case by (simp add: c Let_def split: option.splits flip: req'_def)
  qed simp
  from this [of 5 req st] show ?thesis by (simp only: json_rpc2_call_def)
qed

theorem json_rpc2_call_bounded_witness:
  "snd (json_rpc2_call (\<lambda>req st. (Some (JObject [(''error'', JString ''Unauthenticated'')]), Suc st)) (\<lambda>st. st)
      (\<lambda>_. ''id'') None 0) \<le> 0 + 5"
  by (rule json_rpc2_call_bounded [of "\<lambda>n. n"]) simp_all

end
