(* ===== verification/Stratum.thy ===== *)
theory Stratum
  imports Rpc2
begin

text \<open>
  The stratum protocol of \<^verbatim>\<open>util.c\<close>: subscribing, authorising and the handlers of the messages the
  pool sends. JSON texts are parsed by the argument \<open>loads\<close> and printed by \<open>dumps\<close>. The socket is
  the record \<open>io\<close>: the coming answers of the operating system and the bytes sent so far.
  Freshly allocated memory holds what the argument \<open>junk\<close> says. Undefined behaviour is \<open>None\<close>.
\<close>

section \<open>The socket\<close>

record io =
  io_send :: "send_event list"
  io_recv :: "recv_event list"
  io_ready :: "bool list"
  io_out :: string

definition stratum_send_line :: "string \<Rightarrow> io \<Rightarrow> bool \<times> io" where
  "stratum_send_line s io =
    (case send_line (io_send io) s of (ok, out, evs) \<Rightarrow> (ok, io\<lparr>io_send := evs, io_out := io_out io @ out\<rparr>))"

text \<open>\<^verbatim>\<open>socket_full\<close>: the next answer of \<^verbatim>\<open>select\<close>; none when the peer is silent.\<close>

definition socket_full :: "io \<Rightarrow> bool \<times> io" where
  "socket_full io = (case io_ready io of [] \<Rightarrow> (False, io) | b # bs \<Rightarrow> (b, io\<lparr>io_ready := bs\<rparr>))"

definition recv_line :: "stratum_ctx \<Rightarrow> io \<Rightarrow> string option \<times> stratum_ctx \<times> io" where
  "recv_line sctx io =
    (case (if newline \<in> set (s_sockbuf sctx) then (True, io) else socket_full io) of (ready, io) \<Rightarrow>
      case stratum_recv_line ready (io_recv io) sctx of (line, sctx, evs) \<Rightarrow> (line, sctx, io\<lparr>io_recv := evs\<rparr>))"

section \<open>Options\<close>

text \<open>The global flags that the protocol reads.\<close>

record stratum_opts =
  so_jsonrpc_2 :: bool
  so_redirect :: bool
  so_extranonce :: bool
  so_bench :: "json option"

text \<open>\<open>so_bench\<close> is the statistics object that \<^verbatim>\<open>stratum_benchdata\<close> builds from the description of the
  machine, \<open>None\<close> when \<^verbatim>\<open>opt_stratum_stats\<close> is off.\<close>

definition USER_AGENT :: string where
  "USER_AGENT = ''cpuminer-multi/1.3.7''"

definition get_currentalgo :: string where
  "get_currentalgo = ''sha256d''"

section \<open>Session\<close>

fun session_id_loop :: "json list \<Rightarrow> string option" where
  "session_id_loop [] = None"
| "session_id_loop (v # vs) =
    (if \<not> json_is_array (Some v) then None
     else case json_string_value (json_array_get (Some v) 0) of
       None \<Rightarrow> session_id_loop vs
     | Some notify \<Rightarrow>
         if strcasecmp_eq notify ''mining.notify'' then json_string_value (json_array_get (Some v) 1)
         else session_id_loop vs)"

definition get_stratum_session_id :: "json option \<Rightarrow> string option" where
  "get_stratum_session_id val =
    (case json_array_get val 0 of Some (JArray vs) \<Rightarrow> session_id_loop vs | _ \<Rightarrow> None)"

text \<open>The new extra nonce keeps the bytes that \<^verbatim>\<open>hex2bin\<close> managed to write over zeroed memory.\<close>

definition stratum_parse_extranonce :: "stratum_ctx \<Rightarrow> json option \<Rightarrow> nat \<Rightarrow> bool \<times> stratum_ctx" where
  "stratum_parse_extranonce sctx params pndx =
    (case json_string_value (json_array_get params pndx) of
       None \<Rightarrow> (False, sctx)
     | Some xnonce1 \<Rightarrow>
         let xn2_size = to_int32 (json_integer_value (json_array_get params (pndx + 1))) in
         if xn2_size = 0 then (False, sctx)
         else if xn2_size < 2 \<or> xn2_size > 16 then (False, sctx)
         else
           let n = length xnonce1 div 2 in
           (True, sctx\<lparr>s_xnonce1_size := n, s_xnonce1 := memcpy_at (replicate n 0) 0 (snd (hex2bin xnonce1 n)),
              s_xnonce2_size := nat xn2_size\<rparr>))"

section \<open>Notifications\<close>

text \<open>\<^verbatim>\<open>realloc\<close>: the old bytes as far as they fit, then whatever the new memory holds.\<close>

definition realloc :: "(nat \<Rightarrow> u8) \<Rightarrow> u8 list \<Rightarrow> nat \<Rightarrow> u8 list" where
  "realloc junk bs n = take n bs @ map junk [length bs..<n]"

text \<open>The tag search of \<^verbatim>\<open>getblocheight\<close>, from offset \<open>p\<close> to at most 160; a read past the coinbase is
  undefined.\<close>

function height_skip :: "u8 list \<Rightarrow> bool \<Rightarrow> nat \<Rightarrow> nat option" where
  "height_skip cb tag p =
    (if length cb \<le> p then None
     else if (cb ! p = 0xff) = tag \<and> p < 160 then height_skip cb tag (p + 1)
     else Some p)"
  by pat_completeness auto
termination by (relation "measure (\<lambda>(cb, tag, p). length cb - p)") auto

declare height_skip.simps [simp del]

definition getblocheight :: "u8 list \<Rightarrow> u32 option" where
  "getblocheight cb =
    (case height_skip cb False 32 of None \<Rightarrow> None | Some p \<Rightarrow>
      case height_skip cb True p of None \<Rightarrow> None | Some p \<Rightarrow>
        if cb ! (p - 1) = 0xff \<and> cb ! (p - 2) = 0xff then
          (if length cb \<le> p + 3 then None
           else
             let hlen = cb ! (p + 1);
                 height = (ucast (le16dec (drop (p + 2) cb)) :: u32)
             in if hlen = 4 then
                  (if length cb \<le> p + 5 then None
                   else Some (height + 0x10000 * ucast (le16dec (drop (p + 4) cb))))
                else if hlen = 3 then
                  (if length cb \<le> p + 4 then None else Some (height + 0x10000 * ucast (cb ! (p + 4))))
                else Some height)
        else Some 0)"

text \<open>The Merkle branch: every element must be a string of 64 characters; its bytes land in
  uninitialised memory.\<close>

fun merkle_branch :: "(nat \<Rightarrow> u8) \<Rightarrow> json list \<Rightarrow> u8 list list option" where
  "merkle_branch junk [] = Some []"
| "merkle_branch junk (v # vs) =
    (case json_string_value (Some v) of
       None \<Rightarrow> None
     | Some s \<Rightarrow>
         if length s \<noteq> 64 then None
         else case merkle_branch junk vs of
           None \<Rightarrow> None
         | Some ms \<Rightarrow> Some (memcpy_at (map junk [0..<32]) 0 (snd (hex2bin s 32)) # ms))"

text \<open>The checked parameters of a notification.\<close>

record notify_params =
  n_job_id :: string
  n_prevhash :: string
  n_extra :: "string option"
  n_coinb1 :: string
  n_coinb2 :: string
  n_merkle :: "u8 list list"
  n_version :: string
  n_nbits :: string
  n_ntime :: string
  n_clean :: bool

text \<open>\<open>shift\<close> is 1 for the two algorithms with an extra parameter after the previous hash.\<close>

definition notify_parse :: "string \<Rightarrow> (nat \<Rightarrow> u8) \<Rightarrow> json option \<Rightarrow> notify_params option" where
  "notify_parse algo junk params =
    (let has_claim = (algo = ''lbry'' \<and> json_array_size params = 10);
         has_roots = (algo = ''phi2'' \<and> json_array_size params = 10);
         str = (\<lambda>i. json_string_value (json_array_get params i));
         extradata = (if has_claim \<or> has_roots then str 2 else None);
         shift = (if has_claim \<or> has_roots then 1 else 0)
     in if has_claim \<and> (case extradata of None \<Rightarrow> True | Some e \<Rightarrow> length e \<noteq> 64) then None
        else if has_roots \<and> (case extradata of None \<Rightarrow> True | Some e \<Rightarrow> length e \<noteq> 128) then None
        else case json_array_get params (4 + shift) of
          Some (JArray merkle_arr) \<Rightarrow>
            (case (str 0, str 1, str (2 + shift), str (3 + shift), str (5 + shift), str (6 + shift), str (7 + shift)) of
               (Some job_id, Some prevhash, Some coinb1, Some coinb2, Some version, Some nbits, Some ntime) \<Rightarrow>
                 if length prevhash \<noteq> 64 \<or> length version \<noteq> 8 \<or> length nbits \<noteq> 8 \<or> length ntime \<noteq> 8 then None
                 else (case merkle_branch junk merkle_arr of
                   None \<Rightarrow> None
                 | Some merkle \<Rightarrow>
                     Some \<lparr>n_job_id = job_id, n_prevhash = prevhash, n_extra = extradata, n_coinb1 = coinb1,
                       n_coinb2 = coinb2, n_merkle = merkle, n_version = version, n_nbits = nbits, n_ntime = ntime,
                       n_clean = json_is_true (json_array_get params (8 + shift))\<rparr>)
             | _ \<Rightarrow> None)
        | _ \<Rightarrow> None)"

text \<open>The coinbase buffer: resized, then the first part, the extra nonces and the second part written
  at their places; the second extra nonce is cleared only for a new job id.\<close>

definition notify_coinbase :: "(nat \<Rightarrow> u8) \<Rightarrow> notify_params \<Rightarrow> stratum_ctx \<Rightarrow> u8 list \<times> nat" where
  "notify_coinbase junk np sctx =
    (let job = s_job sctx;
         coinb1_size = length (n_coinb1 np) div 2;
         coinb2_size = length (n_coinb2 np) div 2;
         coinbase_size = coinb1_size + s_xnonce1_size sctx + s_xnonce2_size sctx + coinb2_size;
         cb = realloc junk (j_coinbase job) coinbase_size;
         x2 = coinb1_size + s_xnonce1_size sctx;
         cb = memcpy_at cb 0 (snd (hex2bin (n_coinb1 np) coinb1_size));
         cb = memcpy_at cb coinb1_size (take (s_xnonce1_size sctx) (s_xnonce1 sctx));
         cb = (if j_job_id job \<noteq> Some (n_job_id np) then memcpy_at cb x2 (replicate (s_xnonce2_size sctx) 0) else cb)
     in (memcpy_at cb (x2 + s_xnonce2_size sctx) (snd (hex2bin (n_coinb2 np) coinb2_size)), x2))"

definition stratum_notify :: "(nat \<Rightarrow> u8) \<Rightarrow> stratum_ctx \<Rightarrow> json option \<Rightarrow> (bool \<times> stratum_ctx) option" where
  "stratum_notify junk sctx params =
    (case notify_parse get_currentalgo junk params of
       None \<Rightarrow> Some (False, sctx)
     | Some np \<Rightarrow>
         (case notify_coinbase junk np sctx of (cb, x2) \<Rightarrow>
           case getblocheight cb of
             None \<Rightarrow> None
           | Some height \<Rightarrow>
               let job = s_job sctx;
                   extra = (case n_extra np of None \<Rightarrow> j_extra job
                     | Some e \<Rightarrow> memcpy_at (j_extra job) 0 (snd (hex2bin e (if get_currentalgo = ''lbry'' then 32 else 64))))
               in Some (True, sctx\<lparr>s_bloc_height := sint height,
                    s_job := job\<lparr>j_coinbase := cb, j_xnonce2 := x2, j_job_id := Some (n_job_id np),
                      j_prevhash := memcpy_at (j_prevhash job) 0 (snd (hex2bin (n_prevhash np) 32)),
                      j_extra := extra, j_merkle := n_merkle np,
                      j_version := memcpy_at (j_version job) 0 (snd (hex2bin (n_version np) 4)),
                      j_nbits := memcpy_at (j_nbits job) 0 (snd (hex2bin (n_nbits np) 4)),
                      j_ntime := memcpy_at (j_ntime job) 0 (snd (hex2bin (n_ntime np) 4)),
                      j_clean := n_clean np, j_diff := s_next_diff sctx\<rparr>\<rparr>)))"

definition stratum_set_difficulty :: "stratum_ctx \<Rightarrow> json option \<Rightarrow> bool \<times> stratum_ctx" where
  "stratum_set_difficulty sctx params =
    (let diff = json_number_value (json_array_get params 0) in
     if deq diff dbl_zero then (False, sctx) else (True, sctx\<lparr>s_next_diff := diff\<rparr>))"

definition stratum_reconnect :: "bool \<Rightarrow> stratum_ctx \<Rightarrow> json option \<Rightarrow> bool \<times> stratum_ctx" where
  "stratum_reconnect opt_redirect sctx params =
    (let host = json_string_value (json_array_get params 0);
         port_val = json_array_get params 1;
         port = (case json_string_value port_val of Some s \<Rightarrow> atoi s | None \<Rightarrow> to_int32 (json_integer_value port_val))
     in case host of
          None \<Rightarrow> (False, sctx)
        | Some h \<Rightarrow>
            if port = 0 then (False, sctx)
            else if \<not> opt_redirect then (True, sctx)
            else (True, stratum_disconnect (sctx\<lparr>s_url := Some (''stratum+tcp://'' @ h @ '':'' @ dec_int port)\<rparr>)))"

section \<open>Replies\<close>

definition json_object_set_error :: "json \<Rightarrow> int \<Rightarrow> string \<Rightarrow> json" where
  "json_object_set_error result errcode msg =
    json_object_set result ''error'' (json_object_set (json_object_set (JObject []) ''code'' (JInteger errcode)) ''message'' (JString msg))"

text \<open>A reply that is not sent: the request had no id.\<close>

definition no_id :: "json option \<Rightarrow> bool" where
  "no_id rid \<longleftrightarrow> rid = None \<or> json_is_null rid"

definition reply_base :: "json option \<Rightarrow> json" where
  "reply_base rid = json_object_set (JObject []) ''id'' (the rid)"

definition stratum_get_stats :: "(json \<Rightarrow> string) \<Rightarrow> stratum_opts \<Rightarrow> json option \<Rightarrow> io \<Rightarrow> bool \<times> io" where
  "stratum_get_stats dumps opts rid io =
    (if no_id rid then (False, io)
     else stratum_send_line (dumps (case so_bench opts of
         None \<Rightarrow> json_object_set_error (reply_base rid) 1 ''disabled''
       | Some bench \<Rightarrow> json_object_set (json_object_set (reply_base rid) ''result'' bench) ''error'' JNull)) io)"

definition stratum_unknown_method :: "(json \<Rightarrow> string) \<Rightarrow> json option \<Rightarrow> io \<Rightarrow> bool \<times> io" where
  "stratum_unknown_method dumps rid io =
    (if no_id rid then (False, io)
     else stratum_send_line (dumps (json_object_set_error
       (json_object_set (reply_base rid) ''result'' JFalse) 38 ''unknown method'')) io)"

text \<open>The quotation mark of the literal texts.\<close>

definition dq :: string where "dq = [dquote]"

definition quoted :: "string \<Rightarrow> string" where "quoted s = dq @ s @ dq"

definition stratum_pong :: "json option \<Rightarrow> io \<Rightarrow> bool \<times> io" where
  "stratum_pong rid io =
    (if no_id rid then (False, io)
     else stratum_send_line (''{'' @ quoted ''id'' @ '':'' @ dec_int (to_int32 (json_integer_value rid)) @ '','' @
       quoted ''result'' @ '':'' @ quoted ''pong'' @ '','' @ quoted ''error'' @ '':null}'') io)"

definition stratum_get_algo :: "(json \<Rightarrow> string) \<Rightarrow> json option \<Rightarrow> io \<Rightarrow> bool \<times> io" where
  "stratum_get_algo dumps rid io =
    (if no_id rid then (False, io)
     else stratum_send_line (dumps (json_object_set
       (json_object_set (reply_base rid) ''error'' JNull) ''result'' (JString get_currentalgo))) io)"

definition stratum_get_version :: "(json \<Rightarrow> string) \<Rightarrow> json option \<Rightarrow> io \<Rightarrow> bool \<times> io" where
  "stratum_get_version dumps rid io =
    (if no_id rid then (False, io)
     else stratum_send_line (dumps (json_object_set
       (json_object_set (reply_base rid) ''error'' JNull) ''result'' (JString USER_AGENT))) io)"

definition stratum_show_message :: "(json \<Rightarrow> string) \<Rightarrow> json option \<Rightarrow> io \<Rightarrow> bool \<times> io" where
  "stratum_show_message dumps rid io =
    (if no_id rid then (True, io)
     else stratum_send_line (dumps (json_object_set
       (json_object_set (reply_base rid) ''error'' JNull) ''result'' JTrue)) io)"

section \<open>Dispatch\<close>

text \<open>The globals that a message may change: the connection, the socket, the JSON-RPC 2.0 state, the
  global work and its time.\<close>

record stratum_state =
  st_sctx :: stratum_ctx
  st_io :: io
  st_rpc2 :: rpc2
  st_g_work :: work
  st_g_work_time :: int

definition with_io :: "bool \<times> io \<Rightarrow> stratum_state \<Rightarrow> (bool \<times> stratum_state) option" where
  "with_io r st = Some (fst r, st\<lparr>st_io := snd r\<rparr>)"

definition with_ctx :: "bool \<times> stratum_ctx \<Rightarrow> stratum_state \<Rightarrow> (bool \<times> stratum_state) option" where
  "with_ctx r st = Some (fst r, st\<lparr>st_sctx := snd r\<rparr>)"

definition stratum_handle_method :: "(string \<Rightarrow> json option) \<Rightarrow> (json \<Rightarrow> string) \<Rightarrow> (nat \<Rightarrow> u8) \<Rightarrow> stratum_opts \<Rightarrow>
    string \<Rightarrow> stratum_state \<Rightarrow> (bool \<times> stratum_state) option" where
  "stratum_handle_method loads dumps junk opts s st =
    (let val = loads s in
     if val = None then Some (False, st)
     else case json_string_value (json_object_get val ''method'') of
       None \<Rightarrow> Some (False, st)
     | Some meth \<Rightarrow>
         let params = json_object_get val ''params'';
             rid = json_object_get val ''id'';
             sctx = st_sctx st;
             is = strcasecmp_eq meth
         in if so_jsonrpc_2 opts then
              (if is ''job'' then
                 (case rpc2_stratum_job True params sctx (st_g_work st) (st_g_work_time st) (st_rpc2 st) of
                    None \<Rightarrow> None
                  | Some (ret, sctx, g, t, r) \<Rightarrow>
                      Some (ret, st\<lparr>st_sctx := sctx, st_g_work := g, st_g_work_time := t, st_rpc2 := r\<rparr>))
               else Some (False, st))
            else if is ''mining.notify'' then
              (case stratum_notify junk sctx params of
                 None \<Rightarrow> None | Some r \<Rightarrow> with_ctx r st)
            else if is ''mining.ping'' then with_io (stratum_pong rid (st_io st)) st
            else if is ''mining.set_difficulty'' then with_ctx (stratum_set_difficulty sctx params) st
            else if is ''mining.set_extranonce'' then with_ctx (stratum_parse_extranonce sctx params 0) st
            else if is ''client.reconnect'' then with_ctx (stratum_reconnect (so_redirect opts) sctx params) st
            else if is ''client.get_algo'' then with_io (stratum_get_algo dumps rid (st_io st)) st
            else if is ''client.get_stats'' then with_io (stratum_get_stats dumps opts rid (st_io st)) st
            else if is ''client.get_version'' then with_io (stratum_get_version dumps rid (st_io st)) st
            else if is ''client.show_message'' then with_io (stratum_show_message dumps rid (st_io st)) st
            else with_io (stratum_unknown_method dumps rid (st_io st)) st)"

section \<open>Subscription\<close>

definition subscribe_request :: "bool \<Rightarrow> string option \<Rightarrow> string" where
  "subscribe_request retry session_id =
    ''{'' @ quoted ''id'' @ '': 1, '' @ quoted ''method'' @ '': '' @ quoted ''mining.subscribe'' @ '', '' @
    quoted ''params'' @ '': ['' @
    (if retry then []
     else case session_id of
       Some sid \<Rightarrow> quoted USER_AGENT @ '', '' @ quoted sid
     | None \<Rightarrow> quoted USER_AGENT) @ '']}''"

text \<open>One attempt: whether it succeeded, whether an answer line arrived (only then is it repeated).\<close>

definition subscribe_attempt :: "(string \<Rightarrow> json option) \<Rightarrow> bool \<Rightarrow> stratum_ctx \<Rightarrow> io \<Rightarrow> bool \<times> bool \<times> stratum_ctx \<times> io" where
  "subscribe_attempt loads retry sctx io =
    (case stratum_send_line (subscribe_request retry (s_session_id sctx)) io of (sent, io) \<Rightarrow>
      if \<not> sent then (False, False, sctx, io)
      else case socket_full io of (ready, io) \<Rightarrow>
        if \<not> ready then (False, False, sctx, io)
        else case recv_line sctx io of (line, sctx, io) \<Rightarrow>
          (case line of
             None \<Rightarrow> (False, False, sctx, io)
           | Some sret \<Rightarrow>
               let val = loads sret;
                   res_val = json_object_get val ''result'';
                   err_val = json_object_get val ''error''
               in if val = None then (False, True, sctx, io)
                  else if res_val = None \<or> json_is_null res_val \<or> (err_val \<noteq> None \<and> \<not> json_is_null err_val)
                  then (False, True, sctx, io)
                  else
                    let sctx = sctx\<lparr>s_session_id := get_stratum_session_id res_val, s_next_diff := dbl_one\<rparr>
                    in case stratum_parse_extranonce sctx res_val 1 of (ok, sctx) \<Rightarrow> (ok, True, sctx, io)))"

definition stratum_subscribe :: "(string \<Rightarrow> json option) \<Rightarrow> stratum_opts \<Rightarrow> stratum_ctx \<Rightarrow> io \<Rightarrow> bool \<times> stratum_ctx \<times> io" where
  "stratum_subscribe loads opts sctx io =
    (if so_jsonrpc_2 opts then (True, sctx, io)
     else case subscribe_attempt loads False sctx io of (ok, answered, sctx, io) \<Rightarrow>
       if ok then (True, sctx, io)
       else if \<not> answered then (False, sctx, io)
       else case subscribe_attempt loads True sctx io of (ok, answered, sctx, io) \<Rightarrow> (ok, sctx, io))"

section \<open>Authorisation\<close>

definition authorize_request :: "bool \<Rightarrow> string \<Rightarrow> string \<Rightarrow> string" where
  "authorize_request jsonrpc_2 user pass =
    (if jsonrpc_2 then
       ''{'' @ quoted ''method'' @ '': '' @ quoted ''login'' @ '', '' @ quoted ''params'' @ '': {'' @
       quoted ''login'' @ '': '' @ quoted user @ '', '' @ quoted ''pass'' @ '': '' @ quoted pass @ '', '' @
       quoted ''agent'' @ '': '' @ quoted USER_AGENT @ ''}, '' @ quoted ''id'' @ '': 1}''
     else
       ''{'' @ quoted ''id'' @ '': 2, '' @ quoted ''method'' @ '': '' @ quoted ''mining.authorize'' @ '', '' @
       quoted ''params'' @ '': ['' @ quoted user @ '', '' @ quoted pass @ '']}'')"

text \<open>Messages that arrive before the answer are handled; the first line that is not a handled method
  is the answer. The loop ends when the peer is silent; \<open>fuel\<close> bounds the lines, and running out of
  it is undefined.\<close>

fun authorize_wait :: "nat \<Rightarrow> (string \<Rightarrow> json option) \<Rightarrow> (json \<Rightarrow> string) \<Rightarrow> (nat \<Rightarrow> u8) \<Rightarrow> stratum_opts \<Rightarrow>
    stratum_state \<Rightarrow> (string option \<times> stratum_state) option" where
  "authorize_wait 0 loads dumps junk opts st = None"
| "authorize_wait (Suc fuel) loads dumps junk opts st =
    (case recv_line (st_sctx st) (st_io st) of (line, sctx, io) \<Rightarrow>
      let st = st\<lparr>st_sctx := sctx, st_io := io\<rparr> in
      case line of
        None \<Rightarrow> Some (None, st)
      | Some sret \<Rightarrow>
          (case stratum_handle_method loads dumps junk opts sret st of
             None \<Rightarrow> None
           | Some (True, st) \<Rightarrow> authorize_wait fuel loads dumps junk opts st
           | Some (False, st) \<Rightarrow> Some (Some sret, st)))"

text \<open>The optional subscription to extra nonce changes; its result is ignored.\<close>

definition extranonce_subscribe :: "(string \<Rightarrow> json option) \<Rightarrow> (json \<Rightarrow> string) \<Rightarrow> (nat \<Rightarrow> u8) \<Rightarrow> stratum_opts \<Rightarrow>
    stratum_state \<Rightarrow> stratum_state option" where
  "extranonce_subscribe loads dumps junk opts st =
    (case stratum_send_line (''{'' @ quoted ''id'' @ '': 3, '' @ quoted ''method'' @ '': '' @
        quoted ''mining.extranonce.subscribe'' @ '', '' @ quoted ''params'' @ '': []}'') (st_io st) of (sent, io) \<Rightarrow>
      let st = st\<lparr>st_io := io\<rparr> in
      if \<not> sent then Some st
      else case socket_full (st_io st) of (ready, io) \<Rightarrow>
        let st = st\<lparr>st_io := io\<rparr> in
        if \<not> ready then Some st
        else case recv_line (st_sctx st) (st_io st) of (line, sctx, io) \<Rightarrow>
          let st = st\<lparr>st_sctx := sctx, st_io := io\<rparr> in
          case line of
            None \<Rightarrow> Some st
          | Some sret \<Rightarrow>
              (case loads sret of
                 None \<Rightarrow> Some st
               | Some extra \<Rightarrow>
                   if json_integer_value (json_object_get (Some extra) ''id'') \<noteq> 3 then
                     map_option snd (stratum_handle_method loads dumps junk opts sret st)
                   else Some st))"

definition authorize_refused :: "json option \<Rightarrow> bool" where
  "authorize_refused val \<longleftrightarrow>
    (let res_val = json_object_get val ''result'';
         err_val = json_object_get val ''error'';
         req_id = to_int32 (json_integer_value (json_object_get val ''id''))
     in req_id = 2 \<and> (res_val = None \<or> json_is_false res_val \<or> (err_val \<noteq> None \<and> \<not> json_is_null err_val)))"

definition authorize_login :: "json option \<Rightarrow> stratum_state \<Rightarrow> stratum_state option" where
  "authorize_login val st =
    (let r = snd (rpc2_login_decode val (st_rpc2 st));
         job_val = json_object_get (json_object_get val ''result'') ''job''
     in if job_val = None then Some (st\<lparr>st_rpc2 := r\<rparr>)
        else case rpc2_job_decode True job_val (Some (s_work (st_sctx st))) r of
          None \<Rightarrow> None
        | Some (_, w, r) \<Rightarrow>
            Some (st\<lparr>st_rpc2 := r, st_sctx := (st_sctx st)\<lparr>s_work := (case w of None \<Rightarrow> s_work (st_sctx st) | Some w \<Rightarrow> w)\<rparr>\<rparr>))"

definition stratum_authorize :: "nat \<Rightarrow> (string \<Rightarrow> json option) \<Rightarrow> (json \<Rightarrow> string) \<Rightarrow> (nat \<Rightarrow> u8) \<Rightarrow> stratum_opts \<Rightarrow>
    string \<Rightarrow> string \<Rightarrow> stratum_state \<Rightarrow> (bool \<times> stratum_state) option" where
  "stratum_authorize fuel loads dumps junk opts user pass st =
    (case stratum_send_line (authorize_request (so_jsonrpc_2 opts) user pass) (st_io st) of (sent, io) \<Rightarrow>
      let st = st\<lparr>st_io := io\<rparr> in
      if \<not> sent then Some (False, st)
      else case authorize_wait fuel loads dumps junk opts st of
        None \<Rightarrow> None
      | Some (None, st) \<Rightarrow> Some (False, st)
      | Some (Some sret, st) \<Rightarrow>
          let val = loads sret in
          if val = None then Some (False, st)
          else if authorize_refused val then Some (False, st)
          else case (if so_jsonrpc_2 opts then authorize_login val st else Some st) of
            None \<Rightarrow> None
          | Some st \<Rightarrow>
              if \<not> so_extranonce opts then Some (True, st)
              else map_option (\<lambda>st. (True, st)) (extranonce_subscribe loads dumps junk opts st))"

section \<open>Well-formed connections\<close>

definition job_wf :: "stratum_job \<Rightarrow> bool" where
  "job_wf j \<longleftrightarrow> length (j_prevhash j) = 32 \<and> length (j_version j) = 4 \<and> length (j_nbits j) = 4 \<and>
     length (j_ntime j) = 4 \<and> length (j_extra j) = 64 \<and> (\<forall>m \<in> set (j_merkle j). length m = 32)"

definition stratum_wf :: "stratum_ctx \<Rightarrow> bool" where
  "stratum_wf s \<longleftrightarrow> job_wf (s_job s) \<and> length (s_xnonce1 s) = s_xnonce1_size s \<and> s_xnonce2_size s \<le> 16 \<and>
     work_wf (s_work s)"

lemma length_hex2bin [layout]: "length (snd (hex2bin s n)) \<le> n"
  using hex2bin_length [of s n "fst (hex2bin s n)" "snd (hex2bin s n)"] by simp

lemma length_memcpy_hex [layout, simp]:
  "off + n \<le> length dst \<Longrightarrow> length (memcpy_at dst off (snd (hex2bin s n))) = length dst"
  using length_hex2bin [of s n] by (simp add: length_memcpy_at)

lemma merkle_branch_lengths: "merkle_branch junk vs = Some ms \<Longrightarrow> m \<in> set ms \<Longrightarrow> length m = 32"
  by (induction vs arbitrary: ms) (auto split: option.splits if_splits)

text \<open>For the one algorithm that is built, the notification has no extra parameter.\<close>

lemma notify_parse_sha256d:
  assumes "notify_parse get_currentalgo junk params = Some np"
  shows "n_extra np = None \<and> (\<exists>arr. json_array_get params 4 = Some (JArray arr) \<and> merkle_branch junk arr = Some (n_merkle np))"
  using assms unfolding notify_parse_def get_currentalgo_def Let_def
  by (clarsimp split: if_splits option.splits json.splits)

lemma notify_parse_merkle:
  "notify_parse get_currentalgo junk params = Some np \<Longrightarrow> m \<in> set (n_merkle np) \<Longrightarrow> length m = 32"
  using notify_parse_sha256d merkle_branch_lengths by blast

lemma length_realloc [layout, simp]: "length (realloc junk bs n) = n"
  by (simp add: realloc_def)

lemma notify_coinbase_size:
  assumes "length (s_xnonce1 sctx) = s_xnonce1_size sctx" "notify_coinbase junk np sctx = (cb, x2)"
  shows "length cb = length (n_coinb1 np) div 2 + s_xnonce1_size sctx + s_xnonce2_size sctx + length (n_coinb2 np) div 2"
    "x2 = length (n_coinb1 np) div 2 + s_xnonce1_size sctx"
proof -
  let ?n1 = "length (n_coinb1 np) div 2" and ?n2 = "length (n_coinb2 np) div 2"
  let ?n = "?n1 + s_xnonce1_size sctx + s_xnonce2_size sctx + ?n2"
  define a where "a = memcpy_at (realloc junk (j_coinbase (s_job sctx)) ?n) 0 (snd (hex2bin (n_coinb1 np) ?n1))"
  define b where "b = memcpy_at a ?n1 (take (s_xnonce1_size sctx) (s_xnonce1 sctx))"
  define c where "c = (if j_job_id (s_job sctx) \<noteq> Some (n_job_id np)
      then memcpy_at b (?n1 + s_xnonce1_size sctx) (replicate (s_xnonce2_size sctx) 0) else b)"
  have "length a = ?n" by (simp add: a_def)
  then have "length b = ?n" using assms(1) by (simp add: b_def length_memcpy_at)
  then have "length c = ?n" by (simp add: c_def length_memcpy_at)
  moreover have e: "(memcpy_at c (?n1 + s_xnonce1_size sctx + s_xnonce2_size sctx) (snd (hex2bin (n_coinb2 np) ?n2)),
      ?n1 + s_xnonce1_size sctx) = (cb, x2)"
    using assms(2) unfolding notify_coinbase_def Let_def a_def b_def c_def .
  ultimately show "length cb = ?n" by auto
  show "x2 = ?n1 + s_xnonce1_size sctx" using e by simp
qed

lemma stratum_notify_wf:
  assumes "stratum_wf sctx" "stratum_notify junk sctx params = Some (ok, sctx')"
  shows "stratum_wf sctx'"
  using assms notify_parse_merkle notify_parse_sha256d
  by (auto simp: stratum_notify_def stratum_wf_def job_wf_def Let_def split: option.splits prod.splits)

lemma stratum_parse_extranonce_wf:
  assumes "stratum_wf sctx" shows "stratum_wf (snd (stratum_parse_extranonce sctx params p))"
  using assms by (auto simp: stratum_parse_extranonce_def stratum_wf_def Let_def split: option.splits)

lemma stratum_set_difficulty_wf: "stratum_wf sctx \<Longrightarrow> stratum_wf (snd (stratum_set_difficulty sctx params))"
  by (simp add: stratum_set_difficulty_def stratum_wf_def Let_def)

lemma stratum_disconnect_wf: "stratum_wf (stratum_disconnect sctx) = stratum_wf sctx"
  by (simp add: stratum_disconnect_def stratum_wf_def)

lemma stratum_reconnect_wf: "stratum_wf sctx \<Longrightarrow> stratum_wf (snd (stratum_reconnect redirect sctx params))"
  by (auto simp: stratum_reconnect_def Let_def stratum_disconnect_wf split: option.splits) (simp_all add: stratum_wf_def)

definition state_wf :: "stratum_state \<Rightarrow> bool" where
  "state_wf st \<longleftrightarrow> stratum_wf (st_sctx st) \<and> rpc2_wf (st_rpc2 st) \<and> work_wf (st_g_work st)"

lemma work_copy_wf [simp]: "work_wf w \<Longrightarrow> work_wf (work_copy w)"
  by (auto simp: work_wf_def work_copy_def Let_def split: option.splits)

lemma rpc2_stratum_job_wf:
  assumes "stratum_wf sctx" "work_wf g" "rpc2_wf r"
    "rpc2_stratum_job jsonrpc_2 params sctx g t r = Some (ret, sctx', g', t', r')"
  shows "stratum_wf sctx' \<and> work_wf g' \<and> rpc2_wf r'"
proof -
  obtain w v where dec: "rpc2_job_decode jsonrpc_2 params (Some (s_work sctx)) r = Some (ret, w, v)"
    using assms(4) by (auto simp: rpc2_stratum_job_def Let_def split: option.splits if_splits)
  have "rpc2_wf v \<and> (\<exists>x. w = Some x \<and> work_wf x)"
    using rpc2_job_decode_layout [OF assms(3) _ dec] assms(1) by (simp add: stratum_wf_def)
  then show ?thesis
    using assms(1,2,4) dec by (auto simp: rpc2_stratum_job_def Let_def stratum_wf_def split: if_splits)
qed

lemma send_line_recv [simp]: "io_recv (snd (stratum_send_line s io)) = io_recv io"
  by (simp add: stratum_send_line_def split: prod.split)

lemma reply_recv [simp]:
  "io_recv (snd (stratum_pong rid io)) = io_recv io"
  "io_recv (snd (stratum_get_algo dumps rid io)) = io_recv io"
  "io_recv (snd (stratum_get_stats dumps opts rid io)) = io_recv io"
  "io_recv (snd (stratum_get_version dumps rid io)) = io_recv io"
  "io_recv (snd (stratum_show_message dumps rid io)) = io_recv io"
  "io_recv (snd (stratum_unknown_method dumps rid io)) = io_recv io"
  by (simp_all add: stratum_pong_def stratum_get_algo_def stratum_get_stats_def stratum_get_version_def
      stratum_show_message_def stratum_unknown_method_def)

text \<open>The result of a message whose method is \<open>m\<close>, by the two protocols.\<close>

lemma handle_method_cases:
  assumes "stratum_handle_method loads dumps junk opts s st = Some (ok, st')"
  obtains (unchanged) "\<not> ok" "st' = st"
  | (job) params where "so_jsonrpc_2 opts" "rpc2_stratum_job True params (st_sctx st) (st_g_work st) (st_g_work_time st) (st_rpc2 st) =
        Some (ok, st_sctx st', st_g_work st', st_g_work_time st', st_rpc2 st')" "st_io st' = st_io st"
  | (notify) params sctx where "\<not> so_jsonrpc_2 opts" "stratum_notify junk (st_sctx st) params = Some (ok, sctx)"
      "st' = st\<lparr>st_sctx := sctx\<rparr>"
  | (ctx) sctx where "\<not> so_jsonrpc_2 opts" "st' = st\<lparr>st_sctx := sctx\<rparr>"
      "\<exists>params. (ok, sctx) \<in> {stratum_set_difficulty (st_sctx st) params, stratum_parse_extranonce (st_sctx st) params 0,
         stratum_reconnect (so_redirect opts) (st_sctx st) params}"
  | (reply) io where "\<not> so_jsonrpc_2 opts" "st' = st\<lparr>st_io := io\<rparr>" "io_recv io = io_recv (st_io st)"
proof (cases "json_string_value (json_object_get (loads s) ''method'')")
  case None
  then show ?thesis using assms unchanged by (simp add: stratum_handle_method_def Let_def split: if_splits)
next
  case (Some m)
  define params where "params = json_object_get (loads s) ''params''"
  have val: "loads s \<noteq> None" using Some by (cases "loads s") auto
  note h = assms [unfolded stratum_handle_method_def Let_def, folded params_def]
  show ?thesis
  proof (cases "so_jsonrpc_2 opts")
    case True
    then show ?thesis
      using h Some val unchanged job [of params] by (auto split: if_splits option.splits)
  next
    case False
    show ?thesis
      using h Some val False notify [of params] ctx reply
      by (auto simp: with_io_def with_ctx_def split: if_splits option.splits)
        (metis insertI1 insert_iff prod.collapse)+
  qed
qed

lemma handle_method_state_wf:
  assumes "state_wf st" "stratum_handle_method loads dumps junk opts s st = Some (ok, st')"
  shows "state_wf st'"
  using assms(2)
proof (cases rule: handle_method_cases)
  case (job params)
  then show ?thesis using assms(1) rpc2_stratum_job_wf [OF _ _ _ job(2)] by (simp add: state_wf_def)
next
  case (notify params sctx)
  then show ?thesis using assms(1) stratum_notify_wf [OF _ notify(2)] by (simp add: state_wf_def)
next
  case (ctx sctx)
  then have "stratum_wf sctx"
    using assms(1) stratum_set_difficulty_wf [of "st_sctx st"] stratum_parse_extranonce_wf [of "st_sctx st"]
      stratum_reconnect_wf [of "st_sctx st"] by (auto simp: state_wf_def) (metis snd_conv)+
  then show ?thesis using assms(1) ctx(2) by (simp add: state_wf_def)
qed (use assms(1) in \<open>simp_all add: state_wf_def\<close>)

section \<open>The input of the connection\<close>

text \<open>The characters that are still to be read. Every line takes at least one of them, so the wait for
  an answer ends.\<close>

fun event_chars :: "recv_event \<Rightarrow> nat" where
  "event_chars (Recv s _) = length s"
| "event_chars _ = 0"

definition input_left :: "stratum_ctx \<Rightarrow> io \<Rightarrow> nat" where
  "input_left sctx io = length (s_sockbuf sctx) + sum_list (map event_chars (io_recv io))"

lemma recv_loop_chars:
  "recv_loop evs sctx = (ok, sctx', evs') \<Longrightarrow>
    length (s_sockbuf sctx') + sum_list (map event_chars evs') \<le> length (s_sockbuf sctx) + sum_list (map event_chars evs)"
proof (induction evs sctx rule: recv_loop.induct)
  case (5 s in_time evs sctx)
  have "s_sockbuf (stratum_buffer_append x sctx) = s_sockbuf sctx @ x" for x
    by (simp add: stratum_buffer_append_def Let_def)
  with 5 show ?case by (fastforce simp: Let_def split: if_splits)
qed (auto split: if_splits)

lemma take_line_shorter: "take_line buf = Some (line, rest) \<Longrightarrow> length rest < length buf"
  by (cases buf) (auto simp: take_line_def strtok_def Let_def split: if_splits prod.splits)

lemma recv_line_chars:
  assumes "recv_line sctx io = (Some line, sctx', io')"
  shows "input_left sctx' io' < input_left sctx io"
proof -
  obtain ready io1 where r: "(if newline \<in> set (s_sockbuf sctx) then (True, io) else socket_full io) = (ready, io1)"
    by (metis surj_pair)
  then have io1: "io_recv io1 = io_recv io" by (auto simp: socket_full_def split: if_splits list.splits)
  obtain ok sctx1 evs where l: "(if newline \<in> set (s_sockbuf sctx) then (True, sctx, io_recv io)
       else if \<not> ready then (False, sctx, io_recv io) else recv_loop (io_recv io) sctx) = (ok, sctx1, evs)"
    by (metis surj_pair)
  then have "length (s_sockbuf sctx1) + sum_list (map event_chars evs) \<le> input_left sctx io"
    using recv_loop_chars [of "io_recv io" sctx ok sctx1 evs] by (auto simp: input_left_def split: if_splits)
  moreover have "length (s_sockbuf sctx') < length (s_sockbuf sctx1) \<and> io_recv io' = evs"
    using assms unfolding recv_line_def r stratum_recv_line_def prod.case io1 l
    by (auto dest: take_line_shorter split: if_splits option.splits)
  ultimately show ?thesis by (simp add: input_left_def)
qed

lemma handle_method_chars:
  assumes "stratum_handle_method loads dumps junk opts s st = Some (ok, st')"
  shows "input_left (st_sctx st') (st_io st') \<le> input_left (st_sctx st) (st_io st)"
proof -
  have job: "s_sockbuf sctx' = s_sockbuf sctx" if "rpc2_stratum_job b params sctx g t r = Some (ret, sctx', g', t', r')"
    for b params sctx g t r ret sctx' g' t' r'
    using that by (auto simp: rpc2_stratum_job_def Let_def split: option.splits if_splits)
  have notify: "s_sockbuf sctx' = s_sockbuf sctx" if "stratum_notify junk sctx params = Some (ok, sctx')" for sctx params sctx'
    using that by (auto simp: stratum_notify_def Let_def split: option.splits prod.splits)
  have ctx: "length (s_sockbuf sctx') \<le> length (s_sockbuf sctx)"
    if "(ok, sctx') \<in> {stratum_set_difficulty sctx params, stratum_parse_extranonce sctx params 0, stratum_reconnect b sctx params}"
    for sctx params sctx' b
    using that by (auto simp: stratum_set_difficulty_def stratum_parse_extranonce_def stratum_reconnect_def
        stratum_disconnect_def Let_def split: option.splits if_splits)
  show ?thesis
    using assms
  proof (cases rule: handle_method_cases)
    case (reply io)
    then show ?thesis by (simp add: input_left_def)
  qed (use job notify ctx in \<open>fastforce simp: input_left_def\<close>)+
qed

lemma authorize_wait_fuel:
  assumes "input_left (st_sctx st) (st_io st) < fuel"
  shows "authorize_wait (fuel + k) loads dumps junk opts st = authorize_wait fuel loads dumps junk opts st"
  using assms
proof (induction fuel arbitrary: st)
  case (Suc fuel)
  obtain line sctx io where r: "recv_line (st_sctx st) (st_io st) = (line, sctx, io)" by (metis surj_pair)
  let ?st = "st\<lparr>st_sctx := sctx, st_io := io\<rparr>"
  have "authorize_wait (fuel + k) loads dumps junk opts st' = authorize_wait fuel loads dumps junk opts st'"
    if "line = Some sret" "stratum_handle_method loads dumps junk opts sret ?st = Some (ok, st')" for sret ok st'
    using Suc.IH [of st'] Suc.prems recv_line_chars [of "st_sctx st" "st_io st" sret sctx io] r that
      handle_method_chars [OF that(2)] by simp
  then show ?case by (simp add: r Let_def split: option.split bool.split prod.split)
qed simp

section \<open>The coinbase of a notification\<close>

text \<open>Bytes written one after the other into a buffer of their total size.\<close>

lemma memcpy_four:
  assumes "length buf = length a + length b + length c + length d"
  shows "memcpy_at (memcpy_at (memcpy_at (memcpy_at buf 0 a) (length a) b) (length a + length b) c)
      (length a + length b + length c) d = a @ b @ c @ d"
    "memcpy_at (memcpy_at (memcpy_at buf 0 a) (length a) b) (length a + length b + length c) d =
      a @ b @ take (length c) (drop (length a + length b) buf) @ d"
  using assms by (simp_all add: memcpy_at_def take_drop add.commute add.left_commute add.assoc)

lemma hex2bin_whole: "hex2bin (bin2hex b (length b)) (length b) = (True, b)"
  using hex2bin_bin2hex_gen [of "length b" b "[]"] by simp

lemma notify_coinbase_layout:
  assumes "length (s_xnonce1 sctx) = s_xnonce1_size sctx"
    "n_coinb1 np = bin2hex b1 (length b1)" "n_coinb2 np = bin2hex b2 (length b2)"
  shows "notify_coinbase junk np sctx =
    (b1 @ s_xnonce1 sctx @
       (if j_job_id (s_job sctx) \<noteq> Some (n_job_id np) then replicate (s_xnonce2_size sctx) 0
        else take (s_xnonce2_size sctx) (drop (length b1 + s_xnonce1_size sctx)
          (realloc junk (j_coinbase (s_job sctx)) (length b1 + s_xnonce1_size sctx + s_xnonce2_size sctx + length b2)))) @ b2,
     length b1 + s_xnonce1_size sctx)"
  using memcpy_four [of "realloc junk (j_coinbase (s_job sctx)) (length b1 + s_xnonce1_size sctx + s_xnonce2_size sctx + length b2)"
      b1 "s_xnonce1 sctx" "replicate (s_xnonce2_size sctx) (0 :: u8)" b2] assms
  by (simp add: notify_coinbase_def Let_def length_bin2hex hex2bin_whole)

section \<open>Block height\<close>

lemma height_skip_to:
  assumes "\<forall>i. p \<le> i \<and> i < n \<longrightarrow> (cb ! i = 0xff) = tag" "(cb ! n = 0xff) \<noteq> tag" "p \<le> n" "n \<le> 160" "n < length cb"
  shows "height_skip cb tag p = Some n"
  using assms
proof (induction cb tag p rule: height_skip.induct)
  case (1 cb tag p)
  then show ?case by (cases "p = n") (auto simp: height_skip.simps [of cb tag p] height_skip.simps [of cb tag n])
qed

lemma unat_le_pair:
  fixes x :: u16 and y :: "'a::len word"
  assumes "unat y < 65536"
  shows "unat (ucast x + 0x10000 * ucast y :: u32) = unat x + 65536 * unat y"
proof -
  have x: "unat x < 65536" using unsigned_less [where 'a=nat, of x] by simp
  have "unat (ucast y :: u32) = unat y" using assms by (simp add: unsigned_ucast_eq take_bit_eq_mod)
  then have "unat (0x10000 * ucast y :: u32) = 65536 * unat y" using assms by (simp add: unat_word_ariths)
  moreover have "unat (ucast x :: u32) = unat x" using x by (simp add: unsigned_ucast_eq take_bit_eq_mod)
  ultimately show ?thesis using assms x by (simp add: unat_word_ariths)
qed

lemma unat_le16dec: "unat (le16dec (a # b # bs)) = unat a + 256 * unat b"
proof -
  have ab: "unat a < 256" "unat b < 256" using unsigned_less [where 'a=nat, of a] unsigned_less [where 'a=nat, of b] by simp_all
  have "unat (ucast a :: u16) = unat a" "unat (ucast b :: u16) = unat b"
    using ab by (simp_all add: unsigned_ucast_eq take_bit_eq_mod)
  moreover from this(2) have "unat (push_bit 8 (ucast b) :: u16) = 256 * unat b"
    using ab by (simp add: push_bit_eq_mult unat_word_ariths)
  ultimately show ?thesis using ab by (simp add: le16dec_def unat_word_ariths)
qed

text \<open>The bytes of a height as the code reads them.\<close>

lemma height_bytes:
  "length h \<in> {2, 3, 4} \<Longrightarrow>
   unat (if length h = 4 then ucast (le16dec (h @ rest)) + 0x10000 * ucast (le16dec (drop 2 h @ rest))
     else if length h = 3 then ucast (le16dec (h @ rest)) + 0x10000 * ucast ((drop 2 h @ rest) ! 0)
     else ucast (le16dec (h @ rest)) :: u32) = le_val h"
  for h :: "u8 list"
proof -
  have b: "unat x < 256" for x :: u8 using unsigned_less [where 'a=nat, of x] by simp
  have two: "unat (le16dec (x # y # zs)) < 65536" for x y zs using unsigned_less [where 'a=nat, of "le16dec (x # y # zs)"] by simp
  have up: "unat (ucast w :: u32) = unat w" for w :: u16
    using unsigned_less [where 'a=nat, of w] by (simp add: unsigned_ucast_eq take_bit_eq_mod)
  assume "length h \<in> {2, 3, 4}"
  then consider (2) x y where "h = [x, y]" | (3) x y z where "h = [x, y, z]" | (4) x y z w where "h = [x, y, z, w]"
    by (auto simp: length_Suc_conv eval_nat_numeral)
  then show ?thesis
  proof cases
    case 2
    then show ?thesis by (simp add: up unat_le16dec)
  next
    case 3
    then show ?thesis using b [of z] by (simp add: unat_le_pair unat_le16dec)
  next
    case 4
    then show ?thesis using two [of z w] by (simp add: unat_le_pair unat_le16dec)
  qed
qed

lemma getblocheight_at:
  assumes "height_skip cb False 32 = Some n" "height_skip cb True n = Some p" "cb ! (p - 1) = 0xff" "cb ! (p - 2) = 0xff"
    "cb ! (p + 1) = hlen" "drop (p + 2) cb = h @ rest" "drop (p + 4) cb = drop 2 h @ rest" "length h = unat hlen" "length h \<in> {2, 3, 4}"
  shows "map_option unat (getblocheight cb) = Some (le_val h)"
proof -
  have len: "length cb - (p + 2) = length h + length rest" using arg_cong [OF assms(6), of length] by simp
  have "cb ! (p + 4) = (drop 2 h @ rest) ! 0" if "p + 4 < length cb"
    using that by (simp flip: assms(7))
  moreover have "hlen = 4 \<longleftrightarrow> length h = 4" "hlen = 3 \<longleftrightarrow> length h = 3"
    using assms(8) by (auto simp: word_unat_eq_iff)
  moreover have "\<not> length cb \<le> p + 3" "length h = 4 \<Longrightarrow> \<not> length cb \<le> p + 5" "length h = 3 \<Longrightarrow> \<not> length cb \<le> p + 4"
    using len assms(9) by auto
  ultimately have "getblocheight cb = Some (if length h = 4 then ucast (le16dec (h @ rest)) + 0x10000 * ucast (le16dec (drop 2 h @ rest))
     else if length h = 3 then ucast (le16dec (h @ rest)) + 0x10000 * ucast ((drop 2 h @ rest) ! 0)
     else ucast (le16dec (h @ rest)))"
    unfolding getblocheight_def Let_def assms(1,2) option.case assms(3-7) by (simp only: not_le simp_thms if_True if_False) (auto simp: not_le)
  then show ?thesis using height_bytes [OF assms(9), of rest] by simp
qed

lemma getblocheight_coinbase:
  assumes "32 \<le> length pre" "length pre \<le> 156" "0xff \<notin> set (drop 32 pre)" "slen \<noteq> 0xff"
    "length h = unat hlen" "length h \<in> {2, 3, 4}"
  shows "map_option unat (getblocheight (pre @ replicate 4 0xff @ slen # hlen # h @ rest)) = Some (le_val h)"
proof -
  define cb where "cb = pre @ replicate 4 0xff @ slen # hlen # h @ rest"
  define n where "n = length pre"
  have nth4: "cb ! (n + i) = 0xff" if "i < 4" for i using that by (simp add: cb_def n_def nth_append)
  have p: "cb ! (n + 4) = slen" "cb ! (n + 4 + 1) = hlen" "drop (n + 4 + 2) cb = h @ rest" "n + 6 + length h \<le> length cb"
    by (simp_all add: cb_def n_def nth_append)
  have d: "drop (n + 4 + 4) cb = drop 2 h @ rest" using assms(6) by (auto simp: cb_def n_def)
  have "cb ! i \<noteq> 0xff" if "32 \<le> i" "i < n" for i
  proof -
    have "drop 32 pre ! (i - 32) \<in> set (drop 32 pre)" using that by (intro nth_mem) (simp add: n_def)
    then show ?thesis using assms(3) that by (auto simp: cb_def n_def nth_append)
  qed
  then have s1: "height_skip cb False 32 = Some n"
    using assms(1,2) nth4 [of 0] p(4) by (intro height_skip_to) (auto simp: n_def)
  have "cb ! i = 0xff" if "n \<le> i" "i < n + 4" for i
    using nth4 [of "i - n"] that by simp
  note run = this
  have ff: "cb ! (n + 4 - 1) = 0xff" "cb ! (n + 4 - 2) = 0xff" by (rule run; simp)+
  have s2: "height_skip cb True n = Some (n + 4)"
    using run assms(2,4) p(1,4) by (intro height_skip_to) (auto simp: n_def)
  show ?thesis using getblocheight_at [OF s1 s2 ff p(2,3) d assms(5,6)] by (simp only: cb_def)
qed

lemma authorize_wait_some:
  assumes "input_left (st_sctx st) (st_io st) < fuel" "\<forall>s st. stratum_handle_method loads dumps junk opts s st \<noteq> None"
  shows "\<exists>r. authorize_wait fuel loads dumps junk opts st = Some r"
  using assms(1)
proof (induction fuel arbitrary: st)
  case (Suc fuel)
  obtain line sctx io where r: "recv_line (st_sctx st) (st_io st) = (line, sctx, io)" by (metis surj_pair)
  let ?st = "st\<lparr>st_sctx := sctx, st_io := io\<rparr>"
  show ?case
  proof (cases line)
    case None
    then show ?thesis by (simp add: r)
  next
    case (Some sret)
    obtain ok st' where h: "stratum_handle_method loads dumps junk opts sret ?st = Some (ok, st')"
      using assms(2) by (metis not_None_eq surj_pair)
    have "input_left (st_sctx st') (st_io st') < fuel"
      using handle_method_chars [OF h] recv_line_chars [of "st_sctx st" "st_io st" sret sctx io] r Some Suc.prems by simp
    from Suc.IH [OF this] show ?thesis by (cases ok) (simp_all add: r Some h)
  qed
qed simp

section \<open>Properties\<close>

definition io0 :: io where
  "io0 = \<lparr>io_send = [Sent 1000], io_recv = [], io_ready = [], io_out = []\<rparr>"

definition stratum_state0 :: stratum_state where
  "stratum_state0 = \<lparr>st_sctx = stratum0, st_io = io0, st_rpc2 = rpc2_sample, st_g_work = work0, st_g_work_time = 0\<rparr>"

lemma state_wf0: "state_wf stratum_state0"
  by (simp add: state_wf_def stratum_state0_def stratum_wf_def stratum0_def job_wf_def job0_def work_wf_def work0_def
      rpc2_wf_def rpc2_sample_def)

definition opts0 :: stratum_opts where
  "opts0 = \<lparr>so_jsonrpc_2 = False, so_redirect = True, so_extranonce = False, so_bench = None\<rparr>"

text \<open>C19: whatever text the pool sends, handling it keeps the connection well formed: the arrays of the
  job keep their sizes, every Merkle branch has 32 bytes, the first extra nonce has the recorded
  size, the second at most 16 bytes, and the work and the blob keep their layout.\<close>

theorem stratum_handle_method_wf:
  assumes "state_wf st" and "stratum_handle_method loads dumps junk opts s st = Some (ok, st')"
  shows "state_wf st'"
  using assms by (rule handle_method_state_wf)

definition extranonce_message :: json where
  "extranonce_message = JObject [(''id'', JNull), (''method'', JString ''mining.set_extranonce''),
     (''params'', JArray [JString ''0aff'', JInteger 4])]"

theorem stratum_handle_method_wf_witness:
  "\<exists>st'. stratum_handle_method (\<lambda>_. Some extranonce_message) (\<lambda>_. []) (\<lambda>_. 0) opts0 [] stratum_state0 = Some (True, st') \<and>
     s_xnonce2_size (st_sctx st') = 4 \<and> s_xnonce1 (st_sctx st') = [10, 255] \<and> state_wf st'"
proof -
  define r where "r = stratum_handle_method (\<lambda>_. Some extranonce_message) (\<lambda>_. []) (\<lambda>_. 0) opts0 [] stratum_state0"
  have "(case r of Some (ok, st') \<Rightarrow> ok \<and> s_xnonce2_size (st_sctx st') = 4 \<and> s_xnonce1 (st_sctx st') = [10, 255] | None \<Rightarrow> False)"
    unfolding r_def by code_simp
  then obtain st' where r: "r = Some (True, st')" "s_xnonce2_size (st_sctx st') = 4" "s_xnonce1 (st_sctx st') = [10, 255]"
    by (auto split: option.splits)
  then show ?thesis using stratum_handle_method_wf [OF state_wf0 r(1) [unfolded r_def]] r(1) unfolding r_def by blast
qed

text \<open>With the plain protocol, a message that is refused changes nothing but the bytes sent as an
  error answer: connection, job, difficulty and the global work stay as they were.\<close>

theorem stratum_handle_method_refused:
  assumes "\<not> so_jsonrpc_2 opts" and "stratum_handle_method loads dumps junk opts s st = Some (False, st')"
  shows "\<exists>io. st' = st\<lparr>st_io := io\<rparr> \<and> io_recv io = io_recv (st_io st)"
  using assms(2)
proof (cases rule: handle_method_cases)
  case (notify params sctx)
  then have "sctx = st_sctx st" by (auto simp: stratum_notify_def Let_def split: option.splits prod.splits)
  with notify show ?thesis by (auto intro!: exI [of _ "st_io st"])
next
  case (ctx sctx)
  then have "sctx = st_sctx st"
    by (auto simp: stratum_set_difficulty_def stratum_parse_extranonce_def stratum_reconnect_def Let_def
        split: option.splits if_splits)
  with ctx show ?thesis by (auto intro!: exI [of _ "st_io st"])
next
  case unchanged
  then show ?thesis by (auto intro!: exI [of _ "st_io st"])
qed (use assms(1) in auto)

definition bad_extranonce_message :: json where
  "bad_extranonce_message = JObject [(''id'', JNull), (''method'', JString ''mining.set_extranonce''),
     (''params'', JArray [JString ''0aff'', JInteger 17])]"

theorem stratum_handle_method_refused_witness:
  "\<not> so_jsonrpc_2 opts0 \<and> (\<exists>st'. stratum_handle_method (\<lambda>_. Some bad_extranonce_message) (\<lambda>_. []) (\<lambda>_. 0) opts0 [] stratum_state0
     = Some (False, st') \<and> (\<exists>io. st' = stratum_state0\<lparr>st_io := io\<rparr> \<and> io_recv io = io_recv (st_io stratum_state0)))"
proof -
  define r where "r = stratum_handle_method (\<lambda>_. Some bad_extranonce_message) (\<lambda>_. []) (\<lambda>_. 0) opts0 [] stratum_state0"
  have "map_option fst r = Some False" unfolding r_def by code_simp
  then obtain st' where r: "r = Some (False, st')" by auto
  have o: "\<not> so_jsonrpc_2 opts0" by (simp add: opts0_def)
  show ?thesis using stratum_handle_method_refused [OF o r [unfolded r_def]] r o unfolding r_def by blast
qed

text \<open>C20: a new job with well formed hexadecimal coinbase parts puts the first part, the first extra nonce,
  a cleared second extra nonce and the second part into the coinbase, one after the other, and
  records where the second extra nonce starts and the difficulty to use with the job.\<close>

theorem stratum_notify_new_job:
  assumes "stratum_wf sctx"
    and "notify_parse get_currentalgo junk params = Some np"
    and "n_coinb1 np = bin2hex b1 (length b1)" and "n_coinb2 np = bin2hex b2 (length b2)"
    and "j_job_id (s_job sctx) \<noteq> Some (n_job_id np)"
    and "stratum_notify junk sctx params = Some (ok, sctx')"
  shows "ok \<and> j_coinbase (s_job sctx') = b1 @ s_xnonce1 sctx @ replicate (s_xnonce2_size sctx) 0 @ b2 \<and>
     j_xnonce2 (s_job sctx') = length b1 + length (s_xnonce1 sctx) \<and> j_job_id (s_job sctx') = Some (n_job_id np) \<and>
     j_merkle (s_job sctx') = n_merkle np \<and> j_diff (s_job sctx') = s_next_diff sctx"
  using assms notify_coinbase_layout [of sctx np b1 b2 junk]
  by (auto simp: stratum_notify_def stratum_wf_def Let_def split: option.splits)

definition sample_coinb1 :: "u8 list" where
  "sample_coinb1 = replicate 37 0 @ replicate 4 0xff @ [4, 3, 0x20, 0xa1, 0x07]"

definition sample_notify :: json where
  "sample_notify = JArray [JString ''a1'', JString (replicate 64 (CHR 0x30)), JString (bin2hex sample_coinb1 (length sample_coinb1)),
     JString ''ff00'', JArray [], JString ''00000002'', JString ''1d00ffff'', JString ''5f000000'', JTrue]"

theorem stratum_notify_new_job_witness:
  "\<exists>sctx'. stratum_notify (\<lambda>_. 0) stratum0 (Some sample_notify) = Some (True, sctx') \<and>
     j_coinbase (s_job sctx') = sample_coinb1 @ [0xff, 0]"
proof -
  define n where "n = stratum_notify (\<lambda>_. 0) stratum0 (Some sample_notify)"
  define p where "p = notify_parse get_currentalgo (\<lambda>_. 0) (Some sample_notify)"
  have wf: "stratum_wf stratum0" using state_wf0 by (simp add: state_wf_def stratum_state0_def)
  have "map_option (\<lambda>np. (n_coinb1 np, n_coinb2 np, n_job_id np)) p =
      Some (bin2hex sample_coinb1 (length sample_coinb1), bin2hex [0xff, 0] (length [0xff, 0 :: u8]), ''a1'')"
    unfolding p_def by code_simp
  then obtain np where p: "p = Some np" "n_coinb1 np = bin2hex sample_coinb1 (length sample_coinb1)"
      "n_coinb2 np = bin2hex [0xff, 0] (length [0xff, 0 :: u8])" by auto
  have "n \<noteq> None" unfolding n_def by code_simp
  then obtain ok sctx' where n: "n = Some (ok, sctx')" by auto
  have "j_job_id (s_job stratum0) \<noteq> Some (n_job_id np)" by (simp add: stratum0_def job0_def)
  from stratum_notify_new_job [OF wf p(1) [unfolded p_def] p(2,3) this n [unfolded n_def]] n
  show ?thesis by (simp add: n_def stratum0_def)
qed

text \<open>The block height is read from the coinbase as the pushed little endian number after the
  all-ones output index of a coinbase input.\<close>

theorem getblocheight_reads:
  assumes "32 \<le> length pre" and "length pre \<le> 156" and "0xff \<notin> set (drop 32 pre)" and "slen \<noteq> 0xff"
    and "length h = unat hlen" and "length h \<in> {2, 3, 4}"
  shows "map_option unat (getblocheight (pre @ replicate 4 0xff @ slen # hlen # h @ rest)) = Some (le_val h)"
  using assms by (rule getblocheight_coinbase)

theorem getblocheight_reads_witness:
  "map_option unat (getblocheight (replicate 37 0 @ replicate 4 0xff @ 4 # 3 # [0x20, 0xa1, 0x07] @ [])) = Some 500000"
  using getblocheight_reads [of "replicate 37 0" 4 "[0x20, 0xa1, 0x07]" 3 "[]"] by simp



end
