(* ===== verification/Sha256_Midstate.thy ===== *)
theory Sha256_Midstate
  imports Sha256d
begin

text \<open>
  The nonce loop of the miner does not hash whole headers: \<^verbatim>\<open>sha256d_preextend\<close>,
  \<^verbatim>\<open>sha256d_prehash\<close> and \<^verbatim>\<open>sha256d_ms\<close> of \<^verbatim>\<open>algo/sha2.c\<close> precompute what does not depend on the
  nonce, drop the terms that the header padding makes zero and stop the second hash
  after 61 rounds. The result here is that word 7 of the digest is nevertheless the one
  of the full double hash, and that the precomputed words survive the call.
\<close>

section \<open>The C functions\<close>

text \<open>A run of assignments \<open>W[i] = e\<close>, each reading the array the ones before it left.\<close>

definition stores :: "(nat \<times> (u32 list \<Rightarrow> u32)) list \<Rightarrow> u32 list \<Rightarrow> u32 list" where
  "stores ss W = fold (\<lambda>(i, f) W. W[i := f W]) ss W"

definition sha256d_preextend :: "u32 list \<Rightarrow> u32 list" where
  "sha256d_preextend = stores [
     (16, \<lambda>W. smallS1 (W ! 14) + W ! 9 + smallS0 (W ! 1) + W ! 0),
     (17, \<lambda>W. smallS1 (W ! 15) + W ! 10 + smallS0 (W ! 2) + W ! 1),
     (18, \<lambda>W. smallS1 (W ! 16) + W ! 11 + W ! 2),
     (19, \<lambda>W. smallS1 (W ! 17) + W ! 12 + smallS0 (W ! 4)),
     (20, \<lambda>W. W ! 13 + smallS0 (W ! 5) + W ! 4),
     (21, \<lambda>W. W ! 14 + smallS0 (W ! 6) + W ! 5),
     (22, \<lambda>W. W ! 15 + smallS0 (W ! 7) + W ! 6),
     (23, \<lambda>W. W ! 16 + smallS0 (W ! 8) + W ! 7),
     (24, \<lambda>W. W ! 17 + smallS0 (W ! 9) + W ! 8),
     (25, \<lambda>W. smallS0 (W ! 10) + W ! 9),
     (26, \<lambda>W. smallS0 (W ! 11) + W ! 10),
     (27, \<lambda>W. smallS0 (W ! 12) + W ! 11),
     (28, \<lambda>W. smallS0 (W ! 13) + W ! 12),
     (29, \<lambda>W. smallS0 (W ! 14) + W ! 13),
     (30, \<lambda>W. smallS0 (W ! 15) + W ! 14),
     (31, \<lambda>W. smallS0 (W ! 16) + W ! 15)]"

definition sha256d_prehash :: "u32 list \<Rightarrow> u32 list \<Rightarrow> u32 list" where
  "sha256d_prehash S W = RNDr W 2 (RNDr W 1 (RNDr W 0 S))"

text \<open>\<^verbatim>\<open>sha256d_ms\<close> in the order of its statements: the words of \<open>W\<close> that the call changes are
  saved in the unused part of \<open>S\<close>, \<open>W\<close> is completed for this nonce, \<dots>\<close>

definition ms_save :: "u32 list \<Rightarrow> u32 list \<Rightarrow> u32 list" where
  "ms_save W S =
    (let S = S[18 := W ! 18]; S = S[19 := W ! 19]; S = S[20 := W ! 20]; S = S[22 := W ! 22];
         S = S[23 := W ! 23]; S = S[24 := W ! 24]; S = S[30 := W ! 30]
     in S[31 := W ! 31])"

definition ms_extend_stores :: "(nat \<times> (u32 list \<Rightarrow> u32)) list" where
  "ms_extend_stores = [
     (18, \<lambda>W. W ! 18 + smallS0 (W ! 3)),
     (19, \<lambda>W. W ! 19 + W ! 3),
     (20, \<lambda>W. W ! 20 + smallS1 (W ! 18)),
     (21, \<lambda>W. smallS1 (W ! 19)),
     (22, \<lambda>W. W ! 22 + smallS1 (W ! 20)),
     (23, \<lambda>W. W ! 23 + smallS1 (W ! 21)),
     (24, \<lambda>W. W ! 24 + smallS1 (W ! 22)),
     (25, \<lambda>W. smallS1 (W ! 23) + W ! 18),
     (26, \<lambda>W. smallS1 (W ! 24) + W ! 19),
     (27, \<lambda>W. smallS1 (W ! 25) + W ! 20),
     (28, \<lambda>W. smallS1 (W ! 26) + W ! 21),
     (29, \<lambda>W. smallS1 (W ! 27) + W ! 22),
     (30, \<lambda>W. W ! 30 + (smallS1 (W ! 28) + W ! 23)),
     (31, \<lambda>W. W ! 31 + (smallS1 (W ! 29) + W ! 24))]"

definition ms_extend :: "u32 list \<Rightarrow> u32 list" where
  "ms_extend W = sched_loop 32 64 (stores ms_extend_stores W)"

text \<open>\dots the first hash is finished and \<open>W\<close> is restored, \dots\<close>

definition ms_restore :: "u32 list \<Rightarrow> u32 list \<Rightarrow> u32 list" where
  "ms_restore S W =
    (let W = W[18 := S ! 18]; W = W[19 := S ! 19]; W = W[20 := S ! 20]; W = W[22 := S ! 22];
         W = W[23 := S ! 23]; W = W[24 := S ! 24]; W = W[30 := S ! 30]
     in W[31 := S ! 31])"

text \<open>\dots the schedule of the second hash uses that half of its block is constant, \dots\<close>

definition ms_extend2_stores :: "u32 list \<Rightarrow> (nat \<times> (u32 list \<Rightarrow> u32)) list" where
  "ms_extend2_stores c = [
     (16, \<lambda>S. smallS1 (c ! 14) + c ! 9 + smallS0 (S ! 1) + S ! 0),
     (17, \<lambda>S. smallS1 (c ! 15) + c ! 10 + smallS0 (S ! 2) + S ! 1),
     (18, \<lambda>S. smallS1 (S ! 16) + c ! 11 + smallS0 (S ! 3) + S ! 2),
     (19, \<lambda>S. smallS1 (S ! 17) + c ! 12 + smallS0 (S ! 4) + S ! 3),
     (20, \<lambda>S. smallS1 (S ! 18) + c ! 13 + smallS0 (S ! 5) + S ! 4),
     (21, \<lambda>S. smallS1 (S ! 19) + c ! 14 + smallS0 (S ! 6) + S ! 5),
     (22, \<lambda>S. smallS1 (S ! 20) + c ! 15 + smallS0 (S ! 7) + S ! 6),
     (23, \<lambda>S. smallS1 (S ! 21) + S ! 16 + smallS0 (c ! 8) + S ! 7),
     (24, \<lambda>S. smallS1 (S ! 22) + S ! 17 + smallS0 (c ! 9) + c ! 8),
     (25, \<lambda>S. smallS1 (S ! 23) + S ! 18 + smallS0 (c ! 10) + c ! 9),
     (26, \<lambda>S. smallS1 (S ! 24) + S ! 19 + smallS0 (c ! 11) + c ! 10),
     (27, \<lambda>S. smallS1 (S ! 25) + S ! 20 + smallS0 (c ! 12) + c ! 11),
     (28, \<lambda>S. smallS1 (S ! 26) + S ! 21 + smallS0 (c ! 13) + c ! 12),
     (29, \<lambda>S. smallS1 (S ! 27) + S ! 22 + smallS0 (c ! 14) + c ! 13),
     (30, \<lambda>S. smallS1 (S ! 28) + S ! 23 + smallS0 (c ! 15) + c ! 14),
     (31, \<lambda>S. smallS1 (S ! 29) + S ! 24 + smallS0 (S ! 16) + c ! 15)]"

definition ms_extend2 :: "u32 list \<Rightarrow> u32 list" where
  "ms_extend2 S =
    (let S = memcpy_at S 8 (drop 8 sha256d_hash1);
         S = stores (ms_extend2_stores sha256d_hash1) S;
         S = sched_loop 32 60 S
     in S[60 := smallS1 (S ! 58) + S ! 53 + smallS0 (S ! 45) + S ! 44])"

text \<open>\dots and the last four rounds compute only the register that ends up in word 7.\<close>

definition ms_tail :: "u32 list \<Rightarrow> u32 list \<Rightarrow> u32 list" where
  "ms_tail S hash =
    (let hash = hash[2 := hash ! 2 + (hash ! 6 + bigS1 (hash ! 3) +
           Ch (hash ! 3) (hash ! 4) (hash ! 5) + S ! 57 + sha256_k ! 57)];
         hash = hash[1 := hash ! 1 + (hash ! 5 + bigS1 (hash ! 2) +
           Ch (hash ! 2) (hash ! 3) (hash ! 4) + S ! 58 + sha256_k ! 58)];
         hash = hash[0 := hash ! 0 + (hash ! 4 + bigS1 (hash ! 1) +
           Ch (hash ! 1) (hash ! 2) (hash ! 3) + S ! 59 + sha256_k ! 59)]
     in hash[7 := hash ! 7 + (hash ! 3 + bigS1 (hash ! 0) +
           Ch (hash ! 0) (hash ! 1) (hash ! 2) + S ! 60 + sha256_k ! 60 + sha256_h ! 7)])"

definition sha256d_ms :: "u32 list \<Rightarrow> u32 list \<Rightarrow> u32 list \<Rightarrow> u32 list \<Rightarrow> u32 list \<times> u32 list" where
  "sha256d_ms hash W midstate prehash =
    (let S = ms_save W (replicate 64 0);
         W = ms_extend W;
         S = memcpy_at S 0 prehash;
         S = fold (RNDr W) [3..<64] S;
         S = map2 (+) (take 8 S) midstate @ drop 8 S;
         W = ms_restore S W;
         S = ms_extend2 S;
         hash = sha256_init hash;
         hash = fold (RNDr S) [0..<57] hash
     in (ms_tail S hash, W))"

section \<open>The schedule, word by word\<close>

text \<open>\<open>sched_prefix w i X W\<close>: the words of \<open>X\<close> below \<open>i\<close> are those of the schedule \<open>w\<close>,
  the others are still those of \<open>W\<close>.\<close>

definition sched_prefix :: "(nat \<Rightarrow> u32) \<Rightarrow> nat \<Rightarrow> u32 list \<Rightarrow> u32 list \<Rightarrow> bool" where
  "sched_prefix w i X W \<longleftrightarrow>
     length X = 64 \<and> (\<forall>t < i. X ! t = w t) \<and> (\<forall>t. i \<le> t \<longrightarrow> X ! t = W ! t)"

definition sched_rec :: "(nat \<Rightarrow> u32) \<Rightarrow> nat \<Rightarrow> u32" where
  "sched_rec w t = smallS1 (w (t - 2)) + w (t - 7) + smallS0 (w (t - 15)) + w (t - 16)"

lemma wsched_rec: "16 \<le> t \<Longrightarrow> wsched M t = sched_rec (wsched M) t"
  by (subst wsched.simps) (simp add: sched_rec_def)

lemma wsched_base: "t < 16 \<Longrightarrow> wsched M t = M t"
  by (subst wsched.simps) simp

lemma sched_prefix_update:
  "sched_prefix w i X W \<Longrightarrow> i < 64 \<Longrightarrow> e = w i \<Longrightarrow> sched_prefix w (Suc i) (X[i := e]) W"
  by (auto simp: sched_prefix_def less_Suc_eq)

lemma sched_prefix_stores:
  assumes "sched_prefix (wsched M) lo X W" "16 \<le> lo" "lo + length ss \<le> 64"
    and "map fst ss = [lo..<lo + length ss]"
    and "\<forall>(i, f) \<in> set ss. \<forall>X. sched_prefix (wsched M) i X W \<longrightarrow> f X = sched_rec (wsched M) i"
  shows "sched_prefix (wsched M) (lo + length ss) (stores ss X) W"
  using assms
proof (induction ss arbitrary: lo X)
  case Nil
  then show ?case by (simp add: stores_def)
next
  case (Cons s ss)
  have "[lo..<lo + length (s # ss)] = lo # [Suc lo..<Suc lo + length ss]"
    by (simp add: upt_conv_Cons del: upt_Suc)
  then obtain f where s: "s = (lo, f)" and idx: "map fst ss = [Suc lo..<Suc lo + length ss]"
    using Cons.prems(4) by (cases s) auto
  have "sched_prefix (wsched M) (Suc lo) (X[lo := f X]) W"
    using Cons.prems s by (intro sched_prefix_update) (auto simp: wsched_rec)
  then have "sched_prefix (wsched M) (Suc lo + length ss) (stores ss (X[lo := f X])) W"
    using Cons.prems idx by (intro Cons.IH) auto
  then show ?case using s by (simp add: stores_def)
qed

lemma sched_prefix_low: "sched_prefix w i X W \<Longrightarrow> t < i \<Longrightarrow> X ! t = w t"
  by (simp add: sched_prefix_def)

lemma sched_prefix_high: "sched_prefix w i X W \<Longrightarrow> i \<le> t \<Longrightarrow> X ! t = W ! t"
  by (simp add: sched_prefix_def)

lemma smallS_zero [simp]: "smallS0 0 = 0" "smallS1 0 = 0"
  by (simp_all add: smallS0_def smallS1_def ROTR_def)

text \<open>What \<^verbatim>\<open>sha256d_preextend\<close> leaves in the array, for a block whose words 5 to 14 are zero;
  none of it depends on the nonce, which is word 3.\<close>

definition preextended :: "u32 list \<Rightarrow> bool" where
  "preextended W \<longleftrightarrow> length W = 64 \<and> (\<forall>i \<in> {5..14}. W ! i = 0) \<and>
     W ! 16 = smallS1 (W ! 14) + W ! 9 + smallS0 (W ! 1) + W ! 0 \<and>
     W ! 17 = smallS1 (W ! 15) + W ! 10 + smallS0 (W ! 2) + W ! 1 \<and>
     W ! 18 = smallS1 (W ! 16) + W ! 11 + W ! 2 \<and>
     W ! 19 = smallS1 (W ! 17) + W ! 12 + smallS0 (W ! 4) \<and>
     W ! 20 = W ! 13 + smallS0 (W ! 5) + W ! 4 \<and>
     W ! 22 = W ! 15 + smallS0 (W ! 7) + W ! 6 \<and>
     W ! 23 = W ! 16 + smallS0 (W ! 8) + W ! 7 \<and>
     W ! 24 = W ! 17 + smallS0 (W ! 9) + W ! 8 \<and>
     W ! 30 = smallS0 (W ! 15) + W ! 14 \<and>
     W ! 31 = smallS0 (W ! 16) + W ! 15"

lemma preextended_preextend:
  assumes "length W = 64" and "\<forall>i \<in> {5..14}. W ! i = 0"
  shows "preextended (sha256d_preextend W)"
  using assms by (simp add: preextended_def sha256d_preextend_def stores_def nth_list_update)

lemma sha256d_preextend_low: "length W = 64 \<Longrightarrow> i < 16 \<Longrightarrow> sha256d_preextend W ! i = W ! i"
  by (simp add: sha256d_preextend_def stores_def nth_list_update)

lemma preextended_nonce: "preextended W \<Longrightarrow> preextended (W[3 := n])"
  by (simp add: preextended_def nth_list_update)

lemma ms_extend_schedule:
  assumes W: "preextended W" and t: "t < 64"
  shows "ms_extend W ! t = wsched (\<lambda>i. W ! i) t"
proof -
  let ?w = "wsched (\<lambda>i. W ! i)"
  note pre = W [unfolded preextended_def]
  have z: "W ! i = 0" if "i \<in> {5..14}" for i
    using pre that by auto
  note zs = z [of 5, simplified] z [of 6, simplified] z [of 7, simplified] z [of 8, simplified]
    z [of 9, simplified] z [of 10, simplified] z [of 11, simplified] z [of 12, simplified]
    z [of 13, simplified] z [of 14, simplified]
  have w: "?w i = W ! i" if "i < 18" for i
  proof -
    have "?w 16 = W ! 16" "?w 17 = W ! 17"
      using wsched_rec [of 16 "\<lambda>i. W ! i"] wsched_rec [of 17 "\<lambda>i. W ! i"] pre
      by (simp_all add: sched_rec_def wsched_base)
    with that show ?thesis by (cases "i < 16") (auto simp: wsched_base numeral_eq_Suc less_Suc_eq)
  qed
  let ?ss = ms_extend_stores
  have "sched_prefix ?w (18 + length ?ss) (stores ?ss W) W"
  proof (rule sched_prefix_stores)
    show "sched_prefix ?w 18 W W" using pre w by (simp add: sched_prefix_def)
    show "\<forall>(i, f) \<in> set ?ss. \<forall>X. sched_prefix ?w i X W \<longrightarrow> f X = sched_rec ?w i"
      using pre zs
      by (simp add: ms_extend_stores_def sched_rec_def sched_prefix_low sched_prefix_high w ac_simps)
  qed (simp_all add: ms_extend_stores_def upt_rec)
  then have "\<forall>t < 32. stores ?ss W ! t = ?w t" "length (stores ?ss W) = 64"
    by (simp_all add: sched_prefix_def ms_extend_stores_def)
  then show ?thesis
    using sched_loop_prefix [of 32 16 "stores ?ss W" "\<lambda>i. W ! i"] t by (simp add: ms_extend_def)
qed

section \<open>The schedule of the second hash\<close>

lemma ms_extend2_schedule:
  assumes S: "length S = 64" and t: "t \<le> 60"
  shows "ms_extend2 S ! t = wsched (\<lambda>i. (take 8 S @ drop 8 sha256d_hash1) ! i) t"
proof -
  let ?B = "take 8 S @ drop 8 sha256d_hash1" and ?C = "memcpy_at S 8 (drop 8 sha256d_hash1)"
  let ?w = "wsched (\<lambda>i. ?B ! i)" and ?ss = "ms_extend2_stores sha256d_hash1"
  have C: "length ?C = 64" using S by simp
  have w: "?w i = ?C ! i" if "i < 16" for i
    using that S by (auto simp: wsched_base memcpy_at_def nth_append)
  have w8: "?w i = sha256d_hash1 ! i" if "8 \<le> i" "i < 16" for i
    using that S by (simp add: wsched_base nth_append)
  have "sched_prefix ?w (16 + length ?ss) (stores ?ss ?C) ?C"
  proof (rule sched_prefix_stores)
    show "sched_prefix ?w 16 ?C ?C" using C w by (simp add: sched_prefix_def)
    show "\<forall>(i, f) \<in> set ?ss. \<forall>X. sched_prefix ?w i X ?C \<longrightarrow> f X = sched_rec ?w i"
      by (simp add: ms_extend2_stores_def sched_rec_def sched_prefix_low w8)
  qed (simp_all add: ms_extend2_stores_def upt_rec)
  then have st: "\<forall>t < 32. stores ?ss ?C ! t = ?w t" "length (stores ?ss ?C) = 64"
    by (simp_all add: sched_prefix_def ms_extend2_stores_def)
  let ?X = "sched_loop 32 60 (stores ?ss ?C)"
  have X: "?X ! u = ?w u" if "u < 60" for u
    using sched_loop_prefix [of 32 14 "stores ?ss ?C" "\<lambda>i. ?B ! i"] st that by simp
  have "smallS1 (?X ! 58) + ?X ! 53 + smallS0 (?X ! 45) + ?X ! 44 = ?w 60"
    by (simp add: X wsched_rec [of 60] sched_rec_def)
  then show ?thesis
    using t X st(2) by (auto simp: ms_extend2_def Let_def nth_list_update)
qed

section \<open>Rounds\<close>

lemma RNDr_drop: "drop 8 (RNDr W i S) = drop 8 S"
  by (simp add: RNDr_def RND_def Let_def drop_update_cancel)

lemma rounds_drop: "drop 8 (fold (RNDr W) is S) = drop 8 S"
  by (induction "is" arbitrary: S) (simp_all add: RNDr_drop)

lemma fips_rounds_trans: "lo \<le> mid \<Longrightarrow> mid \<le> hi \<Longrightarrow>
   fips_rounds w mid hi (fips_rounds w lo mid r) = fips_rounds w lo hi r"
  using upt_add_eq_append [of lo mid "hi - mid"] by (simp add: fips_rounds_def)

lemma view_take: "8 \<le> length S \<Longrightarrow> view i S = view i (take 8 S)"
  by (simp add: view_def)

text \<open>The registers that the last rounds leave in word 7: four rounds feed it, three shift it.\<close>

fun reg_e :: "regs \<Rightarrow> u32" where
  "reg_e (a, b, c, d, e, f, g, h) = e"

fun reg_h :: "regs \<Rightarrow> u32" where
  "reg_h (a, b, c, d, e, f, g, h) = h"

lemma fips_round_split: "\<exists>A. fips_round kw (a, b, c, d, e, f, g, h) =
    (A, a, b, c, d + (h + bigS1 e + fips_Ch e f g + kw), e, f, g)"
  by (simp add: Let_def)

lemma fips_rounds_Cons: "lo < hi \<Longrightarrow>
   fips_rounds w lo hi r = fips_rounds w (Suc lo) hi (fips_round (w lo + sha256_k ! lo) r)"
  by (simp add: fips_rounds_def upt_conv_Cons)

lemma reg_h_last_three: "reg_h (fips_rounds w 61 64 r) = reg_e r"
  by (cases r rule: reg_e.cases) (simp add: fips_rounds_Cons fips_rounds_def Let_def)

lemma reg_e_four:
  "reg_e (fips_rounds w 57 61 (a, b, c, d, e, f, g, h)) =
    (let e1 = d + (h + bigS1 e + fips_Ch e f g + (w 57 + sha256_k ! 57));
         e2 = c + (g + bigS1 e1 + fips_Ch e1 e f + (w 58 + sha256_k ! 58));
         e3 = b + (f + bigS1 e2 + fips_Ch e2 e1 e + (w 59 + sha256_k ! 59))
     in a + (e + bigS1 e3 + fips_Ch e3 e2 e1 + (w 60 + sha256_k ! 60)))"
proof -
  let ?e1 = "d + (h + bigS1 e + fips_Ch e f g + (w 57 + sha256_k ! 57))"
  obtain A1 where 1: "fips_round (w 57 + sha256_k ! 57) (a, b, c, d, e, f, g, h) = (A1, a, b, c, ?e1, e, f, g)"
    using fips_round_split by blast
  let ?e2 = "c + (g + bigS1 ?e1 + fips_Ch ?e1 e f + (w 58 + sha256_k ! 58))"
  obtain A2 where 2: "fips_round (w 58 + sha256_k ! 58) (A1, a, b, c, ?e1, e, f, g) = (A2, A1, a, b, ?e2, ?e1, e, f)"
    using fips_round_split by blast
  let ?e3 = "b + (f + bigS1 ?e2 + fips_Ch ?e2 ?e1 e + (w 59 + sha256_k ! 59))"
  obtain A3 where 3: "fips_round (w 59 + sha256_k ! 59) (A2, A1, a, b, ?e2, ?e1, e, f) = (A3, A2, A1, a, ?e3, ?e2, ?e1, e)"
    using fips_round_split by blast
  obtain A4 where 4: "fips_round (w 60 + sha256_k ! 60) (A3, A2, A1, a, ?e3, ?e2, ?e1, e) =
      (A4, A3, A2, A1, a + (e + bigS1 ?e3 + fips_Ch ?e3 ?e2 ?e1 + (w 60 + sha256_k ! 60)), ?e3, ?e2, ?e1)"
    using fips_round_split by blast
  have "fips_rounds w 57 61 (a, b, c, d, e, f, g, h) =
      fips_round (w 60 + sha256_k ! 60) (fips_round (w 59 + sha256_k ! 59)
        (fips_round (w 58 + sha256_k ! 58) (fips_round (w 57 + sha256_k ! 57) (a, b, c, d, e, f, g, h))))"
    by (simp add: fips_rounds_def upt_rec del: fips_round.simps)
  then show ?thesis unfolding 1 2 3 4 by (simp add: Let_def)
qed

lemma ms_tail_word7:
  assumes "length hash = 8" and "view 57 hash = r"
    and "\<And>t. 57 \<le> t \<Longrightarrow> t \<le> 60 \<Longrightarrow> S ! t = w t"
  shows "ms_tail S hash ! 7 = sha256_h ! 7 + reg_h (fips_rounds w 57 64 r)"
proof -
  have rot: "rot 57 0 = 7" "rot 57 1 = 0" "rot 57 2 = 1" "rot 57 3 = 2" "rot 57 4 = 3"
    "rot 57 5 = 4" "rot 57 6 = 5" "rot 57 7 = 6" by (simp_all add: rot_def)
  have r: "r = (hash ! 7, hash ! 0, hash ! 1, hash ! 2, hash ! 3, hash ! 4, hash ! 5, hash ! 6)"
    using assms(2) by (simp only: view_def rot)
  have "reg_h (fips_rounds w 57 64 r) = reg_e (fips_rounds w 57 61 r)"
    using reg_h_last_three [of w "fips_rounds w 57 61 r"] fips_rounds_trans [of 57 61 64 w r] by simp
  then show ?thesis
    using assms(1,3) unfolding r reg_e_four
    by (simp add: ms_tail_def Let_def nth_list_update Ch_fips ac_simps)
qed

section \<open>Word 7 of the double hash\<close>

text \<open>The double hash of a header whose first block leads to the state \<open>H\<close> and whose second block is \<open>B\<close>.\<close>

definition sha256d_words :: "u32 list \<Rightarrow> u32 list \<Rightarrow> u32 list" where
  "sha256d_words H B = fips_compress sha256_h
     (\<lambda>i. (fips_compress H (\<lambda>i. B ! i) @ drop 8 sha256d_hash1) ! i)"

lemma ms_first_hash:
  assumes W: "preextended W" and mid: "length midstate = 8"
    and pre: "prehash = sha256d_prehash midstate W" and S: "length S = 64"
  shows "let T = fold (RNDr (ms_extend W)) [3..<64] (memcpy_at S 0 prehash) in
     map2 (+) (take 8 T) midstate = fips_compress midstate (\<lambda>i. W ! i) \<and> drop 8 T = drop 8 S"
proof -
  let ?w = "wsched (\<lambda>i. W ! i)" and ?S = "memcpy_at S 0 prehash"
  define T where "T = fold (RNDr (ms_extend W)) [3..<64] ?S"
  have len: "length prehash = 8" "length ?S = 64" "take 8 ?S = prehash" "drop 8 ?S = drop 8 S"
    using mid S pre by (simp_all add: sha256d_prehash_def memcpy_at_def)
  have "prehash = fold (RNDr W) [0..<3] midstate"
    by (simp add: pre sha256d_prehash_def upt_rec numeral_2_eq_2)
  then have "view 3 ?S = fips_rounds ?w 0 3 (regs_of midstate)"
    using view_rounds [of 0 3 midstate W ?w] mid len view_take [of ?S 3]
    by (simp add: view_ends wsched_base)
  moreover have "view 64 T = fips_rounds ?w 3 64 (view 3 ?S)"
    unfolding T_def using ms_extend_schedule [OF W] len by (intro view_rounds) simp_all
  ultimately have "regs_of T = fips_rounds ?w 0 64 (regs_of midstate)"
    using fips_rounds_trans [of 0 3 64 ?w "regs_of midstate"] by (simp add: view_ends)
  moreover have T: "length T = 64" "drop 8 T = drop 8 S"
    using len rounds_drop [of _ _ ?S] unfolding T_def by (simp_all only: length_rounds)
  moreover have "take 8 T = list_of_regs (regs_of T)"
    using list8_regs [of "take 8 T"] T by (simp add: regs_of_def)
  ultimately have "map2 (+) (take 8 T) midstate = fips_compress midstate (\<lambda>i. W ! i)"
    using mid by (simp add: fips_compress_def list_eq_iff_nth_eq add.commute)
  with T show ?thesis unfolding T_def [symmetric] Let_def by blast
qed

lemma sha256d_ms_word7:
  assumes W: "preextended W" and mid: "length midstate = 8" and h: "length hash = 8"
    and pre: "prehash = sha256d_prehash midstate W"
  shows "fst (sha256d_ms hash W midstate prehash) ! 7 = sha256d_words midstate W ! 7"
proof -
  define T where "T = fold (RNDr (ms_extend W)) [3..<64] (memcpy_at (ms_save W (replicate 64 0)) 0 prehash)"
  define S where "S = map2 (+) (take 8 T) midstate @ drop 8 T"
  let ?H = "fips_compress midstate (\<lambda>i. W ! i)"
  let ?w = "wsched (\<lambda>i. (?H @ drop 8 sha256d_hash1) ! i)"
  define h2 where "h2 = fold (RNDr (ms_extend2 S)) [0..<57] sha256_h"
  have sv: "length (ms_save W (replicate 64 0)) = 64" by (simp add: ms_save_def Let_def)
  have "S = ?H @ drop 8 (ms_save W (replicate 64 0))"
    using ms_first_hash [OF W mid pre sv] unfolding S_def T_def Let_def by (simp only:)
  then have "length S = 64" "take 8 S = ?H" using mid sv by simp_all
  then have E: "ms_extend2 S ! t = ?w t" if "t \<le> 60" for t
    using ms_extend2_schedule [of S t] that by simp
  have h2: "view 57 h2 = fips_rounds ?w 0 57 (regs_of sha256_h)" "length h2 = 8"
    unfolding h2_def using view_rounds [of 0 57 sha256_h "ms_extend2 S" ?w] E
    by (simp_all only: view_ends length_rounds length_sha256_h)
  have "ms_tail (ms_extend2 S) h2 ! 7 = sha256_h ! 7 + reg_h (fips_rounds ?w 0 64 (regs_of sha256_h))"
    using ms_tail_word7 [OF h2(2,1), of "ms_extend2 S" ?w] E
      fips_rounds_trans [of 0 57 64 ?w "regs_of sha256_h"] by simp
  moreover have "reg_h r = list_of_regs r ! 7" for r
    by (cases r rule: reg_h.cases) simp
  moreover have "sha256_init hash = sha256_h" using h by (simp add: sha256_init_def memcpy_at_def)
  moreover have "fst (sha256d_ms hash W midstate prehash) =
      ms_tail (ms_extend2 S) (fold (RNDr (ms_extend2 S)) [0..<57] (sha256_init hash))"
    unfolding sha256d_ms_def Let_def S_def T_def by (simp only: fst_conv)
  ultimately show ?thesis
    by (simp add: h2_def sha256d_words_def fips_compress_def [of sha256_h] del: upt_rec_numeral)
qed


section \<open>The precomputed words survive\<close>

lemma stores_length: "length (stores ss W) = length W"
  by (induction ss arbitrary: W) (auto simp: stores_def)

lemma ms_extend_low:
  assumes "preextended W" and "i < 18"
  shows "ms_extend W ! i = W ! i"
proof -
  have "wsched (\<lambda>i. W ! i) 16 = W ! 16" "wsched (\<lambda>i. W ! i) 17 = W ! 17"
    using wsched_rec [of 16 "\<lambda>i. W ! i"] wsched_rec [of 17 "\<lambda>i. W ! i"] assms(1)
    by (simp_all add: preextended_def sched_rec_def wsched_base)
  with assms show ?thesis
    by (cases "i < 16") (auto simp: ms_extend_schedule wsched_base less_Suc_eq numeral_eq_Suc)
qed

text \<open>The words that survive a call: everything but the scratch words of the schedule.\<close>

definition kept_words :: "nat set" where
  "kept_words = {0..20} \<union> {22, 23, 24, 30, 31}"

lemma sha256d_ms_kept:
  assumes W: "preextended W" and mid: "length midstate = 8"
    and pre: "prehash = sha256d_prehash midstate W" and i: "i \<in> kept_words"
  shows "snd (sha256d_ms hash W midstate prehash) ! i = W ! i"
proof -
  define T where "T = fold (RNDr (ms_extend W)) [3..<64] (memcpy_at (ms_save W (replicate 64 0)) 0 prehash)"
  define S where "S = map2 (+) (take 8 T) midstate @ drop 8 T"
  have sv: "length (ms_save W (replicate 64 0)) = 64" by (simp add: ms_save_def Let_def)
  have "S = fips_compress midstate (\<lambda>i. W ! i) @ drop 8 (ms_save W (replicate 64 0))"
    using ms_first_hash [OF W mid pre sv] unfolding S_def T_def Let_def by (simp only:)
  then have S: "S ! i = ms_save W (replicate 64 0) ! i" if "8 \<le> i" for i
    using mid sv that by (simp add: nth_append)
  have X: "length (ms_extend W) = 64" using W by (simp add: ms_extend_def stores_length preextended_def)
  have "snd (sha256d_ms hash W midstate prehash) = ms_restore S (ms_extend W)"
    unfolding sha256d_ms_def Let_def S_def T_def by (simp only: snd_conv)
  moreover have "ms_restore S (ms_extend W) ! i = W ! i"
    using i X by (auto simp: kept_words_def ms_restore_def ms_save_def Let_def nth_list_update S
        ms_extend_low [OF W])
  ultimately show ?thesis by simp
qed

lemma sha256d_ms_length:
  "length W = 64 \<Longrightarrow> length (snd (sha256d_ms hash W midstate prehash)) = 64"
  by (simp add: sha256d_ms_def Let_def ms_restore_def ms_extend_def stores_length)

lemma sha256d_ms_preextended:
  assumes W: "preextended W" and mid: "length midstate = 8"
    and pre: "prehash = sha256d_prehash midstate W"
  shows "preextended (snd (sha256d_ms hash W midstate prehash))"
proof -
  have "snd (sha256d_ms hash W midstate prehash) ! i = W ! i" if "i \<in> kept_words" for i
    by (rule sha256d_ms_kept [OF W mid pre that])
  moreover have "length W = 64" using W by (simp add: preextended_def)
  ultimately show ?thesis
    using W by (simp add: preextended_def kept_words_def sha256d_ms_length del: upt_rec_numeral)
qed

section \<open>Property\<close>

text \<open>C6: the midstate kernel is a correct early filter: with the schedule words precomputed once
  by \<^verbatim>\<open>sha256d_preextend\<close> and the first rounds by \<^verbatim>\<open>sha256d_prehash\<close>, a call for nonce \<open>n\<close> leaves
  in word 7 of the hash exactly word 7 of the full double hash of the block with that nonce, and
  it leaves the precomputed words in place, so that the next call may start from them.\<close>

theorem sha256d_ms_nonce:
  fixes W midstate hash :: "u32 list" and n :: u32
  assumes "length W = 64" and "\<forall>i \<in> {5..14}. W ! i = 0"
    and "length midstate = 8" and "length hash = 8"
  defines "E \<equiv> (sha256d_preextend W)[3 := n]"
  shows "fst (sha256d_ms hash E midstate (sha256d_prehash midstate W)) ! 7 = sha256d_words midstate E ! 7
    \<and> preextended (snd (sha256d_ms hash E midstate (sha256d_prehash midstate W)))"
proof -
  have E: "preextended E" unfolding E_def using assms(1,2) preextended_preextend preextended_nonce by blast
  have "E ! i = W ! i" if "i < 3" for i
    using that assms(1) sha256d_preextend_low [of W i] by (simp add: E_def)
  then have "sha256d_prehash midstate E = sha256d_prehash midstate W"
    by (simp add: sha256d_prehash_def RNDr_def)
  with sha256d_ms_word7 [OF E assms(3,4)] sha256d_ms_preextended [OF E assms(3)] show ?thesis by metis
qed

theorem sha256d_ms_nonce_witness:
  "let W = replicate 64 0; E = (sha256d_preextend W)[3 := 42] in
   fst (sha256d_ms (replicate 8 0) E sha256_h (sha256d_prehash sha256_h W)) ! 7 = sha256d_words sha256_h E ! 7
    \<and> preextended (snd (sha256d_ms (replicate 8 0) E sha256_h (sha256d_prehash sha256_h W)))"
  unfolding Let_def by (rule sha256d_ms_nonce) simp_all

end
