(* ===== verification/Scanhash.thy ===== *)
theory Scanhash
  imports Sha256_Midstate Target
begin

text \<open>
  The nonce search of \<^verbatim>\<open>sha2.c\<close>: \<^verbatim>\<open>scanhash_sha256d\<close> and its vectorised versions. The kernels
  \<^verbatim>\<open>sha256d_ms_4way\<close> and \<^verbatim>\<open>sha256d_ms_8way\<close> are assembly; they are an argument of the model, a
  function on the interleaved arrays, and the contract the loop relies on is the locale
  \<open>ms_kernel\<close>. The flag \<^verbatim>\<open>work_restart[thr_id].restart\<close> is written by other threads: the model
  reads the \<open>t\<close>-th value of a stream. Local arrays start as zeros
  (the code never reads a word it has not written). Printing is left out.
\<close>

section \<open>The search loops\<close>

text \<open>The arrays of the search: the second block, extended, and the state after the first.\<close>

definition scan_data :: "nat \<Rightarrow> u32 list \<Rightarrow> u32 list" where
  "scan_data len pdata = sha256d_preextend (memcpy_at (replicate len 0) 0 (take 16 (drop 16 pdata)))"

definition scan_midstate :: "nat \<Rightarrow> u32 list \<Rightarrow> u32 list" where
  "scan_midstate len pdata = sha256_transform (sha256_init (replicate len 0)) pdata False"

definition scan_prehash :: "nat \<Rightarrow> u32 list \<Rightarrow> u32 list" where
  "scan_prehash len pdata =
    sha256d_prehash (memcpy_at (replicate len 0) 0 (take 8 (scan_midstate len pdata))) (drop 16 pdata)"

function scan_loop :: "bool \<Rightarrow> (nat \<Rightarrow> bool) \<Rightarrow> u32 \<Rightarrow> u32 \<Rightarrow> u32 \<Rightarrow> u32 list \<Rightarrow> u32 list \<Rightarrow>
    nat \<Rightarrow> work \<Rightarrow> u32 list \<Rightarrow> u32 list \<Rightarrow> u32 \<Rightarrow> bool \<times> work \<times> u64" where
  "scan_loop showdiff restart max_nonce first_nonce Htarg midstate prehash t w hash data n =
    (let n = n + 1;
         data = data[3 := n];
         (hash, data) = sha256d_ms hash data midstate prehash;
         cand = (swab32 (hash ! 7) \<le> Htarg);
         w = (if cand then w\<lparr>w_data := (w_data w)[19 := data ! 3]\<rparr> else w);
         hash = (if cand then sha256d_80_swap hash (w_data w) else hash)
     in if cand \<and> fulltest hash (w_target w)
        then (True, work_set_target_ratio showdiff w hash, ucast (n - first_nonce + 1))
        else if n < max_nonce \<and> \<not> restart t
        then scan_loop showdiff restart max_nonce first_nonce Htarg midstate prehash (Suc t) w hash data n
        else (False, w\<lparr>w_data := (w_data w)[19 := n]\<rparr>, ucast (n - first_nonce + 1)))"
  by pat_completeness auto
termination
proof (relation "measure (\<lambda>(_, _, max_nonce, _, _, _, _, _, _, _, _, n). unat max_nonce - unat (n + 1))",
    goal_cases)
  case (2 showdiff restart max_nonce first_nonce Htarg midstate prehash t w hash data n n')
  then have "n' < max_nonce" by simp
  then have "unat (n' + 1) = unat n' + 1" by (rule unat_Suc_u32)
  then show ?case
    using \<open>n' < max_nonce\<close> \<open>n' = n + 1\<close> by (simp add: word_less_nat_alt)
qed simp

declare scan_loop.simps [simp del]

text \<open>The portable path of \<^verbatim>\<open>scanhash_sha256d\<close>: whether a nonce was found, the work, the hashes done.\<close>

definition scanhash_c :: "bool \<Rightarrow> (nat \<Rightarrow> bool) \<Rightarrow> work \<Rightarrow> u32 \<Rightarrow> bool \<times> work \<times> u64" where
  "scanhash_c showdiff restart w max_nonce =
    (let pdata = w_data w in
     scan_loop showdiff restart max_nonce (pdata ! 19) (w_target w ! 7)
       (scan_midstate 8 pdata) (scan_prehash 8 pdata) 0 w (replicate 8 0) (scan_data 64 pdata)
       (pdata ! 19 - 1))"

text \<open>Spreading word \<open>i\<close> to the words \<open>L * i + j\<close>, in place and from the end.\<close>

definition spread :: "nat \<Rightarrow> nat \<Rightarrow> u32 list \<Rightarrow> u32 list" where
  "spread L k xs = fold (\<lambda>i xs. fold (\<lambda>j xs. xs[i * L + j := xs ! i]) [0..<L] xs) (rev [0..<k]) xs"

text \<open>The nonces of one pass: the lanes get the next \<open>L\<close> values of \<open>n\<close>.\<close>

definition fill_nonces :: "nat \<Rightarrow> u32 \<Rightarrow> u32 list \<Rightarrow> u32 \<times> u32 list" where
  "fill_nonces L n data = fold (\<lambda>i (n, data). (n + 1, data[L * 3 + i := n + 1])) [0..<L] (n, data)"

fun check_lanes :: "bool \<Rightarrow> nat \<Rightarrow> u32 \<Rightarrow> u32 list \<Rightarrow> nat list \<Rightarrow> work \<Rightarrow> u32 list \<Rightarrow> bool \<times> work \<times> u32 list" where
  "check_lanes showdiff L Htarg data [] w hash = (False, w, hash)"
| "check_lanes showdiff L Htarg data (i # is) w hash =
    (if swab32 (hash ! (L * 7 + i)) \<le> Htarg then
       let w = w\<lparr>w_data := (w_data w)[19 := data ! (L * 3 + i)]\<rparr>;
           hash = sha256d_80_swap hash (w_data w)
       in if fulltest hash (w_target w)
          then (True, work_set_target_ratio showdiff w hash, hash)
          else check_lanes showdiff L Htarg data is w hash
     else check_lanes showdiff L Htarg data is w hash)"

text \<open>The loop of the vectorised versions. The counter advances by \<open>L\<close>, so the loop may step over
  \<open>max_nonce\<close> and wrap around: not returning is \<open>None\<close>.\<close>

type_synonym kernel = "u32 list \<Rightarrow> u32 list \<Rightarrow> u32 list \<Rightarrow> u32 list \<Rightarrow> u32 list \<times> u32 list"

partial_function (option) lanes_loop :: "bool \<Rightarrow> (nat \<Rightarrow> bool) \<Rightarrow> nat \<Rightarrow> kernel \<Rightarrow> u32 \<Rightarrow> u32 \<Rightarrow> u32 \<Rightarrow>
    u32 list \<Rightarrow> u32 list \<Rightarrow> nat \<Rightarrow> work \<Rightarrow> u32 list \<Rightarrow> u32 list \<Rightarrow> u32 \<Rightarrow> (bool \<times> work \<times> u64) option" where
  [code]: "lanes_loop showdiff restart L ms max_nonce first_nonce Htarg midstate prehash t w hash data n =
    (let (n, data) = fill_nonces L n data;
         (hash, data) = ms hash data midstate prehash;
         (found, w, hash) = check_lanes showdiff L Htarg data [0..<L] w hash
     in if found then Some (True, w, ucast (n - first_nonce + 1))
        else if n < max_nonce \<and> \<not> restart t
        then lanes_loop showdiff restart L ms max_nonce first_nonce Htarg midstate prehash (Suc t) w hash data n
        else Some (False, w\<lparr>w_data := (w_data w)[19 := n]\<rparr>, ucast (n - first_nonce + 1)))"

definition scanhash_lanes :: "nat \<Rightarrow> kernel \<Rightarrow> bool \<Rightarrow> (nat \<Rightarrow> bool) \<Rightarrow> work \<Rightarrow> u32 \<Rightarrow> (bool \<times> work \<times> u64) option" where
  "scanhash_lanes L ms showdiff restart w max_nonce =
    (let pdata = w_data w;
         data = spread L 32 (scan_data (L * 64) pdata);
         midstate = spread L 8 (scan_midstate (L * 8) pdata);
         prehash = spread L 8 (scan_prehash (L * 8) pdata)
     in lanes_loop showdiff restart L ms max_nonce (pdata ! 19) (w_target w ! 7) midstate prehash 0 w
          (replicate (L * 8) 0) data (pdata ! 19 - 1))"

definition scanhash_sha256d_4way :: "kernel \<Rightarrow> bool \<Rightarrow> (nat \<Rightarrow> bool) \<Rightarrow> work \<Rightarrow> u32 \<Rightarrow> (bool \<times> work \<times> u64) option" where
  "scanhash_sha256d_4way = scanhash_lanes 4"

definition scanhash_sha256d_8way :: "kernel \<Rightarrow> bool \<Rightarrow> (nat \<Rightarrow> bool) \<Rightarrow> work \<Rightarrow> u32 \<Rightarrow> (bool \<times> work \<times> u64) option" where
  "scanhash_sha256d_8way = scanhash_lanes 8"

text \<open>The dispatch: the two flags are what \<^verbatim>\<open>sha256_use_8way\<close> and \<^verbatim>\<open>sha256_use_4way\<close> report.\<close>

definition scanhash_sha256d :: "bool \<Rightarrow> bool \<Rightarrow> kernel \<Rightarrow> kernel \<Rightarrow> bool \<Rightarrow> (nat \<Rightarrow> bool) \<Rightarrow> work \<Rightarrow> u32 \<Rightarrow>
    (bool \<times> work \<times> u64) option" where
  "scanhash_sha256d use_8way use_4way ms8 ms4 showdiff restart w max_nonce =
    (if use_8way then scanhash_sha256d_8way ms8 showdiff restart w max_nonce
     else if use_4way then scanhash_sha256d_4way ms4 showdiff restart w max_nonce
     else Some (scanhash_c showdiff restart w max_nonce))"

section \<open>Lanes\<close>

definition lane :: "nat \<Rightarrow> nat \<Rightarrow> u32 list \<Rightarrow> u32 list" where
  "lane L i xs = map (\<lambda>k. xs ! (k * L + i)) [0..<length xs div L]"

lemma length_lane [layout]: "length (lane L i xs) = length xs div L"
  by (simp add: lane_def)

lemma nth_lane: "k < length xs div L \<Longrightarrow> lane L i xs ! k = xs ! (k * L + i)"
  by (simp add: lane_def)

lemma lane_index_less:
  fixes L i k m :: nat
  assumes "i < L" and "k < m" shows "k * L + i < L * m"
proof -
  have "k * L + i < (k + 1) * L" using assms by simp
  also have "\<dots> \<le> m * L" using assms by (intro mult_le_mono1) simp
  finally show ?thesis by (simp add: mult.commute)
qed

lemma lane_index_eq:
  fixes L i j k l :: nat
  assumes "i < L" and "j < L" shows "k * L + i = l * L + j \<longleftrightarrow> k = l \<and> i = j"
proof
  assume eq: "k * L + i = l * L + j"
  have "(k * L + i) div L = k" "(l * L + j) div L = l" using assms by simp_all
  with eq show "k = l \<and> i = j" by auto
qed simp

lemma lane_update:
  assumes "i < L" "j < L" "length xs = L * m" "k < m"
  shows "lane L i (xs[k * L + j := x]) = (if i = j then (lane L i xs)[k := x] else lane L i xs)"
  using assms lane_index_less [of j L k m]
  by (intro nth_equalityI) (auto simp: lane_def nth_list_update lane_index_eq lane_index_less)

lemma length_spread_inner: "length (fold (\<lambda>j xs. xs[i * L + j := xs ! i]) js xs) = length xs"
  by (induction js arbitrary: xs) simp_all

lemma spread_inner:
  assumes "(i + 1) * L \<le> length xs" "m \<le> L" "0 < L"
  shows "fold (\<lambda>j xs. xs[i * L + j := xs ! i]) [0..<m] xs ! p =
    (if i * L \<le> p \<and> p < i * L + m then xs ! i else xs ! p)"
  using assms(2)
proof (induction m arbitrary: p)
  case (Suc m)
  let ?ys = "fold (\<lambda>j xs. xs[i * L + j := xs ! i]) [0..<m] xs"
  have "i * L + m < length ?ys"
    using assms(1) Suc.prems by (simp add: length_spread_inner)
  moreover have "?ys ! i = xs ! i" using Suc by simp
  ultimately show ?case using Suc by (auto simp: nth_list_update)
qed auto

lemma length_spread [layout]: "length (spread L k xs) = length xs"
proof -
  have "length (fold (\<lambda>i xs. fold (\<lambda>j xs. xs[i * L + j := xs ! i]) [0..<L] xs) is xs) = length xs" for "is"
    by (induction "is" arbitrary: xs) (simp_all add: length_spread_inner)
  then show ?thesis by (simp add: spread_def)
qed

text \<open>Every lane of the spread array is the array that was spread.\<close>

lemma spread_nth:
  assumes "k * L \<le> length xs" "0 < L"
  shows "spread L k xs ! p = (if p < k * L then xs ! (p div L) else xs ! p)"
  using assms(1)
proof (induction k arbitrary: xs p)
  case (Suc k)
  let ?ys = "fold (\<lambda>j xs. xs[k * L + j := xs ! k]) [0..<L] xs"
  have "spread L (Suc k) xs = spread L k ?ys" by (simp add: spread_def)
  moreover have "k * L \<le> length ?ys" using Suc.prems by (simp add: length_spread_inner)
  moreover have "?ys ! q = (if k * L \<le> q \<and> q < k * L + L then xs ! k else xs ! q)" for q
    using spread_inner [of k L xs L q] Suc.prems assms(2) by (simp add: algebra_simps)
  moreover have "p div L < k" if "p < k * L" using that assms(2) by (simp add: less_mult_imp_div_less)
  moreover have "p div L = k" if "k * L \<le> p" "p < k * L + L"
    using that by (simp add: div_nat_eqI algebra_simps)
  moreover have "\<not> k * L \<le> p div L" if "p div L < k"
    using that assms(2) by (metis leD le_trans less_imp_le mult.right_neutral mult_le_mono2 Suc_leI One_nat_def)
  ultimately show ?case using Suc.IH [of ?ys p] by (auto simp: not_less)
qed (simp add: spread_def)

lemma lane_spread:
  assumes "i < L" "k \<le> m" "length xs = L * m"
  shows "take k (lane L i (spread L k xs)) = take k xs"
proof (rule nth_equalityI)
  have "m \<le> L * m" using assms(1) by (cases L) simp_all
  with assms(2) have "min (L * m) k = k" by (intro min_absorb2) (rule le_trans)
  then show len: "length (take k (lane L i (spread L k xs))) = length (take k xs)"
    using assms by (auto simp: length_lane length_spread)
  fix p assume "p < length (take k (lane L i (spread L k xs)))"
  then have p: "p < k" by simp
  with assms have "p * L + i < k * L" using lane_index_less [of i L p k] by (simp add: mult.commute)
  moreover have "k * L \<le> length xs" using assms by (simp add: mult.commute)
  ultimately show "take k (lane L i (spread L k xs)) ! p = take k xs ! p"
    using assms p spread_nth [of k L xs "p * L + i"] by (simp add: nth_lane length_spread)
qed

section \<open>The hash of a nonce\<close>

definition nonce_hash :: "u32 list \<Rightarrow> u32 \<Rightarrow> u32 list" where
  "nonce_hash pdata m = sha256d_80_swap (replicate 8 0) (pdata[19 := m])"

definition meets :: "work \<Rightarrow> u32 \<Rightarrow> bool" where
  "meets w m = fulltest (nonce_hash (w_data w) m) (w_target w)"

text \<open>What the work assembly provides: a complete header, zeros from word 21 to 30.\<close>

definition header_ok :: "work \<Rightarrow> bool" where
  "header_ok w \<longleftrightarrow> length (w_data w) = 48 \<and> length (w_target w) = 8 \<and> (\<forall>i \<in> {21..30}. w_data w ! i = 0)"

lemma sha256d_80_swap_long:
  assumes "8 \<le> length hash"
  shows "sha256d_80_swap hash data = sha256d_80_swap (replicate 8 0) data @ drop 8 hash"
proof -
  have len8: "length (sha256_transform sha256_h B False) = 8" for B
    by (simp add: sha256_transform_def Let_def length_rounds del: upt_rec_numeral)
  have "sha256_transform (sha256_h @ ys) B False = sha256_transform sha256_h B False @ ys" for ys B
    using sha256_transform_take [of "sha256_h @ ys" B] by (simp add: sha256_transform_def Let_def)
  then show ?thesis
    using assms len8 by (simp add: sha256d_80_swap_def Let_def sha256_init_def memcpy_at_def)
qed

lemma length_nonce_hash [layout]: "length (nonce_hash pdata m) = 8"
  by (simp add: nonce_hash_def sha256d_80_swap_def Let_def sha256_init_def memcpy_at_def
      sha256_transform_def length_rounds del: upt_rec_numeral)

lemma fulltest_append: "length hash = 8 \<Longrightarrow> fulltest (hash @ ys) target = fulltest hash target"
proof -
  have "k \<le> length hash \<Longrightarrow> fulltest_loop k (hash @ ys) target = fulltest_loop k hash target" for k
    by (induction k) (simp_all add: nth_append)
  then show "length hash = 8 \<Longrightarrow> fulltest (hash @ ys) target = fulltest hash target"
    by (simp add: fulltest_def)
qed

lemma getdouble_append: "length hash = 8 \<Longrightarrow> getdouble (hash @ ys) = getdouble hash"
  unfolding getdouble_def by (intro arg_cong [where f = fst] fold_cong_set) (simp add: nth_append)

lemma work_set_target_ratio_append:
  "length hash = 8 \<Longrightarrow> work_set_target_ratio sd w (hash @ ys) = work_set_target_ratio sd w hash"
  by (simp add: work_set_target_ratio_def hash_target_ratio_def getdouble_append)

text \<open>Word 7 of the kernel is the top word of the header's hash before its bytes are swapped.\<close>

lemma nonce_hash_word7:
  assumes "length pdata = 48" "8 \<le> len"
    and B: "\<forall>k < 16. B ! k = (pdata[19 := m]) ! (16 + k)"
  shows "nonce_hash pdata m ! 7 = swab32 (sha256d_words (take 8 (scan_midstate len pdata)) B ! 7)"
proof -
  let ?p = "pdata[19 := m]"
  have mid: "take 8 (scan_midstate len pdata) = fips_compress sha256_h (\<lambda>i. take 16 pdata ! i)"
    using assms by (simp add: scan_midstate_def sha256_init_def memcpy_at_def sha256_transform_fips)
  have first: "fips_compress sha256_h (\<lambda>i. take 16 ?p ! i) = fips_compress sha256_h (\<lambda>i. take 16 pdata ! i)"
    by (rule fips_compress_cong) simp
  have second: "fips_compress H (\<lambda>i. take 16 (drop 16 ?p) ! i) = fips_compress H (\<lambda>i. B ! i)" for H
    using assms by (intro fips_compress_cong) simp
  show ?thesis
    using assms by (simp add: nonce_hash_def sha256d_80_swap_words mid first second sha256d_words_def)
qed

section \<open>One pass\<close>

lemma fill_nonces_upto:
  assumes "length data = L * 64" "k \<le> L"
  shows "let r = fold (\<lambda>i (n, data). (n + 1, data[L * 3 + i := n + 1])) [0..<k] (n, data) in
    fst r = n + of_nat k \<and> length (snd r) = L * 64 \<and>
    (\<forall>i < L. lane L i (snd r) = (if i < k then (lane L i data)[3 := n + of_nat (Suc i)] else lane L i data))"
  using assms(2)
proof (induction k)
  case (Suc k)
  let ?r = "fold (\<lambda>i (n, data). (n + 1, data[L * 3 + i := n + 1])) [0..<k] (n, data)"
  obtain n' d' where r: "?r = (n', d')" by fastforce
  from Suc have IH: "n' = n + of_nat k" "length d' = L * 64"
    "\<forall>i < L. lane L i d' = (if i < k then (lane L i data)[3 := n + of_nat (Suc i)] else lane L i data)"
    by (simp_all add: r)
  have "lane L i (d'[L * 3 + k := n' + 1]) = (if i = k then (lane L i d')[3 := n' + 1] else lane L i d')"
    if "i < L" for i
    using lane_update [of i L k d' 64 3 "n' + 1"] that Suc.prems IH(2) by (simp add: mult.commute)
  with IH Suc.prems show ?case by (simp add: r less_Suc_eq) (auto simp: ac_simps)
qed (use assms(1) in simp)

lemma fill_nonces_lanes:
  assumes "length data = L * 64" "fill_nonces L n data = (n', data')"
  shows "n' = n + of_nat L" "length data' = L * 64"
    "i < L \<Longrightarrow> lane L i data' = (lane L i data)[3 := n + of_nat (Suc i)]"
  using fill_nonces_upto [OF assms(1) order_refl, of n] assms(2) by (simp_all add: fill_nonces_def)

text \<open>The work as the search leaves it when the nonce \<open>m\<close> is found.\<close>

definition found_work :: "bool \<Rightarrow> work \<Rightarrow> u32 \<Rightarrow> work" where
  "found_work sd w m = work_set_target_ratio sd (w\<lparr>w_data := (w_data w)[19 := m]\<rparr>) (nonce_hash (w_data w) m)"

text \<open>
  The check of the lanes in their order, for a hash array whose words 7 are the top words of the
  hashes of the nonces: it finds the first lane whose nonce meets the target.
\<close>

lemma check_lanes_find:
  assumes "w = w0\<lparr>w_data := (w_data w0)[19 := x]\<rparr>" and "8 \<le> length hash"
    and "\<forall>i \<in> set is. swab32 (hash ! (L * 7 + i)) = nonce_hash (w_data w0) (data ! (L * 3 + i)) ! 7"
    and "2 \<le> L \<or> length is \<le> 1"
  shows "case check_lanes sd L (w_target w0 ! 7) data is w hash of (found, w', hash') \<Rightarrow>
    length hash' = length hash \<and>
    (case find (meets w0) (map (\<lambda>i. data ! (L * 3 + i)) is) of
       None \<Rightarrow> \<not> found \<and> (\<exists>x. w' = w0\<lparr>w_data := (w_data w0)[19 := x]\<rparr>)
     | Some m \<Rightarrow> found \<and> w' = found_work sd w0 m)"
  using assms
proof (induction "is" arbitrary: w hash x)
  case (Cons i "is")
  let ?m = "data ! (L * 3 + i)"
  let ?w = "w\<lparr>w_data := (w_data w)[19 := ?m]\<rparr>"
  let ?h = "sha256d_80_swap hash (w_data ?w)"
  have w: "?w = w0\<lparr>w_data := (w_data w0)[19 := ?m]\<rparr>" using Cons.prems(1) by simp
  have h: "?h = nonce_hash (w_data w0) ?m @ drop 8 hash"
    unfolding sha256d_80_swap_long [OF Cons.prems(2)] w nonce_hash_def by simp
  have full: "fulltest ?h (w_target ?w) = meets w0 ?m"
    by (simp only: h fulltest_append [OF length_nonce_hash]) (simp add: Cons.prems(1) meets_def)
  have ratio: "work_set_target_ratio sd ?w ?h = found_work sd w0 ?m"
    by (simp only: h work_set_target_ratio_append [OF length_nonce_hash]) (simp only: found_work_def w)
  have drop_hash: "length ?h = length hash"
    unfolding h using Cons.prems(2) by (simp add: layout)
  have rest: "\<forall>j \<in> set is. swab32 (?h ! (L * 7 + j)) = nonce_hash (w_data w0) (data ! (L * 3 + j)) ! 7"
    using Cons.prems(2-4) unfolding h by (cases "is") (auto simp: nth_append layout)
  have top: "meets w0 ?m \<Longrightarrow> swab32 (hash ! (L * 7 + i)) \<le> w_target w0 ! 7"
    using Cons.prems(3) fulltest_top_word [of "nonce_hash (w_data w0) ?m"] by (simp add: meets_def)
  have sep: "2 \<le> L \<or> length is \<le> 1" using Cons.prems(4) by auto
  show ?case
  proof (cases "swab32 (hash ! (L * 7 + i)) \<le> w_target w0 ! 7")
    case False
    then show ?thesis using top Cons.IH [OF Cons.prems(1,2) _ sep] Cons.prems(3) by auto
  next
    case True
    then show ?thesis
      using Cons.IH [OF w _ rest sep] Cons.prems(2) full ratio drop_hash by (auto simp: Let_def)
  qed
qed auto

section \<open>The kernel contract and the search\<close>

text \<open>
  \<open>kernel_pre\<close> is what the search hands to a kernel: in every lane the precomputed schedule words
  and the state after the first rounds.
\<close>

definition kernel_pre :: "nat \<Rightarrow> u32 list \<Rightarrow> u32 list \<Rightarrow> u32 list \<Rightarrow> u32 list \<Rightarrow> bool" where
  "kernel_pre L hash data midstate prehash \<longleftrightarrow>
     length hash = L * 8 \<and> length data = L * 64 \<and> length midstate = L * 8 \<and> length prehash = L * 8 \<and>
     (\<forall>i < L. preextended (lane L i data) \<and>
        lane L i prehash = sha256d_prehash (lane L i midstate) (lane L i data))"

text \<open>
  The contract of a kernel for \<open>L\<close> lanes: it leaves word 7 of the double hash in every lane of
  the hash array, and it keeps the block and the precomputed words.
\<close>

locale ms_kernel =
  fixes L :: nat and ms :: kernel
  assumes lanes_pos: "0 < L"
    and ms_word7: "kernel_pre L hash data midstate prehash \<Longrightarrow> i < L \<Longrightarrow>
      fst (ms hash data midstate prehash) ! (L * 7 + i) = sha256d_words (lane L i midstate) (lane L i data) ! 7"
    and ms_preextended: "kernel_pre L hash data midstate prehash \<Longrightarrow> i < L \<Longrightarrow>
      preextended (lane L i (snd (ms hash data midstate prehash)))"
    and ms_block: "kernel_pre L hash data midstate prehash \<Longrightarrow> i < L \<Longrightarrow> k < 16 \<Longrightarrow>
      lane L i (snd (ms hash data midstate prehash)) ! k = lane L i data ! k"
    and ms_lengths: "kernel_pre L hash data midstate prehash \<Longrightarrow>
      length (fst (ms hash data midstate prehash)) = L * 8 \<and>
      length (snd (ms hash data midstate prehash)) = L * 64"

text \<open>The loop invariant: outside of word 19 the work is untouched, and the arrays satisfy the
  kernel's precondition for the block of the work, whatever the nonce in word 3 is.\<close>

definition scan_inv :: "nat \<Rightarrow> work \<Rightarrow> work \<Rightarrow> u32 list \<Rightarrow> u32 list \<Rightarrow> u32 list \<Rightarrow> u32 list \<Rightarrow> bool" where
  "scan_inv L w0 w hash data midstate prehash \<longleftrightarrow>
     (\<exists>x. w = w0\<lparr>w_data := (w_data w0)[19 := x]\<rparr>) \<and>
     length hash = L * 8 \<and> length data = L * 64 \<and> length midstate = L * 8 \<and> length prehash = L * 8 \<and>
     (\<forall>i < L. preextended (lane L i data) \<and>
        (\<forall>k < 16. k \<noteq> 3 \<longrightarrow> lane L i data ! k = w_data w0 ! (16 + k)) \<and>
        lane L i midstate = scan_midstate 8 (w_data w0) \<and>
        lane L i prehash = sha256d_prehash (lane L i midstate) (drop 16 (w_data w0)))"

definition tested :: "work \<Rightarrow> nat \<Rightarrow> u32 list" where
  "tested w c = map (\<lambda>i. w_data w ! 19 + of_nat i) [0..<c]"

text \<open>
  The outcome of a search: it ran a positive number of passes, each after the first one allowed by
  the range and the restart flag; it stopped at the first pass with a nonce that meets the target
  and returns the first such nonce, or it found none among all the nonces it counts.
\<close>

definition scan_outcome :: "nat \<Rightarrow> bool \<Rightarrow> (nat \<Rightarrow> bool) \<Rightarrow> work \<Rightarrow> u32 \<Rightarrow> bool \<times> work \<times> u64 \<Rightarrow> bool" where
  "scan_outcome L sd restart w max_nonce r \<longleftrightarrow> (\<exists>p.
     let last = (\<lambda>p. w_data w ! 19 + of_nat (L * Suc p) - 1) in
     (\<forall>q < p. last q < max_nonce \<and> \<not> restart q) \<and>
     find (meets w) (tested w (L * p)) = None \<and>
     snd (snd r) = ucast (of_nat (L * Suc p) :: u32) \<and>
     (case find (meets w) (tested w (L * Suc p)) of
        Some m \<Rightarrow> fst r \<and> fst (snd r) = found_work sd w m
      | None \<Rightarrow> \<not> fst r \<and> fst (snd r) = w\<lparr>w_data := (w_data w)[19 := last p]\<rparr> \<and>
          (max_nonce \<le> last p \<or> restart p)))"

lemma find_append: "find P (xs @ ys) = (case find P xs of None \<Rightarrow> find P ys | Some x \<Rightarrow> Some x)"
  by (induction xs) auto

lemma tested_add: "tested w (c + d) = tested w c @ map (\<lambda>i. w_data w ! 19 + of_nat (c + i)) [0..<d]"
proof -
  have "map (\<lambda>i. w_data w ! 19 + of_nat i) [c..<c + d] = map (\<lambda>i. w_data w ! 19 + of_nat (c + i)) [0..<d]"
    by (rule nth_equalityI) simp_all
  then show ?thesis
    using upt_add_eq_append [of 0 c d] by (simp add: tested_def)
qed

lemma length_scan_midstate [layout]: "8 \<le> len \<Longrightarrow> length (scan_midstate len pdata) = len"
  by (simp add: scan_midstate_def length_sha256_transform sha256_init_def memcpy_at_def)

lemma scan_inv_kernel_pre:
  assumes "scan_inv L w0 w hash data midstate prehash" "length (w_data w0) = 48"
  shows "kernel_pre L hash data midstate prehash"
proof -
  have "sha256d_prehash M (lane L i data) = sha256d_prehash M (drop 16 (w_data w0))" if "i < L" for i M
    using assms that by (simp add: scan_inv_def sha256d_prehash_def RNDr_def)
  with assms show ?thesis by (simp add: scan_inv_def kernel_pre_def)
qed

lemma scan_inv_fill:
  assumes inv: "scan_inv L w0 w hash data midstate prehash" and "fill_nonces L n data = (n', data')"
  shows "scan_inv L w0 w hash data' midstate prehash"
proof -
  have len: "length data = L * 64" using inv by (simp add: scan_inv_def)
  note fill = fill_nonces_lanes [OF len assms(2)]
  show ?thesis
    using inv fill(2) by (auto simp: scan_inv_def fill(3) preextended_nonce)
qed

context ms_kernel
begin

lemma scan_inv_ms:
  assumes inv: "scan_inv L w0 w hash data midstate prehash" and len: "length (w_data w0) = 48"
    and "ms hash data midstate prehash = (hash', data')"
  shows "scan_inv L w0 w hash' data' midstate prehash"
proof -
  note pre = scan_inv_kernel_pre [OF inv len]
  show ?thesis
    using inv assms(3) ms_lengths [OF pre] ms_preextended [OF pre] ms_block [OF pre]
    by (simp add: scan_inv_def)
qed

lemma ms_top_word:
  assumes inv: "scan_inv L w0 w hash data midstate prehash" and len: "length (w_data w0) = 48"
    and i: "i < L" and m: "lane L i data ! 3 = m"
  shows "swab32 (fst (ms hash data midstate prehash) ! (L * 7 + i)) = nonce_hash (w_data w0) m ! 7"
proof -
  have "\<forall>k < 16. lane L i data ! k = (w_data w0)[19 := m] ! (16 + k)"
    using inv i m len by (auto simp: scan_inv_def nth_list_update)
  moreover have "take 8 (scan_midstate 8 (w_data w0)) = lane L i midstate"
    using inv i by (simp add: scan_inv_def layout)
  ultimately show ?thesis
    using nonce_hash_word7 [of "w_data w0" 8 "lane L i data" m] len i
      ms_word7 [OF scan_inv_kernel_pre [OF inv len] i] by simp
qed

end

context ms_kernel
begin

lemma pass:
  assumes inv: "scan_inv L w0 w hash data midstate prehash" and len: "length (w_data w0) = 48"
    and fill: "fill_nonces L n data = (n1, data1)" and ms: "ms hash data1 midstate prehash = (hash2, data2)"
    and chk: "check_lanes sd L (w_target w0 ! 7) data2 [0..<L] w hash2 = (found, w3, hash3)"
  shows "case find (meets w0) (map (\<lambda>i. n + of_nat (Suc i)) [0..<L]) of
      None \<Rightarrow> \<not> found \<and> scan_inv L w0 w3 hash3 data2 midstate prehash
    | Some m \<Rightarrow> found \<and> w3 = found_work sd w0 m"
proof -
  have "length data = L * 64" using inv by (simp add: scan_inv_def)
  note lanes1 = fill_nonces_lanes [OF this fill]
  note inv1 = scan_inv_fill [OF inv fill]
  note inv2 = scan_inv_ms [OF inv1 len ms] and pre1 = scan_inv_kernel_pre [OF inv1 len]
  have nonce: "lane L i data1 ! 3 = n + of_nat (Suc i)" if "i < L" for i
    using that lanes1 inv by (simp add: length_lane scan_inv_def)
  have data2: "data2 ! (L * 3 + i) = n + of_nat (Suc i)" if "i < L" for i
  proof -
    have "data2 ! (L * 3 + i) = lane L i data2 ! 3"
      using that inv2 nth_lane [of 3 data2 L i] by (simp add: scan_inv_def mult.commute)
    with ms_block [OF pre1 that, of 3] nonce [OF that] show ?thesis by (simp add: ms)
  qed
  have top: "\<forall>i \<in> set [0..<L]. swab32 (hash2 ! (L * 7 + i)) = nonce_hash (w_data w0) (data2 ! (L * 3 + i)) ! 7"
    using ms_top_word [OF inv1 len] nonce data2 by (simp add: ms)
  obtain x where w: "w = w0\<lparr>w_data := (w_data w0)[19 := x]\<rparr>" and h: "length hash2 = L * 8"
    using inv2 by (auto simp: scan_inv_def)
  have nonces: "map (\<lambda>i. data2 ! (L * 3 + i)) [0..<L] = map (\<lambda>i. n + of_nat (Suc i)) [0..<L]"
    using data2 by simp
  have "8 \<le> length hash2" "2 \<le> L \<or> length [0..<L] \<le> 1" using h lanes_pos by auto
  from check_lanes_find [OF w this(1) top this(2), of sd] show ?thesis
    using inv2 unfolding chk nonces by (auto simp: scan_inv_def h split: option.splits)
qed

lemma lanes_loop_outcome:
  assumes hdr: "header_ok w0" and room: "unat max_nonce + L \<le> 4294967296"
    and "scan_inv L w0 w hash data midstate prehash"
    and "n = w_data w0 ! 19 + of_nat (L * p) - 1"
    and "find (meets w0) (tested w0 (L * p)) = None"
    and "\<forall>q < p. w_data w0 ! 19 + of_nat (L * Suc q) - 1 < max_nonce \<and> \<not> restart q"
  shows "\<exists>r. lanes_loop sd restart L ms max_nonce (w_data w0 ! 19) (w_target w0 ! 7) midstate prehash p w hash data n
      = Some r \<and> scan_outcome L sd restart w0 max_nonce r"
  using assms(3-6)
proof (induction "unat max_nonce - unat (n + of_nat L)" arbitrary: p w hash data n rule: less_induct)
  case less
  have len: "length (w_data w0) = 48" using hdr by (simp add: header_ok_def)
  obtain n1 data1 where fill: "fill_nonces L n data = (n1, data1)" by fastforce
  obtain hash2 data2 where ms: "ms hash data1 midstate prehash = (hash2, data2)" by fastforce
  obtain found w3 hash3 where
    chk: "check_lanes sd L (w_target w0 ! 7) data2 [0..<L] w hash2 = (found, w3, hash3)"
    using prod_cases3 by blast
  note pass = pass [OF less.prems(1) len fill ms chk]
  have n1: "n1 = n + of_nat L"
    using fill_nonces_lanes(1) [OF _ fill] less.prems(1) by (simp add: scan_inv_def)
  then have last: "n1 = w_data w0 ! 19 + of_nat (L * Suc p) - 1" by (simp add: less.prems(2))
  have nonces: "map (\<lambda>i. n + of_nat (Suc i)) [0..<L] = map (\<lambda>i. w_data w0 ! 19 + of_nat (L * p + i)) [0..<L]"
    using less.prems(2) by simp
  have all: "find (meets w0) (tested w0 (L * Suc p)) = find (meets w0) (map (\<lambda>i. n + of_nat (Suc i)) [0..<L])"
    using less.prems(3) tested_add [of w0 "L * p" L] unfolding nonces by (simp add: find_append add.commute)
  have done_count: "n1 - w_data w0 ! 19 + 1 = of_nat (L * Suc p)" by (simp add: last)
  have step: "lanes_loop sd restart L ms max_nonce (w_data w0 ! 19) (w_target w0 ! 7) midstate prehash p w hash data n =
    (if found then Some (True, w3, ucast (n1 - w_data w0 ! 19 + 1))
     else if n1 < max_nonce \<and> \<not> restart p
     then lanes_loop sd restart L ms max_nonce (w_data w0 ! 19) (w_target w0 ! 7) midstate prehash (Suc p) w3 hash3 data2 n1
     else Some (False, w3\<lparr>w_data := (w_data w3)[19 := n1]\<rparr>, ucast (n1 - w_data w0 ! 19 + 1)))"
    by (subst lanes_loop.simps) (simp add: fill ms chk)
  show ?case
  proof (cases "found \<or> \<not> (n1 < max_nonce \<and> \<not> restart p)")
    case True
    define r where "r = (found, if found then w3 else w3\<lparr>w_data := (w_data w3)[19 := n1]\<rparr>,
      ucast (of_nat (L * Suc p) :: u32) :: u64)"
    have "lanes_loop sd restart L ms max_nonce (w_data w0 ! 19) (w_target w0 ! 7) midstate prehash p w hash data n = Some r"
      unfolding step done_count r_def using True by auto
    moreover have "case find (meets w0) (tested w0 (L * Suc p)) of
        Some m \<Rightarrow> fst r \<and> fst (snd r) = found_work sd w0 m
      | None \<Rightarrow> \<not> fst r \<and> fst (snd r) = w0\<lparr>w_data := (w_data w0)[19 := n1]\<rparr> \<and> (max_nonce \<le> n1 \<or> restart p)"
      using pass True unfolding all r_def by (auto simp: scan_inv_def split: option.splits)
    ultimately show ?thesis
      using less.prems(3,4) unfolding scan_outcome_def Let_def last [symmetric]
      by (intro exI [of _ r] conjI exI [of _ p]) (simp_all only: last r_def snd_conv)
  next
    case False
    then have none: "find (meets w0) (tested w0 (L * Suc p)) = None"
      and inv3: "scan_inv L w0 w3 hash3 data2 midstate prehash"
      using pass unfolding all by (auto split: option.splits)
    have "unat (n1 + of_nat L) = unat n1 + L"
      using False room by (intro unat_add_of_nat_u32) (simp add: word_less_nat_alt)
    then have "unat max_nonce - unat (n1 + of_nat L) < unat max_nonce - unat (n + of_nat L)"
      using False lanes_pos unfolding n1 [symmetric] by (auto simp: word_less_nat_alt)
    moreover have "\<forall>q < Suc p. w_data w0 ! 19 + of_nat (L * Suc q) - 1 < max_nonce \<and> \<not> restart q"
      using less.prems(4) False last by (simp add: less_Suc_eq)
    ultimately show ?thesis using less.hyps [OF _ inv3 last none] False by (simp add: step)
  qed
qed

end

section \<open>The start of the search\<close>

lemma RNDr_append: "length S = 8 \<Longrightarrow> RNDr W i (S @ ys) = RNDr W i S @ ys"
proof -
  have "m mod 8 < (8 :: nat)" for m by simp
  then show "length S = 8 \<Longrightarrow> RNDr W i (S @ ys) = RNDr W i S @ ys"
    by (simp add: RNDr_def RND_def Let_def list_update_append nth_append)
qed

lemma sha256d_prehash_append: "length S = 8 \<Longrightarrow> sha256d_prehash (S @ ys) W = sha256d_prehash S W @ ys"
  by (simp add: sha256d_prehash_def RNDr_append)

lemma sha256d_preextend_append: "32 \<le> length W \<Longrightarrow> sha256d_preextend (W @ ys) = sha256d_preextend W @ ys"
  by (simp add: sha256d_preextend_def stores_def list_update_append nth_append)

lemma preextended_low:
  assumes "preextended W" "length V = 64" "take 32 V = take 32 W"
  shows "preextended V"
proof -
  have "V ! i = W ! i" if "i < 32" for i using assms(3) that by (metis nth_take)
  with assms(1,2) show ?thesis by (simp add: preextended_def)
qed

lemma scan_midstate_long:
  "8 \<le> len \<Longrightarrow> scan_midstate len pdata = scan_midstate 8 pdata @ replicate (len - 8) 0"
  by (simp add: scan_midstate_def sha256_init_def memcpy_at_def sha256_transform_take [of "sha256_h @ _"])

lemma scan_prehash_long:
  assumes "8 \<le> len"
  shows "scan_prehash len pdata = sha256d_prehash (scan_midstate 8 pdata) (drop 16 pdata) @ replicate (len - 8) 0"
proof -
  have "take 8 (scan_midstate len pdata) = scan_midstate 8 pdata"
    using scan_midstate_long [OF assms] by (simp add: layout)
  with assms show ?thesis
    by (simp add: scan_prehash_def memcpy_at_def layout sha256d_prehash_append)
qed

lemma scan_data_long:
  assumes "64 \<le> len" "length pdata = 48"
  shows "scan_data len pdata = scan_data 64 pdata @ replicate (len - 64) 0"
proof -
  let ?B = "take 16 (drop 16 pdata) @ replicate 48 0"
  have "replicate (len - 16) (0 :: u32) = replicate 48 0 @ replicate (len - 64) 0"
    using assms(1) by (simp flip: replicate_add)
  then have "scan_data len pdata = sha256d_preextend (?B @ replicate (len - 64) 0)"
    using assms by (simp add: scan_data_def memcpy_at_def)
  also have "\<dots> = sha256d_preextend ?B @ replicate (len - 64) 0"
    using assms by (intro sha256d_preextend_append) simp
  finally show ?thesis using assms by (simp add: scan_data_def memcpy_at_def)
qed

lemma scan_data_64:
  assumes "header_ok w"
  shows "preextended (scan_data 64 (w_data w))" "k < 16 \<Longrightarrow> scan_data 64 (w_data w) ! k = w_data w ! (16 + k)"
proof -
  let ?W = "memcpy_at (replicate 64 0) 0 (take 16 (drop 16 (w_data w)))"
  have W: "length ?W = 64" "\<And>k. k < 16 \<Longrightarrow> ?W ! k = w_data w ! (16 + k)"
    using assms by (auto simp: header_ok_def memcpy_at_def nth_append)
  moreover have "\<forall>i \<in> {5..14}. ?W ! i = 0" using W(2) assms by (simp add: header_ok_def)
  ultimately show "preextended (scan_data 64 (w_data w))"
    unfolding scan_data_def by (intro preextended_preextend)
  show "k < 16 \<Longrightarrow> scan_data 64 (w_data w) ! k = w_data w ! (16 + k)"
    unfolding scan_data_def by (simp only: sha256d_preextend_low [OF W(1)] W(2))
qed

lemma lane_start:
  assumes "i < L" "length xs = 8"
  shows "lane L i (spread L 8 (xs @ replicate (L * 8 - 8) 0)) = xs"
proof -
  have "length (xs @ replicate (L * 8 - 8) 0) = L * 8" using assms by simp
  from lane_spread [OF assms(1) order_refl this] show ?thesis
    using assms by (simp add: length_lane length_spread)
qed

lemma scan_inv_start:
  assumes hdr: "header_ok w" and L: "0 < L"
  shows "scan_inv L w w (replicate (L * 8) 0) (spread L 32 (scan_data (L * 64) (w_data w)))
    (spread L 8 (scan_midstate (L * 8) (w_data w))) (spread L 8 (scan_prehash (L * 8) (w_data w)))"
proof -
  let ?p = "w_data w"
  let ?d = "spread L 32 (scan_data (L * 64) ?p)"
  have len: "length ?p = 48" "64 \<le> L * 64" "8 \<le> L * 8" using hdr L by (simp_all add: header_ok_def)
  note D = scan_data_64 [OF hdr]
  have sz: "length (scan_data 64 ?p) = 64" using D(1) by (simp add: preextended_def)
  then have dl: "length (scan_data (L * 64) ?p) = L * 64" using scan_data_long [OF len(2,1)] len by simp
  have low: "take 32 (lane L i ?d) = take 32 (scan_data 64 ?p)" if "i < L" for i
    using lane_spread [OF that _ dl, of 32] sz by (simp add: scan_data_long [OF len(2,1)])
  moreover have "length (lane L i ?d) = 64" for i using dl L by (simp add: layout)
  ultimately have "preextended (lane L i ?d)" if "i < L" for i
    using preextended_low [OF D(1)] that by blast
  moreover have "lane L i ?d ! k = ?p ! (16 + k)" if "i < L" "k < 16" for i k
    using arg_cong [where f = "\<lambda>xs. xs ! k", OF low [OF that(1)]] D(2) [OF that(2)] that by simp
  moreover have "length (sha256d_prehash (scan_midstate 8 ?p) (drop 16 ?p)) = 8"
    by (simp add: sha256d_prehash_def layout)
  ultimately show ?thesis
    using dl len hdr L
    by (auto simp: scan_inv_def layout scan_midstate_long [of "L * 8"] scan_prehash_long [of "L * 8"] lane_start
        intro: exI [of _ "?p ! 19"])
qed

context ms_kernel
begin

lemma scanhash_lanes_outcome:
  assumes "header_ok w" "unat max_nonce + L \<le> 4294967296"
  shows "\<exists>r. scanhash_lanes L ms sd restart w max_nonce = Some r \<and> scan_outcome L sd restart w max_nonce r"
  unfolding scanhash_lanes_def Let_def
  using assms scan_inv_start [OF assms(1) lanes_pos]
  by (intro lanes_loop_outcome) (simp_all add: tested_def)

end

section \<open>The kernels\<close>

lemma lane_1: "lane (Suc 0) 0 xs = xs"
  by (rule nth_equalityI) (simp_all add: lane_def)

lemma length_sha256d_prehash [layout]: "length (sha256d_prehash S W) = length S"
  by (simp add: sha256d_prehash_def layout)

lemma length_sha256d_ms: "length hash = 8 \<Longrightarrow> length (fst (sha256d_ms hash W midstate prehash)) = 8"
  by (simp add: sha256d_ms_def ms_tail_def Let_def length_rounds sha256_init_def memcpy_at_def del: upt_rec_numeral)

text \<open>The portable kernel is the case of one lane.\<close>

interpretation c_kernel: ms_kernel 1 sha256d_ms
proof (unfold_locales, goal_cases)
  case (2 hash data midstate prehash i)
  then show ?case
    using sha256d_ms_word7 [of data midstate hash prehash] by (simp add: kernel_pre_def lane_1)
next
  case (3 hash data midstate prehash i)
  then show ?case
    using sha256d_ms_preextended [of data midstate prehash hash] by (simp add: kernel_pre_def lane_1)
next
  case (4 hash data midstate prehash i k)
  then show ?case
    using sha256d_ms_kept [of data midstate prehash k hash] by (simp add: kernel_pre_def lane_1 kept_words_def)
next
  case (5 hash data midstate prehash)
  then show ?case
    by (simp add: kernel_pre_def length_sha256d_ms sha256d_ms_length)
qed simp

text \<open>A reference kernel for any number of lanes: the portable kernel in every lane.\<close>

definition interleave :: "nat \<Rightarrow> u32 list list \<Rightarrow> nat \<Rightarrow> u32 list" where
  "interleave L ls m = map (\<lambda>p. ls ! (p mod L) ! (p div L)) [0..<L * m]"

definition ms_lanes :: "nat \<Rightarrow> kernel" where
  "ms_lanes L hash data midstate prehash =
    (let rs = map (\<lambda>i. sha256d_ms (lane L i hash) (lane L i data) (lane L i midstate) (lane L i prehash)) [0..<L]
     in (interleave L (map fst rs) 8, interleave L (map snd rs) 64))"

lemma lane_interleave:
  assumes "i < L" "length ls = L" "length (ls ! i) = m"
  shows "lane L i (interleave L ls m) = ls ! i"
proof (rule nth_equalityI)
  fix k assume "k < length (lane L i (interleave L ls m))"
  then have "k < m" using assms by (simp add: length_lane interleave_def)
  with assms lane_index_less [of i L k m] show "lane L i (interleave L ls m) ! k = ls ! i ! k"
    by (simp add: nth_lane interleave_def)
qed (use assms in \<open>simp add: length_lane interleave_def\<close>)

lemma ms_kernel_lanes:
  assumes "0 < L"
  shows "ms_kernel L (ms_lanes L)"
proof
  fix hash data midstate prehash i
  assume pre: "kernel_pre L hash data midstate prehash" and i: "i < L"
  let ?h = "lane L i hash" and ?d = "lane L i data" and ?m = "lane L i midstate" and ?p = "lane L i prehash"
  have one: "kernel_pre 1 ?h ?d ?m ?p"
    using pre i by (auto simp: kernel_pre_def lane_1 layout)
  note one_laws = c_kernel.ms_word7 [OF one, of 0] c_kernel.ms_preextended [OF one, of 0]
    c_kernel.ms_block [OF one, of 0] c_kernel.ms_lengths [OF one]
  have fst: "lane L i (fst (ms_lanes L hash data midstate prehash)) = fst (sha256d_ms ?h ?d ?m ?p)"
    and snd: "lane L i (snd (ms_lanes L hash data midstate prehash)) = snd (sha256d_ms ?h ?d ?m ?p)"
    using i one_laws(4) by (simp_all add: ms_lanes_def Let_def lane_interleave)
  show "preextended (lane L i (snd (ms_lanes L hash data midstate prehash)))"
    using one_laws(2) by (simp add: snd lane_1)
  show "lane L i (snd (ms_lanes L hash data midstate prehash)) ! k = ?d ! k" if "k < 16" for k
    using one_laws(3) that by (simp add: snd lane_1)
  have "length (fst (ms_lanes L hash data midstate prehash)) = L * 8"
    by (simp add: ms_lanes_def Let_def interleave_def)
  then show "fst (ms_lanes L hash data midstate prehash) ! (L * 7 + i) = sha256d_words ?m ?d ! 7"
    using nth_lane [of 7 "fst (ms_lanes L hash data midstate prehash)" L i] one_laws(1) i
    by (simp add: fst lane_1 mult.commute)
next
  show "length (fst (ms_lanes L hash data midstate prehash)) = L * 8 \<and>
      length (snd (ms_lanes L hash data midstate prehash)) = L * 64" for hash data midstate prehash
    by (simp add: ms_lanes_def Let_def interleave_def)
qed (use assms in simp_all)

interpretation lanes4: ms_kernel 4 "ms_lanes 4"
  by (rule ms_kernel_lanes) simp

interpretation lanes8: ms_kernel 8 "ms_lanes 8"
  by (rule ms_kernel_lanes) simp

text \<open>The portable loop is the vectorised loop for one lane.\<close>

lemma scan_loop_lanes:
  "lanes_loop sd restart (Suc 0) sha256d_ms max_nonce first Htarg midstate prehash t w hash data n
   = Some (scan_loop sd restart max_nonce first Htarg midstate prehash t w hash data n)"
proof (induction sd restart max_nonce first Htarg midstate prehash t w hash data n rule: scan_loop.induct)
  case (1 sd restart max_nonce first Htarg midstate prehash t w hash data n)
  obtain h d where ms: "sha256d_ms hash (data[3 := n + 1]) midstate prehash = (h, d)" by fastforce
  show ?case
    by (subst lanes_loop.simps, subst scan_loop.simps)
      (use 1 ms in \<open>auto simp: fill_nonces_def Let_def\<close>)
qed

lemma spread_1: "spread (Suc 0) k xs = xs"
proof -
  have "fold (\<lambda>i xs. xs[i := xs ! i]) is xs = xs" for "is" by (induction "is") simp_all
  then show ?thesis by (simp add: spread_def)
qed

lemma scanhash_c_lanes: "scanhash_lanes (Suc 0) sha256d_ms sd restart w max_nonce = Some (scanhash_c sd restart w max_nonce)"
  by (simp add: scanhash_lanes_def scanhash_c_def Let_def scan_loop_lanes spread_1)

section \<open>The hash of the header as a number\<close>

lemma le_val_rev: "le_val (rev bs) = be_val bs"
proof -
  have "be_val (rev bs) = le_val bs" for bs
    by (induction bs) (simp_all add: be_val_snoc)
  from this [of "rev bs"] show ?thesis by simp
qed

lemma le_val_append: "le_val (xs @ ys) = le_val xs + 256 ^ length xs * le_val ys"
  by (induction xs) (simp_all add: algebra_simps)

lemma le_val_bytes_of_words: "le_val (bytes_of_words ws) = le32_val ws"
  by (induction ws) (simp_all add: bytes_of_words_def le_val_append le32enc_rev le_val_rev be_val_be32enc)

text \<open>The double SHA-256 of the eighty header bytes, read as a little-endian number, and the
  headers for which the search is meaningful: with their padding in place.\<close>

definition header_value :: "u32 list \<Rightarrow> nat" where
  "header_value pdata = le_val (fips_sha256 (fips_sha256 (concat (map be32enc (take 20 pdata)))))"

definition padded_work :: "work \<Rightarrow> bool" where
  "padded_work w \<longleftrightarrow> length (w_data w) = 48 \<and> length (w_target w) = 8 \<and>
     take 12 (drop 20 (w_data w)) = header_padding"

lemma padded_header_ok:
  assumes "padded_work w" shows "header_ok w"
proof -
  have pad: "header_padding ! j = 0" if "1 \<le> j" "j \<le> 10" for j
  proof -
    have "j \<in> set [1..<11]" using that by simp
    then show ?thesis by (auto simp: header_padding_def upt_rec)
  qed
  have "w_data w ! i = 0" if "i \<in> {21..30}" for i
  proof -
    have "length (w_data w) = 48" using assms by (simp add: padded_work_def)
    then have "w_data w ! i = take 12 (drop 20 (w_data w)) ! (i - 20)" using that by auto
    also have "\<dots> = header_padding ! (i - 20)" using assms by (simp add: padded_work_def)
    finally show ?thesis using pad [of "i - 20"] that by auto
  qed
  then show ?thesis using assms by (simp add: header_ok_def padded_work_def)
qed

lemma meets_value:
  assumes "padded_work w"
  shows "meets w m \<longleftrightarrow> header_value ((w_data w)[19 := m]) \<le> le32_val (w_target w)"
proof -
  have "take 12 (drop 20 ((w_data w)[19 := m])) = header_padding"
    using assms by (simp add: padded_work_def)
  then have "bytes_of_words (nonce_hash (w_data w) m) =
      fips_sha256 (fips_sha256 (concat (map be32enc (take 20 ((w_data w)[19 := m])))))"
    unfolding nonce_hash_def using assms by (intro sha256d_80_swap_fips_gen) (simp_all add: padded_work_def)
  then have "le32_val (nonce_hash (w_data w) m) = header_value ((w_data w)[19 := m])"
    unfolding header_value_def le_val_bytes_of_words [symmetric] by simp
  then show ?thesis
    using assms by (simp add: meets_def fulltest_val length_nonce_hash padded_work_def)
qed

lemma found_work_fields:
  "w_data (found_work sd w m) = (w_data w)[19 := m]" "w_target (found_work sd w m) = w_target w"
  by (simp_all add: found_work_def work_set_target_ratio_def Let_def)

lemma tested_covers:
  assumes "w_data w ! 19 \<le> m" "m \<le> max_nonce" "max_nonce \<le> w_data w ! 19 + of_nat c - 1" "0 < c"
  shows "m \<in> set (tested w c)"
proof -
  let ?f = "w_data w ! 19" and ?d = "unat m - unat (w_data w ! 19)"
  have le: "unat ?f \<le> unat m" using assms(1) by (simp add: word_le_nat_alt)
  then have m: "m = ?f + of_nat ?d" by (simp add: of_nat_diff)
  have "?d < c"
  proof (rule ccontr)
    assume "\<not> ?d < c"
    then have c: "unat ?f + (c - 1) < unat m" using assms(4) le by simp
    then have "unat (?f + of_nat (c - 1)) = unat ?f + (c - 1)"
      using unat_u32_less [of m] by (intro unat_add_of_nat_u32) simp
    moreover have "?f + of_nat c - 1 = ?f + of_nat (c - 1)" using assms(4) by (simp add: of_nat_diff)
    ultimately have "unat (?f + of_nat c - 1) < unat m" using c by (simp only:)
    then show False using assms(2,3) unfolding word_le_nat_alt by linarith
  qed
  with m show ?thesis unfolding tested_def by auto
qed

lemma scan_outcome_found:
  assumes "scan_outcome L sd restart w max_nonce (True, w', d)"
  shows "\<exists>m. meets w m \<and> w' = found_work sd w m"
  using assms by (auto simp: scan_outcome_def Let_def find_Some_iff split: option.splits)

lemma scan_outcome_not_found:
  assumes "scan_outcome L sd restart w max_nonce (False, w', d)" "\<forall>t. \<not> restart t" "0 < L"
    and "w_data w ! 19 \<le> m" "m \<le> max_nonce"
  shows "\<not> meets w m"
proof -
  obtain p where "find (meets w) (tested w (L * Suc p)) = None"
    "max_nonce \<le> w_data w ! 19 + of_nat (L * Suc p) - 1"
    using assms(1,2) by (auto simp: scan_outcome_def Let_def split: option.splits)
  with tested_covers [of w m max_nonce "L * Suc p"] assms(3-5) show ?thesis
    by (auto simp: find_None_iff)
qed

lemma scanhash_outcome:
  assumes "ms_kernel 8 ms8" "ms_kernel 4 ms4" "header_ok w" "unat max_nonce + 8 \<le> 4294967296"
  shows "\<exists>r. scanhash_sha256d use8 use4 ms8 ms4 sd restart w max_nonce = Some r \<and>
    scan_outcome (if use8 then 8 else if use4 then 4 else 1) sd restart w max_nonce r"
proof -
  have "\<exists>r. scanhash_lanes 8 ms8 sd restart w max_nonce = Some r \<and> scan_outcome 8 sd restart w max_nonce r"
    using assms by (intro ms_kernel.scanhash_lanes_outcome) simp_all
  moreover have "\<exists>r. scanhash_lanes 4 ms4 sd restart w max_nonce = Some r \<and> scan_outcome 4 sd restart w max_nonce r"
    using assms by (intro ms_kernel.scanhash_lanes_outcome) simp_all
  moreover have "scan_outcome 1 sd restart w max_nonce (scanhash_c sd restart w max_nonce)"
    using c_kernel.scanhash_lanes_outcome [of w max_nonce sd restart] assms by (simp add: scanhash_c_lanes)
  ultimately show ?thesis
    by (simp add: scanhash_sha256d_def scanhash_sha256d_8way_def scanhash_sha256d_4way_def del: split_paired_Ex)
qed

section \<open>Properties\<close>

text \<open>C5: for kernels that satisfy their contract and a range that leaves room for one more pass
  below $2^{32}$, the search returns, on each of the three code paths, and its outcome is the one
  specified by \<open>scan_outcome\<close>: it tests the nonces from the starting one upwards without gaps, it
  stops at the first pass that has a nonce whose hash meets the target and returns the first such
  nonce, it otherwise stops only at the end of the range or when a restart is requested, it counts
  the nonces it tested, and it changes nothing else in the work.\<close>

theorem scanhash_sha256d_outcome:
  assumes "ms_kernel 8 ms8" and "ms_kernel 4 ms4"
    and "header_ok w" and "unat max_nonce + 8 \<le> 4294967296"
  shows "\<exists>r. scanhash_sha256d use8 use4 ms8 ms4 sd restart w max_nonce = Some r \<and>
    scan_outcome (if use8 then 8 else if use4 then 4 else 1) sd restart w max_nonce r"
  using assms by (rule scanhash_outcome)

theorem scanhash_sha256d_outcome_witness:
  "\<exists>r. scanhash_sha256d False True (ms_lanes 8) (ms_lanes 4) False (\<lambda>_. False) work0 1000 = Some r \<and>
    scan_outcome 4 False (\<lambda>_. False) work0 1000 r"
  using scanhash_sha256d_outcome [of "ms_lanes 8" "ms_lanes 4" work0 1000 False True False "\<lambda>_. False",
      OF lanes8.ms_kernel_axioms lanes4.ms_kernel_axioms]
  by (simp add: header_ok_def work0_def)

text \<open>A header that every nonce solves, on which the next two properties are exercised.\<close>

definition easy_work :: work where
  "easy_work = work0\<lparr>w_data := replicate 20 0 @ header_padding @ replicate 16 0, w_target := replicate 8 (-1)\<rparr>"

lemma padded_easy_work: "padded_work easy_work"
  by (simp add: easy_work_def padded_work_def work0_def header_padding_def)

lemma easy_work_nonce: "w_data easy_work ! 19 = 0"
  by (simp add: easy_work_def nth_append)

lemma easy_work_meets: "meets easy_work m"
proof -
  have "w_target easy_work = replicate 8 (-1)" by (simp add: easy_work_def)
  then show ?thesis unfolding meets_def by (simp only: fulltest_full_target length_nonce_hash)
qed

lemma scanhash_reaches_solution:
  assumes "ms_kernel 8 ms8" and "ms_kernel 4 ms4"
    and "header_ok w" and "unat max_nonce + 8 \<le> 4294967296" and "\<forall>t. \<not> restart t"
    and "w_data w ! 19 \<le> m" and "m \<le> max_nonce" and "meets w m"
  shows "\<exists>m' d. scanhash_sha256d use8 use4 ms8 ms4 sd restart w max_nonce = Some (True, found_work sd w m', d) \<and>
    meets w m'"
proof -
  define L :: nat where "L = (if use8 then 8 else if use4 then 4 else 1)"
  obtain found w' d where r: "scanhash_sha256d use8 use4 ms8 ms4 sd restart w max_nonce = Some (found, w', d)"
    "scan_outcome L sd restart w max_nonce (found, w', d)"
    using scanhash_outcome [OF assms(1-4), of use8 use4 sd restart] by (auto simp: L_def)
  have "0 < L" by (simp add: L_def)
  have "found"
  proof (rule ccontr)
    assume "\<not> found"
    with r(2) have "scan_outcome L sd restart w max_nonce (False, w', d)" by simp
    from scan_outcome_not_found [OF this assms(5) \<open>0 < L\<close> assms(6,7)] assms(8) show False by simp
  qed
  with r(2) obtain m' where "meets w m'" "w' = found_work sd w m'" using scan_outcome_found by metis
  with r(1) \<open>found\<close> show ?thesis by auto
qed

text \<open>C4: a nonce that the search reports is a solution: the double SHA-256 of the eighty header
  bytes of the returned work, read as a little-endian number, is at most the target, and the
  returned header differs from the given one in the nonce only.\<close>

theorem scanhash_found_solution:
  assumes "ms_kernel 8 ms8" and "ms_kernel 4 ms4"
    and "padded_work w" and "unat max_nonce + 8 \<le> 4294967296"
    and "scanhash_sha256d use8 use4 ms8 ms4 sd restart w max_nonce = Some (True, w', done_count)"
  shows "header_value (w_data w') \<le> le32_val (w_target w) \<and>
    (\<exists>m. w_data w' = (w_data w)[19 := m]) \<and> w_target w' = w_target w"
proof -
  have "scan_outcome (if use8 then 8 else if use4 then 4 else 1) sd restart w max_nonce (True, w', done_count)"
    using scanhash_outcome [OF assms(1,2) padded_header_ok [OF assms(3)] assms(4), of use8 use4 sd restart] assms(5)
    by auto
  then obtain m where "meets w m" "w' = found_work sd w m" using scan_outcome_found by blast
  then show ?thesis using meets_value [OF assms(3)] by (auto simp: found_work_fields)
qed

theorem scanhash_found_solution_witness:
  "\<exists>w' d. scanhash_sha256d True False (ms_lanes 8) (ms_lanes 4) True (\<lambda>_. False) easy_work 1000 = Some (True, w', d) \<and>
     header_value (w_data w') \<le> le32_val (w_target easy_work) \<and>
     (\<exists>m. w_data w' = (w_data easy_work)[19 := m]) \<and> w_target w' = w_target easy_work"
proof -
  obtain m d where r: "scanhash_sha256d True False (ms_lanes 8) (ms_lanes 4) True (\<lambda>_. False) easy_work 1000
      = Some (True, found_work True easy_work m, d)"
    using scanhash_reaches_solution [OF lanes8.ms_kernel_axioms lanes4.ms_kernel_axioms
        padded_header_ok [OF padded_easy_work], of 1000 "\<lambda>_. False" 1000 True False True] easy_work_meets
    by (auto simp: easy_work_nonce)
  from scanhash_found_solution [OF lanes8.ms_kernel_axioms lanes4.ms_kernel_axioms padded_easy_work _ r] r
  show ?thesis by auto
qed

text \<open>C3: the search misses nothing: if some nonce from the starting one to the end of the range
  solves the header and no restart is requested, the search returns with success, and the header it
  returns is solved.\<close>

theorem scanhash_finds_solution:
  assumes "ms_kernel 8 ms8" and "ms_kernel 4 ms4"
    and "padded_work w" and "unat max_nonce + 8 \<le> 4294967296" and "\<forall>t. \<not> restart t"
    and "w_data w ! 19 \<le> m" and "m \<le> max_nonce"
    and "header_value ((w_data w)[19 := m]) \<le> le32_val (w_target w)"
  shows "\<exists>w' d. scanhash_sha256d use8 use4 ms8 ms4 sd restart w max_nonce = Some (True, w', d) \<and>
    header_value (w_data w') \<le> le32_val (w_target w)"
  using scanhash_reaches_solution [OF assms(1,2) padded_header_ok [OF assms(3)] assms(4-7), of use8 use4 sd]
    assms(8) meets_value [OF assms(3)] found_work_fields by metis

theorem scanhash_finds_solution_witness:
  "\<exists>w' d. scanhash_sha256d False False (ms_lanes 8) (ms_lanes 4) True (\<lambda>_. False) easy_work 1000 = Some (True, w', d) \<and>
     header_value (w_data w') \<le> le32_val (w_target easy_work)"
  using scanhash_finds_solution [OF lanes8.ms_kernel_axioms lanes4.ms_kernel_axioms padded_easy_work,
      of 1000 "\<lambda>_. False" 7 False False True] easy_work_meets [unfolded meets_value [OF padded_easy_work]]
  by (simp add: easy_work_nonce)

end
