(* ===== verification/Elist.thy ===== *)
theory Elist
  imports Miner_Prelude
begin

text \<open>
  The doubly linked lists of \<^verbatim>\<open>elist.h\<close> in an explicit heap: a node is an address, its two
  pointers are what the heap holds there, and 0 is the null pointer. Every operation is the
  sequence of assignments of the code. The abstract view of a list is the HOL list of its
  nodes, and the operations refine the list operations.
\<close>

section \<open>Nodes and assignments\<close>

record list_head =
  lnext :: nat
  lprev :: nat

type_synonym heap = "nat \<Rightarrow> list_head"

definition set_next :: "nat \<Rightarrow> nat \<Rightarrow> heap \<Rightarrow> heap" where
  "set_next p v h = h(p := (h p)\<lparr>lnext := v\<rparr>)"

definition set_prev :: "nat \<Rightarrow> nat \<Rightarrow> heap \<Rightarrow> heap" where
  "set_prev p v h = h(p := (h p)\<lparr>lprev := v\<rparr>)"

section \<open>Operations\<close>

definition INIT_LIST_HEAD :: "nat \<Rightarrow> heap \<Rightarrow> heap" where
  "INIT_LIST_HEAD ptr h = set_prev ptr ptr (set_next ptr ptr h)"

definition list_add_between :: "nat \<Rightarrow> nat \<Rightarrow> nat \<Rightarrow> heap \<Rightarrow> heap" where
  "list_add_between nlh prev nxt h =
    (let h = set_prev nxt nlh h;
         h = set_next nlh nxt h;
         h = set_prev nlh prev h
     in set_next prev nlh h)"

definition list_add :: "nat \<Rightarrow> nat \<Rightarrow> heap \<Rightarrow> heap" where
  "list_add nlh head h = list_add_between nlh head (lnext (h head)) h"

definition list_add_tail :: "nat \<Rightarrow> nat \<Rightarrow> heap \<Rightarrow> heap" where
  "list_add_tail nlh head h = list_add_between nlh (lprev (h head)) head h"

definition list_del_between :: "nat \<Rightarrow> nat \<Rightarrow> heap \<Rightarrow> heap" where
  "list_del_between prev nxt h = set_next prev nxt (set_prev nxt prev h)"

definition list_del :: "nat \<Rightarrow> heap \<Rightarrow> heap" where
  "list_del entry h =
    (let h = list_del_between (lprev (h entry)) (lnext (h entry)) h;
         h = set_next entry 0 h
     in set_prev entry 0 h)"

definition list_del_init :: "nat \<Rightarrow> heap \<Rightarrow> heap" where
  "list_del_init entry h =
    INIT_LIST_HEAD entry (list_del_between (lprev (h entry)) (lnext (h entry)) h)"

definition list_move :: "nat \<Rightarrow> nat \<Rightarrow> heap \<Rightarrow> heap" where
  "list_move entry head h =
    list_add entry head (list_del_between (lprev (h entry)) (lnext (h entry)) h)"

definition list_move_tail :: "nat \<Rightarrow> nat \<Rightarrow> heap \<Rightarrow> heap" where
  "list_move_tail entry head h =
    list_add_tail entry head (list_del_between (lprev (h entry)) (lnext (h entry)) h)"

definition list_empty :: "nat \<Rightarrow> heap \<Rightarrow> bool" where
  "list_empty head h \<longleftrightarrow> lnext (h head) = head"

definition list_splice_at :: "nat \<Rightarrow> nat \<Rightarrow> heap \<Rightarrow> heap" where
  "list_splice_at lst head h =
    (let first = lnext (h lst);
         last = lprev (h lst);
         pos = lnext (h head);
         h = set_prev first head h;
         h = set_next head first h;
         h = set_next last pos h
     in set_prev pos last h)"

definition list_splice :: "nat \<Rightarrow> nat \<Rightarrow> heap \<Rightarrow> heap" where
  "list_splice lst head h = (if list_empty lst h then h else list_splice_at lst head h)"

definition list_splice_init :: "nat \<Rightarrow> nat \<Rightarrow> heap \<Rightarrow> heap" where
  "list_splice_init lst head h =
    (if list_empty lst h then h else INIT_LIST_HEAD lst (list_splice_at lst head h))"

text \<open>The iterations: the nodes visited from \<open>pos\<close> on; on a damaged list they may not end.\<close>

partial_function (option) visit_next :: "nat \<Rightarrow> heap \<Rightarrow> nat \<Rightarrow> nat list option" where
  [code]: "visit_next head h pos =
    (if pos = head then Some []
     else Option.bind (visit_next head h (lnext (h pos))) (\<lambda>xs. Some (pos # xs)))"

partial_function (option) visit_prev :: "nat \<Rightarrow> heap \<Rightarrow> nat \<Rightarrow> nat list option" where
  [code]: "visit_prev head h pos =
    (if pos = head then Some []
     else Option.bind (visit_prev head h (lprev (h pos))) (\<lambda>xs. Some (pos # xs)))"

definition list_for_each :: "nat \<Rightarrow> heap \<Rightarrow> nat list option" where
  "list_for_each head h = visit_next head h (lnext (h head))"

definition list_for_each_prev :: "nat \<Rightarrow> heap \<Rightarrow> nat list option" where
  "list_for_each_prev head h = visit_prev head h (lprev (h head))"

section \<open>The abstract view\<close>

text \<open>\<open>links h ps\<close>: along the path \<open>ps\<close>, next pointers lead forward and prev pointers back. A list
  is the cycle from its head through its nodes.\<close>

fun links :: "heap \<Rightarrow> nat list \<Rightarrow> bool" where
  "links h (x # y # ps) = (lnext (h x) = y \<and> lprev (h y) = x \<and> links h (y # ps))"
| "links h ps = True"

definition dlist :: "heap \<Rightarrow> nat \<Rightarrow> nat list \<Rightarrow> bool" where
  "dlist h head xs \<longleftrightarrow> distinct (head # xs) \<and> 0 \<notin> set (head # xs) \<and> links h (head # xs @ [head])"

named_theorems heap_simps \<open>reads of a heap after assignments\<close>

lemma heap_reads [heap_simps]:
  "lnext (set_next p v h q) = (if p = q then v else lnext (h q))"
  "lprev (set_next p v h q) = lprev (h q)"
  "lprev (set_prev p v h q) = (if p = q then v else lprev (h q))"
  "lnext (set_prev p v h q) = lnext (h q)"
  by (simp_all add: set_next_def set_prev_def)

lemma links_append: "links h (as @ p # q # bs) \<longleftrightarrow>
    links h (as @ [p]) \<and> lnext (h p) = q \<and> lprev (h q) = p \<and> links h (q # bs)"
  by (induction as rule: induct_list012) auto

text \<open>A path reads the next pointers of all nodes but the last and the prev pointers of all but
  the first.\<close>

lemma links_cong:
  assumes "\<And>x. x \<in> set (butlast ps) \<Longrightarrow> lnext (h' x) = lnext (h x)"
    and "\<And>x. x \<in> set (tl ps) \<Longrightarrow> lprev (h' x) = lprev (h x)"
  shows "links h' ps = links h ps"
  using assms by (induction h ps rule: links.induct) auto

lemma links_insert:
  assumes "links h (as @ p # q # bs)" "n \<notin> set (as @ p # q # bs)"
    and "p \<notin> set as" "q \<notin> set (tl (as @ [p]))" "p \<notin> set (butlast (q # bs))" "q \<notin> set bs"
  shows "links (list_add_between n p q h) (as @ p # n # q # bs)"
proof -
  let ?h = "list_add_between n p q h"
  have reads: "lnext (?h x) = (if x = p then n else if x = n then q else lnext (h x))"
    "lprev (?h x) = (if x = n then p else if x = q then n else lprev (h x))" for x
    by (auto simp: list_add_between_def heap_simps)
  have sub: "set (tl (as @ [p])) \<subseteq> set (as @ [p])" "set (butlast (q # bs)) \<subseteq> set (q # bs)"
    by (cases as; auto) (auto dest: in_set_butlastD)
  have "links ?h (as @ [p])"
    using assms sub by (subst links_cong [of _ ?h h]) (auto simp: reads links_append)
  moreover have "links ?h (q # bs)"
    using assms sub by (subst links_cong [of _ ?h h]) (auto simp: reads links_append)
  ultimately show ?thesis
    using assms by (auto simp: links_append reads)
qed

lemma links_delete:
  assumes "links h (as @ p # x # q # bs)"
    and "p \<notin> set as" "q \<notin> set (tl (as @ [p]))" "p \<notin> set (butlast (q # bs))" "q \<notin> set bs"
  shows "links (list_del_between p q h) (as @ p # q # bs)"
proof -
  let ?h = "list_del_between p q h"
  have reads: "lnext (?h y) = (if y = p then q else lnext (h y))" "lprev (?h y) = (if y = q then p else lprev (h y))" for y
    by (auto simp: list_del_between_def heap_simps)
  have h: "links h (as @ [p])" "links h (q # bs)"
    using assms(1) links_append [of h as p x "q # bs"] links_append [of h "[]" x q bs] by auto
  have "links ?h (as @ [p])" using assms h by (subst links_cong [of _ ?h h]) (auto simp: reads)
  moreover have "links ?h (q # bs)" using assms h by (subst links_cong [of _ ?h h]) (auto simp: reads)
  ultimately show ?thesis by (auto simp: links_append reads)
qed

lemma links_tail_reads: "links h (as @ p # q # bs) \<Longrightarrow> lnext (h p) = q \<and> lprev (h q) = p"
  by (simp add: links_append)

section \<open>The operations refine list operations\<close>

lemma dlist_INIT: "head \<noteq> 0 \<Longrightarrow> dlist (INIT_LIST_HEAD head h) head []"
  by (simp add: dlist_def INIT_LIST_HEAD_def heap_simps)

lemma dlist_empty: "dlist h head xs \<Longrightarrow> list_empty head h \<longleftrightarrow> xs = []"
  by (cases xs) (auto simp: dlist_def list_empty_def)

lemma dlist_first: "dlist h head xs \<Longrightarrow> lnext (h head) = hd (xs @ [head])"
  by (cases xs) (simp_all add: dlist_def)

lemma dlist_last:
  assumes "dlist h head xs" shows "lprev (h head) = last (head # xs)"
proof -
  have "head # xs @ [head] = butlast (head # xs) @ last (head # xs) # head # []"
    by (metis append_Cons append_Nil append_assoc append_butlast_last_id list.distinct(1))
  with assms show ?thesis unfolding dlist_def using links_tail_reads by metis
qed

lemma dlist_add_tail:
  assumes d: "dlist h head xs" and n: "n \<noteq> 0" "n \<notin> set (head # xs)"
  shows "dlist (list_add_tail n head h) head (xs @ [n])"
proof (cases xs rule: rev_cases)
  case Nil
  then show ?thesis
    using d n by (auto simp: dlist_def list_add_tail_def list_add_between_def Let_def heap_simps)
next
  case (snoc ys y)
  then have "links (list_add_between n y head h) ((head # ys) @ y # n # [head])"
    using d n by (intro links_insert) (auto simp: dlist_def)
  then show ?thesis
    using d n snoc dlist_last [OF d] by (simp add: dlist_def list_add_tail_def)
qed

lemma dlist_add:
  assumes d: "dlist h head xs" and n: "n \<noteq> 0" "n \<notin> set (head # xs)"
  shows "dlist (list_add n head h) head (n # xs)"
proof -
  obtain q bs where qb: "xs @ [head] = q # bs" by (cases xs) auto
  have q: "lnext (h head) = q" using dlist_first [OF d] qb by simp
  have "q \<notin> set bs" "head \<notin> set (butlast (q # bs))"
    using d qb by (cases xs; auto simp: dlist_def)+
  moreover have "links h ([] @ head # q # bs)" using d qb by (simp add: dlist_def)
  moreover have "n \<notin> set ([] @ head # q # bs)" using n qb by (metis append.left_neutral list.set_intros(2) set_ConsD set_append UnE empty_iff list.set(1) list.set_intros(1))
  ultimately have "links (list_add_between n head q h) ([] @ head # n # q # bs)"
    by (intro links_insert) simp_all
  then show ?thesis using d n q qb by (simp add: dlist_def list_add_def)
qed

lemma dlist_unlink:
  assumes d: "dlist h head (us @ x # vs)"
  shows "dlist (list_del_between (lprev (h x)) (lnext (h x)) h) head (us @ vs)"
proof -
  obtain as p where ap: "head # us = as @ [p]" by (metis append_butlast_last_id list.distinct(1))
  obtain q bs where qb: "vs @ [head] = q # bs" by (cases vs) auto
  have path: "head # (us @ x # vs) @ [head] = as @ p # x # q # bs"
    using ap qb by (metis append_Cons append_assoc append_Nil)
  have dist: "distinct (as @ [p])" "tl (as @ [p]) = us" using d by (simp_all add: dlist_def flip: ap)
  have "links h (as @ p # x # q # bs)" using d path by (simp add: dlist_def)
  moreover have "q \<notin> set us" "q \<notin> set bs"
    using d qb by (cases vs; auto simp: dlist_def)+
  moreover have "p \<notin> set (butlast (q # bs))"
  proof -
    have "butlast (q # bs) = vs" by (metis butlast_snoc qb)
    moreover have "p \<in> set (head # us)" using ap by simp
    ultimately show ?thesis using d by (auto simp: dlist_def)
  qed
  ultimately have "links (list_del_between p q h) (as @ p # q # bs)"
    using dist by (intro links_delete [of h as p x q bs]) simp_all
  moreover have "lprev (h x) = p" "lnext (h x) = q"
    using \<open>links h (as @ p # x # q # bs)\<close> links_append [of h as p x "q # bs"] by auto
  moreover have "as @ p # q # bs = head # (us @ vs) @ [head]"
    using ap qb by (metis append_Cons append_assoc append_Nil)
  ultimately show ?thesis using d by (simp add: dlist_def)
qed

text \<open>Assignments to a node outside of a list do not change it.\<close>

lemma dlist_frame:
  assumes "\<And>x. x \<in> set (head # xs) \<Longrightarrow> h' x = h x"
  shows "dlist h' head xs = dlist h head xs"
proof -
  have "links h' (head # xs @ [head]) = links h (head # xs @ [head])"
    using assms by (intro links_cong) (auto dest: in_set_butlastD)
  then show ?thesis by (simp add: dlist_def)
qed

lemma dlist_del:
  assumes d: "dlist h head (us @ x # vs)"
  shows "dlist (list_del x h) head (us @ vs)" "lnext (list_del x h x) = 0" "lprev (list_del x h x) = 0"
proof -
  have "x \<notin> set (head # us @ vs)" using d by (auto simp: dlist_def)
  then show "dlist (list_del x h) head (us @ vs)"
    using dlist_unlink [OF d] by (subst dlist_frame [of _ _ _ "list_del_between (lprev (h x)) (lnext (h x)) h"])
      (auto simp: list_del_def Let_def set_next_def set_prev_def)
qed (simp_all add: list_del_def Let_def heap_simps)

lemma dlist_del_init:
  assumes d: "dlist h head (us @ x # vs)"
  shows "dlist (list_del_init x h) head (us @ vs)" "dlist (list_del_init x h) x []"
proof -
  have "x \<notin> set (head # us @ vs)" "x \<noteq> 0" using d by (auto simp: dlist_def)
  then show "dlist (list_del_init x h) x []" by (simp add: list_del_init_def dlist_INIT)
  show "dlist (list_del_init x h) head (us @ vs)"
    using \<open>x \<notin> set (head # us @ vs)\<close> dlist_unlink [OF d]
    by (subst dlist_frame [of _ _ _ "list_del_between (lprev (h x)) (lnext (h x)) h"])
      (auto simp: list_del_init_def INIT_LIST_HEAD_def set_next_def set_prev_def)
qed

lemma dlist_move:
  assumes d: "dlist h head (us @ x # vs)"
  shows "dlist (list_move x head h) head (x # us @ vs)" "dlist (list_move_tail x head h) head (us @ vs @ [x])"
proof -
  have "x \<noteq> 0" "x \<notin> set (head # us @ vs)" using d by (auto simp: dlist_def)
  with dlist_add [OF dlist_unlink [OF d]] dlist_add_tail [OF dlist_unlink [OF d]]
  show "dlist (list_move x head h) head (x # us @ vs)" "dlist (list_move_tail x head h) head (us @ vs @ [x])"
    by (simp_all add: list_move_def list_move_tail_def)
qed

section \<open>Iteration\<close>

lemma visit_next_path:
  "links h (x # xs @ [head]) \<Longrightarrow> head \<notin> set xs \<Longrightarrow> visit_next head h (lnext (h x)) = Some xs"
proof (induction xs arbitrary: x)
  case Nil
  then show ?case by (subst visit_next.simps) simp
next
  case (Cons y xs)
  then show ?case by (subst visit_next.simps) simp
qed

lemma visit_prev_path:
  "links h (head # xs @ [y]) \<Longrightarrow> head \<notin> set xs \<Longrightarrow> visit_prev head h (lprev (h y)) = Some (rev xs)"
proof (induction xs arbitrary: y rule: rev_induct)
  case Nil
  then show ?case by (subst visit_prev.simps) simp
next
  case (snoc x xs)
  then have "links h (head # xs @ [x])" "lprev (h y) = x"
    using links_append [of h "head # xs" x y "[]"] by simp_all
  with snoc show ?case by (subst visit_prev.simps) simp
qed

section \<open>Joining lists\<close>

lemma links_parts: "links h (xs @ ys) \<Longrightarrow> links h xs \<and> links h ys"
proof (induction xs rule: induct_list012)
  case (2 x)
  then show ?case by (cases ys) simp_all
qed simp_all

lemma links_Cons_hd: "ys \<noteq> [] \<Longrightarrow> links h (x # ys) \<longleftrightarrow> lnext (h x) = hd ys \<and> lprev (h (hd ys)) = x \<and> links h ys"
  by (cases ys) auto

lemma dlist_splice_at:
  assumes l: "dlist h lst ys" and d: "dlist h head xs" and disj: "set (lst # ys) \<inter> set (head # xs) = {}"
    and "ys \<noteq> []"
  shows "dlist (list_splice_at lst head h) head (ys @ xs)"
proof -
  obtain y ts where yt: "ys = y # ts" using assms(4) by (cases ys) auto
  obtain zs l where zl: "ys = zs @ [l]" using assms(4) by (cases ys rule: rev_cases) auto
  obtain q bs where qb: "xs @ [head] = q # bs" by (cases xs) auto
  define h' where "h' = list_splice_at lst head h"
  have "lnext (h lst) = y" using dlist_first [OF l] yt by simp
  moreover have "lprev (h lst) = l" using dlist_last [OF l] zl by simp
  moreover have "lnext (h head) = q" using dlist_first [OF d] qb by simp
  ultimately have reads: "lnext (h' x) = (if x = l then q else if x = head then y else lnext (h x))"
    "lprev (h' x) = (if x = q then l else if x = y then head else lprev (h x))" for x
    by (auto simp: h'_def list_splice_at_def Let_def heap_simps)
  have qs: "q \<in> set (head # xs)" "set bs \<subseteq> set (head # xs)" "butlast (q # bs) = xs" "q \<notin> set bs"
    using qb d by (cases xs; auto simp: dlist_def)+
  have dys: "distinct ys" using l by (simp add: dlist_def)
  have "y \<notin> set ts" "set ts \<subseteq> set ys" "y \<in> set ys" "tl ys = ts" using dys by (auto simp: yt)
  moreover have "l \<notin> set zs" "set zs \<subseteq> set ys" "l \<in> set ys" "butlast ys = zs" using dys by (auto simp: zl)
  ultimately have dist: "y \<notin> set ts" "l \<notin> set zs" "set ts \<subseteq> set ys" "set zs \<subseteq> set ys" "y \<in> set ys"
    "l \<in> set ys" "butlast ys = zs" "tl ys = ts" by simp_all
  have "links h ys"
    using l links_parts [of h "[lst]" "ys @ [lst]"] links_parts [of h ys "[lst]"] by (simp add: dlist_def)
  then have "links h' ys"
    using dist disj qs by (subst links_cong [of _ h' h]) (auto simp: reads)
  moreover have "links h' (q # bs)"
    using d qb dist disj qs by (subst links_cong [of _ h' h]) (auto simp: reads dlist_def links_Cons_hd)
  moreover have "head \<notin> set ys" "y \<noteq> q" "q \<notin> set ys" using disj qs(1) dist(5) by auto
  ultimately have "links h' ((head # zs) @ l # q # bs)"
    using links_Cons_hd [of ys h' head] dist(6) yt by (subst links_append) (auto simp: reads simp flip: zl)
  moreover have "(head # zs) @ l # q # bs = head # (ys @ xs) @ [head]" by (simp add: zl flip: qb)
  ultimately show ?thesis
    using l d disj by (auto simp: dlist_def h'_def)
qed

text \<open>Splicing puts the nodes of one list in front of those of the other.\<close>

lemma dlist_splice:
  assumes "dlist h lst ys" "dlist h head xs" "set (lst # ys) \<inter> set (head # xs) = {}"
  shows "dlist (list_splice lst head h) head (ys @ xs)"
  using assms dlist_splice_at [OF assms] dlist_empty [OF assms(1)] by (auto simp: list_splice_def)

lemma dlist_splice_init:
  assumes l: "dlist h lst ys" and d: "dlist h head xs" and disj: "set (lst # ys) \<inter> set (head # xs) = {}"
  shows "dlist (list_splice_init lst head h) head (ys @ xs)" "dlist (list_splice_init lst head h) lst []"
proof -
  have "lst \<notin> set (head # ys @ xs)" "lst \<noteq> 0" using l disj by (auto simp: dlist_def)
  then show "dlist (list_splice_init lst head h) lst []"
    using l dlist_empty [OF l] by (auto simp: list_splice_init_def dlist_INIT)
  show "dlist (list_splice_init lst head h) head (ys @ xs)"
  proof (cases "ys = []")
    case False
    then have "dlist (INIT_LIST_HEAD lst (list_splice_at lst head h)) head (ys @ xs)"
      using dlist_splice_at [OF assms False] \<open>lst \<notin> set (head # ys @ xs)\<close>
      by (subst dlist_frame [of _ _ _ "list_splice_at lst head h"])
        (auto simp: INIT_LIST_HEAD_def set_next_def set_prev_def)
    then show ?thesis using False dlist_empty [OF l] by (simp add: list_splice_init_def)
  qed (use d dlist_empty [OF l] in \<open>simp add: list_splice_init_def\<close>)
qed

section \<open>Properties\<close>

text \<open>C18: insertion and removal in the linked list refine the operations on the sequence of its
  nodes: adding after the head, adding at the tail and unlinking a node keep the forward and
  backward pointers consistent, whatever the length of the list and the position of the node, and
  unlinking clears the pointers of the node.\<close>

theorem elist_refines:
  assumes "dlist h head (us @ x # vs)" and "n \<noteq> 0" "n \<notin> set (head # us @ x # vs)"
  shows "dlist (list_add n head h) head (n # us @ x # vs) \<and>
    dlist (list_add_tail n head h) head (us @ x # vs @ [n]) \<and>
    dlist (list_del x h) head (us @ vs) \<and> list_del x h x = \<lparr>lnext = 0, lprev = 0\<rparr> \<and>
    dlist (list_move x head h) head (x # us @ vs) \<and>
    dlist (list_move_tail x head h) head (us @ vs @ [x])"
  using dlist_add [OF assms] dlist_add_tail [OF assms] dlist_del [OF assms(1)] dlist_move [OF assms(1)]
  by (auto intro: list_head.equality)

theorem elist_refines_witness:
  "let h = list_add_tail 2 1 (INIT_LIST_HEAD 1 (\<lambda>_. \<lparr>lnext = 0, lprev = 0\<rparr>)) in
   dlist (list_add 3 1 h) 1 [3, 2] \<and> dlist (list_del 2 h) 1 []"
proof -
  have d: "dlist (list_add_tail 2 1 (INIT_LIST_HEAD 1 (\<lambda>_. \<lparr>lnext = 0, lprev = 0\<rparr>))) 1 ([] @ 2 # [])"
    using dlist_add_tail [OF dlist_INIT, of 1 2] by simp
  from elist_refines [OF d, of 3] show ?thesis by (simp add: Let_def)
qed

text \<open>The forward and the backward iteration over a consistent list end and visit its nodes in
  order, respectively in reverse order.\<close>

theorem list_for_each_visits:
  assumes "dlist h head xs"
  shows "list_for_each head h = Some xs \<and> list_for_each_prev head h = Some (rev xs)"
  using assms visit_next_path [of h head xs head] visit_prev_path [of h head xs head]
  by (simp add: list_for_each_def list_for_each_prev_def dlist_def)

theorem list_for_each_visits_witness:
  "list_for_each 1 (list_add_tail 2 1 (INIT_LIST_HEAD 1 (\<lambda>_. \<lparr>lnext = 0, lprev = 0\<rparr>))) = Some [2]"
  using list_for_each_visits [OF dlist_add_tail [OF dlist_INIT, of 1 2]] by simp

end
