(* ===== verification/Thread_Queue.thy ===== *)
theory Thread_Queue
  imports Elist
begin

text \<open>
  The message queues between the threads (\<^verbatim>\<open>tq_new\<close>, \<^verbatim>\<open>tq_push\<close>, \<^verbatim>\<open>tq_pop\<close>, \<^verbatim>\<open>tq_freeze\<close>,
  \<^verbatim>\<open>tq_thaw\<close>, \<^verbatim>\<open>tq_free\<close> of \<^verbatim>\<open>util.c\<close>) on top of the linked lists. Every operation runs under the
  mutex of the queue, so it is one step. \<^verbatim>\<open>calloc\<close> is a function argument that gives the address
  of a new entry, or 0. Waiting on the condition variable gives up the mutex: what other
  threads do to the queue meanwhile, and the result code of the wait, are a function argument.
  The interface the other components rely on is the locale \<open>fifo\<close>.
\<close>

section \<open>The queue\<close>

record 'a thread_q =
  tq_links :: heap
  tq_data :: "nat \<Rightarrow> 'a option"
  tq_head :: nat
  tq_frozen :: bool

definition tq_new :: "nat \<Rightarrow> 'a thread_q option" where
  "tq_new addr =
    (if addr = 0 then None
     else Some \<lparr>tq_links = INIT_LIST_HEAD addr (\<lambda>_. \<lparr>lnext = 0, lprev = 0\<rparr>), tq_data = (\<lambda>_. None),
       tq_head = addr, tq_frozen = False\<rparr>)"

definition tq_freezethaw :: "bool \<Rightarrow> 'a thread_q \<Rightarrow> 'a thread_q" where
  "tq_freezethaw frozen tq = tq\<lparr>tq_frozen := frozen\<rparr>"

definition tq_freeze :: "'a thread_q \<Rightarrow> 'a thread_q" where
  "tq_freeze tq = tq_freezethaw True tq"

definition tq_thaw :: "'a thread_q \<Rightarrow> 'a thread_q" where
  "tq_thaw tq = tq_freezethaw False tq"

definition tq_push :: "('a thread_q \<Rightarrow> nat) \<Rightarrow> 'a \<Rightarrow> 'a thread_q \<Rightarrow> bool \<times> 'a thread_q" where
  "tq_push calloc data tq =
    (let ent = calloc tq in
     if ent = 0 then (False, tq)
     else
       let tq = tq\<lparr>tq_data := (tq_data tq)(ent := Some data), tq_links := INIT_LIST_HEAD ent (tq_links tq)\<rparr>
       in if \<not> tq_frozen tq
          then (True, tq\<lparr>tq_links := list_add_tail ent (tq_head tq) (tq_links tq)\<rparr>)
          else (False, tq\<lparr>tq_data := (tq_data tq)(ent := None)\<rparr>))"

text \<open>The part of \<^verbatim>\<open>tq_pop\<close> after the label \<^verbatim>\<open>pop\<close>: take the first entry.\<close>

definition tq_take :: "'a thread_q \<Rightarrow> 'a option \<times> 'a thread_q" where
  "tq_take tq =
    (let ent = lnext (tq_links tq (tq_head tq));
         rval = tq_data tq ent;
         tq = tq\<lparr>tq_links := list_del ent (tq_links tq)\<rparr>
     in (rval, tq\<lparr>tq_data := (tq_data tq)(ent := None)\<rparr>))"

definition tq_pop :: "('a thread_q \<Rightarrow> int \<times> 'a thread_q) \<Rightarrow> 'a thread_q \<Rightarrow> 'a option \<times> 'a thread_q" where
  "tq_pop wait tq =
    (if \<not> list_empty (tq_head tq) (tq_links tq) then tq_take tq
     else case wait tq of (rc, tq) \<Rightarrow>
       if rc \<noteq> 0 then (None, tq)
       else if list_empty (tq_head tq) (tq_links tq) then (None, tq)
       else tq_take tq)"

text \<open>\<^verbatim>\<open>tq_free\<close> walks over the entries with the successor saved, unlinks and frees each of them: the
  entries that are left.\<close>

partial_function (option) tq_free_loop :: "nat \<Rightarrow> heap \<Rightarrow> (nat \<Rightarrow> 'a option) \<Rightarrow> nat \<Rightarrow> nat \<Rightarrow> (heap \<times> (nat \<Rightarrow> 'a option)) option" where
  [code]: "tq_free_loop head h data ent iter =
    (if ent = head then Some (h, data)
     else tq_free_loop head (list_del ent h) (data(ent := None)) iter (lnext (list_del ent h iter)))"

definition tq_free :: "'a thread_q \<Rightarrow> (heap \<times> (nat \<Rightarrow> 'a option)) option" where
  "tq_free tq =
    (let ent = lnext (tq_links tq (tq_head tq));
         iter = lnext (tq_links tq ent)
     in tq_free_loop (tq_head tq) (tq_links tq) (tq_data tq) ent iter)"

section \<open>Invariant and contents\<close>

definition tq_rep :: "'a thread_q \<Rightarrow> nat list \<Rightarrow> bool" where
  "tq_rep tq xs \<longleftrightarrow> dlist (tq_links tq) (tq_head tq) xs \<and> (\<forall>x. tq_data tq x \<noteq> None \<longleftrightarrow> x \<in> set xs)"

definition tq_inv :: "'a thread_q \<Rightarrow> bool" where
  "tq_inv tq \<longleftrightarrow> (\<exists>xs. tq_rep tq xs)"

definition tq_contents :: "'a thread_q \<Rightarrow> 'a list" where
  "tq_contents tq = (case list_for_each (tq_head tq) (tq_links tq) of
     None \<Rightarrow> [] | Some xs \<Rightarrow> map (\<lambda>x. the (tq_data tq x)) xs)"

text \<open>An allocator returns a null pointer or an address that is not in use.\<close>

definition fresh_alloc :: "('a thread_q \<Rightarrow> nat) \<Rightarrow> bool" where
  "fresh_alloc calloc \<longleftrightarrow> (\<forall>tq. tq_inv tq \<longrightarrow> calloc tq = 0 \<or> (calloc tq \<noteq> tq_head tq \<and> tq_data tq (calloc tq) = None))"

lemma for_each_rep: "dlist h head xs \<Longrightarrow> list_for_each head h = Some xs"
  using visit_next_path [of h head xs head] by (simp add: list_for_each_def dlist_def)

lemma tq_contents_rep: "tq_rep tq xs \<Longrightarrow> tq_contents tq = map (\<lambda>x. the (tq_data tq x)) xs"
  by (auto simp: tq_rep_def tq_contents_def dest: for_each_rep)

lemma tq_empty_rep: "tq_rep tq xs \<Longrightarrow> list_empty (tq_head tq) (tq_links tq) \<longleftrightarrow> xs = []"
  by (simp add: tq_rep_def dlist_empty)

lemma tq_new_rep: "tq_new addr = Some tq \<Longrightarrow> tq_rep tq []"
  by (auto simp: tq_new_def tq_rep_def dlist_INIT split: if_splits)

lemma tq_push_rep:
  assumes rep: "tq_rep tq xs" and new: "ent = calloc tq" "ent \<noteq> 0" "ent \<noteq> tq_head tq" "tq_data tq ent = None"
  shows "tq_rep (snd (tq_push calloc data tq)) (if tq_frozen tq then xs else xs @ [ent])"
proof -
  have ent: "ent \<notin> set (tq_head tq # xs)" using rep new unfolding tq_rep_def by (metis set_ConsD)
  then have d: "dlist (INIT_LIST_HEAD ent (tq_links tq)) (tq_head tq) xs"
    using rep by (subst dlist_frame [of _ _ _ "tq_links tq"])
      (auto simp: tq_rep_def INIT_LIST_HEAD_def set_next_def set_prev_def)
  with dlist_add_tail [OF d new(2) ent] rep new ent show ?thesis
    by (auto simp: tq_rep_def tq_push_def Let_def)
qed

lemma tq_take_rep:
  assumes "tq_rep tq (x # xs)"
  shows "tq_rep (snd (tq_take tq)) xs" "fst (tq_take tq) = tq_data tq x" "x \<notin> set xs"
proof -
  have d: "dlist (tq_links tq) (tq_head tq) ([] @ x # xs)" using assms by (simp add: tq_rep_def)
  have "lnext (tq_links tq (tq_head tq)) = x" using dlist_first [OF d] by simp
  moreover show "x \<notin> set xs" using d by (simp add: dlist_def)
  ultimately show "tq_rep (snd (tq_take tq)) xs" "fst (tq_take tq) = tq_data tq x"
    using dlist_del(1) [OF d] assms by (auto simp: tq_rep_def tq_take_def Let_def)
qed

section \<open>The interface\<close>

text \<open>What a client of a queue may rely on: the accepted items come out once each and in order.\<close>

locale fifo =
  fixes inv :: "'s \<Rightarrow> bool" and contents :: "'s \<Rightarrow> 'a list" and frozen :: "'s \<Rightarrow> bool"
    and push :: "'a \<Rightarrow> 's \<Rightarrow> bool \<times> 's" and pop :: "'s \<Rightarrow> 'a option \<times> 's" and set_frozen :: "bool \<Rightarrow> 's \<Rightarrow> 's"
  assumes push_law: "inv s \<Longrightarrow> push x s = (ok, s') \<Longrightarrow>
      inv s' \<and> contents s' = (if ok then contents s @ [x] else contents s) \<and> frozen s' = frozen s \<and> (frozen s \<longrightarrow> \<not> ok)"
    and pop_law: "inv s \<Longrightarrow> pop s = (r, s') \<Longrightarrow> inv s' \<and> frozen s' = frozen s \<and>
      (case r of None \<Rightarrow> contents s = [] \<and> contents s' = [] | Some x \<Rightarrow> contents s = x # contents s')"
    and freeze_law: "inv s \<Longrightarrow> inv (set_frozen b s) \<and> contents (set_frozen b s) = contents s \<and> frozen (set_frozen b s) = b"

text \<open>A history of the queue: the items it accepted, the items it handed out, the final state.\<close>

datatype 'a q_op = Push 'a | Pop | Freeze bool

fun queue_run :: "('a \<Rightarrow> 's \<Rightarrow> bool \<times> 's) \<Rightarrow> ('s \<Rightarrow> 'a option \<times> 's) \<Rightarrow> (bool \<Rightarrow> 's \<Rightarrow> 's) \<Rightarrow>
    'a q_op list \<Rightarrow> 's \<Rightarrow> 'a list \<times> 'a list \<times> 's" where
  "queue_run push pop set_frozen [] s = ([], [], s)"
| "queue_run push pop set_frozen (Push x # ops) s =
    (case push x s of (ok, s) \<Rightarrow>
      case queue_run push pop set_frozen ops s of (ins, outs, s) \<Rightarrow> (if ok then x # ins else ins, outs, s))"
| "queue_run push pop set_frozen (Pop # ops) s =
    (case pop s of (r, s) \<Rightarrow>
      case queue_run push pop set_frozen ops s of (ins, outs, s) \<Rightarrow>
        (ins, case r of None \<Rightarrow> outs | Some x \<Rightarrow> x # outs, s))"
| "queue_run push pop set_frozen (Freeze b # ops) s = queue_run push pop set_frozen ops (set_frozen b s)"

context fifo
begin

lemma queue_run_fifo:
  "inv s \<Longrightarrow> queue_run push pop set_frozen ops s = (ins, outs, s') \<Longrightarrow>
    inv s' \<and> contents s @ ins = outs @ contents s'"
proof (induction ops arbitrary: s ins outs)
  case (Cons op ops)
  show ?case
  proof (cases op)
    case (Push x)
    obtain ok t where p: "push x s = (ok, t)" by fastforce
    obtain ins' where "queue_run push pop set_frozen ops t = (ins', outs, s')" "ins = (if ok then x # ins' else ins')"
      using Cons.prems(2) by (auto simp: Push p split: prod.splits)
    with Cons.IH [of t ins' outs] push_law [OF Cons.prems(1) p] show ?thesis by (auto split: if_splits)
  next
    case Pop
    obtain r t where p: "pop s = (r, t)" by fastforce
    obtain outs' where "queue_run push pop set_frozen ops t = (ins, outs', s')"
      "outs = (case r of None \<Rightarrow> outs' | Some x \<Rightarrow> x # outs')"
      using Cons.prems(2) by (auto simp: Pop p split: prod.splits)
    with Cons.IH [of t ins outs'] pop_law [OF Cons.prems(1) p] show ?thesis by (auto split: option.splits)
  next
    case (Freeze b)
    with Cons.IH [of "set_frozen b s" ins outs] freeze_law [OF Cons.prems(1)] Cons.prems(2) show ?thesis by simp
  qed
qed simp

end

section \<open>The queues of the program satisfy it\<close>

text \<open>A pop that does not wait: the timed wait reports a timeout and nobody touched the queue.\<close>

definition timeout_wait :: "'a thread_q \<Rightarrow> int \<times> 'a thread_q" where
  "timeout_wait tq = (110, tq)"

text \<open>An allocator: the address after the largest one in use.\<close>

definition next_addr :: "'a thread_q \<Rightarrow> nat" where
  "next_addr tq = (case list_for_each (tq_head tq) (tq_links tq) of
     None \<Rightarrow> 0 | Some xs \<Rightarrow> Suc (foldr max xs (tq_head tq)))"

lemma foldr_max_ge: "m \<le> foldr max xs m" "x \<in> set xs \<Longrightarrow> x \<le> foldr max xs (m :: nat)"
  by (induction xs) auto

lemma fresh_next_addr: "fresh_alloc next_addr"
  unfolding fresh_alloc_def
proof (intro allI impI)
  fix tq :: "'a thread_q" assume "tq_inv tq"
  then obtain xs where rep: "tq_rep tq xs" by (auto simp: tq_inv_def)
  then have n: "next_addr tq = Suc (foldr max xs (tq_head tq))"
    by (auto simp: next_addr_def tq_rep_def dest: for_each_rep)
  then have "next_addr tq \<noteq> tq_head tq" "next_addr tq \<notin> set xs"
    using foldr_max_ge(1) [of "tq_head tq" xs] foldr_max_ge(2) [of "next_addr tq" xs "tq_head tq"] by auto
  then show "next_addr tq = 0 \<or> (next_addr tq \<noteq> tq_head tq \<and> tq_data tq (next_addr tq) = None)"
    using rep by (auto simp: tq_rep_def)
qed

lemma tq_push_law:
  assumes "fresh_alloc calloc" "tq_inv tq" "tq_push calloc x tq = (ok, tq')"
  shows "tq_inv tq' \<and> tq_contents tq' = (if ok then tq_contents tq @ [x] else tq_contents tq) \<and>
    tq_frozen tq' = tq_frozen tq \<and> (ok \<longleftrightarrow> \<not> tq_frozen tq \<and> calloc tq \<noteq> 0)"
proof (cases "calloc tq = 0")
  case True
  then show ?thesis using assms by (simp add: tq_push_def)
next
  case False
  obtain xs where rep: "tq_rep tq xs" using assms(2) by (auto simp: tq_inv_def)
  have new: "calloc tq \<noteq> tq_head tq" "tq_data tq (calloc tq) = None"
    using assms(1,2) False by (auto simp: fresh_alloc_def)
  note rep' = tq_push_rep [where calloc = calloc, OF rep refl False new, of x]
  have out: "calloc tq \<notin> set xs" using rep new unfolding tq_rep_def by metis
  have res: "tq' = snd (tq_push calloc x tq)" "ok = (\<not> tq_frozen tq)" "tq_frozen tq' = tq_frozen tq"
    "tq_data tq' = (if tq_frozen tq then tq_data tq else (tq_data tq)(calloc tq \<mapsto> x))"
    using assms(3) False new by (auto simp: tq_push_def Let_def split: if_splits)
  have "tq_contents tq' = (if ok then tq_contents tq @ [x] else tq_contents tq)"
    using tq_contents_rep [OF rep'] tq_contents_rep [OF rep] out by (auto simp: res(2,4) simp flip: res(1))
  then show ?thesis using rep' False res by (auto simp: tq_inv_def)
qed

lemma tq_take_law:
  assumes "tq_inv tq" "\<not> list_empty (tq_head tq) (tq_links tq)"
  shows "tq_inv (snd (tq_take tq))" "tq_frozen (snd (tq_take tq)) = tq_frozen tq"
    "\<exists>x. fst (tq_take tq) = Some x \<and> tq_contents tq = x # tq_contents (snd (tq_take tq))"
proof -
  obtain x xs where rep: "tq_rep tq (x # xs)"
    using assms tq_empty_rep by (metis tq_inv_def list.exhaust)
  note t = tq_take_rep [OF rep]
  show "tq_inv (snd (tq_take tq))" using t by (auto simp: tq_inv_def)
  show "tq_frozen (snd (tq_take tq)) = tq_frozen tq" by (simp add: tq_take_def Let_def)
  have "tq_data (snd (tq_take tq)) y = tq_data tq y" if "y \<in> set xs" for y
    using that t(3) rep dlist_first [of "tq_links tq" "tq_head tq" "x # xs"]
    by (auto simp: tq_take_def Let_def tq_rep_def)
  moreover obtain d where "tq_data tq x = Some d" using rep by (auto simp: tq_rep_def)
  ultimately show "\<exists>x. fst (tq_take tq) = Some x \<and> tq_contents tq = x # tq_contents (snd (tq_take tq))"
    using tq_contents_rep [OF rep] tq_contents_rep [OF t(1)] t(2) by auto
qed

lemma tq_pop_nonempty:
  assumes "tq_inv tq" "tq_contents tq \<noteq> []"
  shows "tq_pop wait tq = tq_take tq" "\<not> list_empty (tq_head tq) (tq_links tq)"
proof -
  obtain xs where rep: "tq_rep tq xs" using assms by (auto simp: tq_inv_def)
  then show "\<not> list_empty (tq_head tq) (tq_links tq)"
    using assms tq_contents_rep [OF rep] tq_empty_rep [OF rep] by auto
  then show "tq_pop wait tq = tq_take tq" by (simp add: tq_pop_def)
qed

lemma tq_empty_contents: "tq_inv tq \<Longrightarrow> list_empty (tq_head tq) (tq_links tq) \<longleftrightarrow> tq_contents tq = []"
  using tq_contents_rep tq_empty_rep by (fastforce simp: tq_inv_def)

lemma tq_pop_law:
  assumes "tq_inv tq" "tq_pop timeout_wait tq = (r, tq')"
  shows "tq_inv tq' \<and> tq_frozen tq' = tq_frozen tq \<and>
    (case r of None \<Rightarrow> tq_contents tq = [] \<and> tq_contents tq' = [] | Some x \<Rightarrow> tq_contents tq = x # tq_contents tq')"
proof (cases "list_empty (tq_head tq) (tq_links tq)")
  case True
  then show ?thesis using assms tq_empty_contents [OF assms(1)] by (simp add: tq_pop_def timeout_wait_def)
next
  case False
  with tq_take_law [OF assms(1) False] assms(2) show ?thesis by (auto simp: tq_pop_def)
qed

lemma tq_freeze_law:
  "tq_inv tq \<Longrightarrow> tq_inv (tq_freezethaw b tq) \<and> tq_contents (tq_freezethaw b tq) = tq_contents tq \<and>
    tq_frozen (tq_freezethaw b tq) = b"
  by (simp add: tq_freezethaw_def tq_inv_def tq_contents_def tq_rep_def split: option.split)

interpretation tq: fifo tq_inv tq_contents tq_frozen "tq_push next_addr" "tq_pop timeout_wait" tq_freezethaw
proof (unfold_locales, goal_cases)
  case (1 tq x ok tq')
  then show ?case using tq_push_law [OF fresh_next_addr 1] by blast
next
  case (2 tq r tq')
  then show ?case by (rule tq_pop_law)
next
  case (3 tq b)
  then show ?case by (rule tq_freeze_law)
qed

text \<open>Freeing a queue walks the whole list and releases every entry.\<close>

lemma tq_free_loop_all:
  assumes "dlist h head xs" "xs = [] \<longrightarrow> ent = head" "xs \<noteq> [] \<longrightarrow> ent = hd xs \<and> iter = lnext (h ent)"
    and "\<forall>x. data x \<noteq> None \<longrightarrow> x \<in> set xs"
  shows "\<exists>h'. tq_free_loop head h data ent iter = Some (h', \<lambda>_. None) \<and> dlist h' head []"
  using assms
proof (induction xs arbitrary: h ent iter data)
  case Nil
  then have "data = (\<lambda>_. None)" by auto
  with Nil show ?case by (subst tq_free_loop.simps) simp
next
  case (Cons x xs)
  have d: "dlist h head ([] @ x # xs)" and ent: "ent = x" "x \<noteq> head" using Cons.prems by (auto simp: dlist_def)
  have iter: "iter = hd (xs @ [head])" using Cons.prems d by (cases xs) (auto simp: dlist_def)
  have d': "dlist (list_del x h) head xs" using dlist_del(1) [OF d] by simp
  define data' where "data' = data(x := None)"
  have "\<forall>y. data' y \<noteq> None \<longrightarrow> y \<in> set xs" using Cons.prems(4) by (auto simp: data'_def)
  with Cons.IH [OF d', of iter "lnext (list_del x h iter)" data'] iter
  have "\<exists>h'. tq_free_loop head (list_del x h) data' iter (lnext (list_del x h iter)) = Some (h', \<lambda>_. None) \<and>
      dlist h' head []" by simp
  then show ?case by (subst tq_free_loop.simps) (simp add: ent data'_def)
qed

text \<open>A new queue, on which the properties are exercised.\<close>

definition empty_q :: "nat thread_q" where
  "empty_q = the (tq_new 1)"

lemma empty_q_rep: "tq_rep empty_q []"
  by (rule tq_new_rep [of 1]) (simp add: empty_q_def tq_new_def)

lemma empty_q_inv: "tq_inv empty_q"
  using empty_q_rep by (auto simp: tq_inv_def)

section \<open>Properties\<close>



text \<open>A push is accepted exactly when the queue is not frozen and memory was available; it then
  appends the item, and otherwise leaves the contents as they were.\<close>

theorem tq_push_accepts:
  assumes "fresh_alloc calloc" and "tq_inv tq" and "tq_push calloc x tq = (ok, tq')"
  shows "(ok \<longleftrightarrow> \<not> tq_frozen tq \<and> calloc tq \<noteq> 0) \<and> tq_inv tq' \<and>
    tq_contents tq' = (if ok then tq_contents tq @ [x] else tq_contents tq)"
  using tq_push_law [OF assms] by simp

theorem tq_push_accepts_witness: "fst (tq_push next_addr 7 empty_q)"
proof -
  have "list_for_each (tq_head empty_q) (tq_links empty_q) = Some []"
    using empty_q_rep for_each_rep by (simp add: tq_rep_def)
  then have "next_addr empty_q \<noteq> 0" "\<not> tq_frozen empty_q"
    by (simp_all add: next_addr_def empty_q_def tq_new_def)
  with tq_push_accepts [OF fresh_next_addr empty_q_inv, of 7 "fst (tq_push next_addr 7 empty_q)"
      "snd (tq_push next_addr 7 empty_q)"] show ?thesis by simp
qed

text \<open>Freeing a well-formed queue ends, releases every entry and leaves an empty list.\<close>

theorem tq_free_releases:
  assumes "tq_inv tq"
  shows "\<exists>h. tq_free tq = Some (h, \<lambda>_. None) \<and> dlist h (tq_head tq) []"
proof -
  obtain xs where rep: "dlist (tq_links tq) (tq_head tq) xs" "\<forall>x. tq_data tq x \<noteq> None \<longrightarrow> x \<in> set xs"
    using assms by (auto simp: tq_inv_def tq_rep_def)
  then show ?thesis
    unfolding tq_free_def Let_def
    by (intro tq_free_loop_all [OF rep(1) _ _ rep(2)]) (cases xs; simp add: dlist_def)+
qed

theorem tq_free_releases_witness: "\<exists>h. tq_free empty_q = Some (h, \<lambda>_. None) \<and> dlist h (tq_head empty_q) []"
  by (rule tq_free_releases) (rule empty_q_inv)

end
