(* ===== verification/Miner_State.thy ===== *)
theory Miner_State
  imports Stratum Scanhash Thread_Queue
begin

text \<open>
  The global variables of \<^verbatim>\<open>cpu-miner.c\<close>: the record \<open>config\<close> has what the command line fixes for a
  run, the record \<open>miner\<close> what the threads change, with the stratum connection, the JSON-RPC 2.0
  state and the global work in \<open>m_st\<close>.
\<close>

record config =
  cf_stratum :: stratum_opts
  cf_use_roots :: bool
  cf_allow_getwork :: bool
  cf_want_longpoll :: bool
  cf_want_stratum :: bool
  cf_benchmark :: bool
  cf_showdiff :: bool
  cf_randomize :: bool
  cf_max_temp :: double
  cf_max_diff :: double
  cf_max_rate :: double
  cf_diff_factor :: double
  cf_n_threads :: nat
  cf_retries :: int
  cf_scantime :: int
  cf_time_limit :: int
  cf_rpc_url :: string
  cf_rpc_user :: string
  cf_rpc_pass :: string
  cf_pk_script :: "u8 list"
  cf_coinbase_sig :: string

abbreviation jsonrpc_2 :: "config \<Rightarrow> bool" where
  "jsonrpc_2 c \<equiv> so_jsonrpc_2 (cf_stratum c)"

text \<open>\<open>m_restart\<close> holds the flags of \<^verbatim>\<open>work_restart\<close>, \<open>m_lp_queue\<close> the paths pushed to the long polling
  thread, \<open>m_stratum_queue\<close> the addresses pushed to the stratum thread, \<open>m_calls\<close> the requests sent over HTTP so far.\<close>

record miner =
  m_st :: stratum_state
  m_have_stratum :: bool
  m_have_longpoll :: bool
  m_have_gbt :: bool
  m_allow_mininginfo :: bool
  m_submit_old :: bool
  m_need_reset :: bool
  m_net_diff :: double
  m_net_hashrate :: double
  m_net_blocks :: u64
  m_accepted :: u32
  m_rejected :: u32
  m_solved :: u32
  m_hashrates :: "double list"
  m_global_hashrate :: u64
  m_restart :: "bool list"
  m_conditional :: "bool list"
  m_lp_id :: "string option"
  m_lp_queue :: "string list"
  m_stratum_queue :: "string list"
  m_calls :: "string list"

section \<open>Parts of the state\<close>

abbreviation m_sctx :: "miner \<Rightarrow> stratum_ctx" where "m_sctx m \<equiv> st_sctx (m_st m)"

abbreviation m_g_work :: "miner \<Rightarrow> work" where "m_g_work m \<equiv> st_g_work (m_st m)"

abbreviation m_stratum_diff :: "miner \<Rightarrow> double" where "m_stratum_diff m \<equiv> r_stratum_diff (st_rpc2 (m_st m))"

definition set_sctx :: "stratum_ctx \<Rightarrow> miner \<Rightarrow> miner" where
  "set_sctx s m = m\<lparr>m_st := (m_st m)\<lparr>st_sctx := s\<rparr>\<rparr>"

definition set_g_work :: "work \<Rightarrow> miner \<Rightarrow> miner" where
  "set_g_work w m = m\<lparr>m_st := (m_st m)\<lparr>st_g_work := w\<rparr>\<rparr>"

definition set_g_work_time :: "int \<Rightarrow> miner \<Rightarrow> miner" where
  "set_g_work_time t m = m\<lparr>m_st := (m_st m)\<lparr>st_g_work_time := t\<rparr>\<rparr>"

definition set_stratum_diff :: "double \<Rightarrow> miner \<Rightarrow> miner" where
  "set_stratum_diff d m = m\<lparr>m_st := (m_st m)\<lparr>st_rpc2 := (st_rpc2 (m_st m))\<lparr>r_stratum_diff := d\<rparr>\<rparr>\<rparr>"

definition set_rpc2 :: "rpc2 \<Rightarrow> miner \<Rightarrow> miner" where
  "set_rpc2 r m = m\<lparr>m_st := (m_st m)\<lparr>st_rpc2 := r\<rparr>\<rparr>"

definition set_io :: "io \<Rightarrow> miner \<Rightarrow> miner" where
  "set_io io m = m\<lparr>m_st := (m_st m)\<lparr>st_io := io\<rparr>\<rparr>"

text \<open>\<^verbatim>\<open>restart_threads\<close>: every miner thread is asked to take new work.\<close>

definition restart_threads :: "config \<Rightarrow> miner \<Rightarrow> miner" where
  "restart_threads c m = m\<lparr>m_restart := replicate (cf_n_threads c) True @ drop (cf_n_threads c) (m_restart m)\<rparr>"

definition miner_wf :: "miner \<Rightarrow> bool" where
  "miner_wf m \<longleftrightarrow> state_wf (m_st m)"

lemmas miner_set_defs = set_sctx_def set_g_work_def set_g_work_time_def set_stratum_diff_def set_rpc2_def set_io_def

lemma miner_wf_set [simp]:
  "miner_wf (set_g_work_time t m) = miner_wf m"
  "miner_wf (set_stratum_diff d m) = miner_wf m"
  "miner_wf (set_io io m) = miner_wf m"
  "miner_wf (restart_threads c m) = miner_wf m"
  "miner_wf m \<Longrightarrow> work_wf w \<Longrightarrow> miner_wf (set_g_work w m)"
  "miner_wf m \<Longrightarrow> stratum_wf s \<Longrightarrow> miner_wf (set_sctx s m)"
  "miner_wf m \<Longrightarrow> rpc2_wf r \<Longrightarrow> miner_wf (set_rpc2 r m)"
  by (simp_all add: miner_wf_def state_wf_def miner_set_defs restart_threads_def rpc2_wf_def)

lemma miner_set_fields [simp]:
  "m_sctx (set_sctx s m) = s" "m_g_work (set_g_work w m) = w" "m_g_work (set_sctx s m) = m_g_work m"
  "m_sctx (set_g_work w m) = m_sctx m" "m_g_work (set_stratum_diff d m) = m_g_work m"
  "m_sctx (set_stratum_diff d m) = m_sctx m" "m_stratum_diff (set_stratum_diff d m) = d"
  "st_g_work_time (m_st (set_g_work_time t m)) = t" "m_g_work (set_g_work_time t m) = m_g_work m"
  "m_sctx (set_g_work_time t m) = m_sctx m" "m_g_work (restart_threads c m) = m_g_work m"
  "m_sctx (restart_threads c m) = m_sctx m" "st_g_work_time (m_st (restart_threads c m)) = st_g_work_time (m_st m)"
  by (simp_all add: miner_set_defs restart_threads_def)

section \<open>A sample state\<close>

definition config0 :: config where
  "config0 = \<lparr>cf_stratum = opts0, cf_use_roots = False, cf_allow_getwork = True, cf_want_longpoll = True, cf_want_stratum = True,
     cf_benchmark = False, cf_showdiff = False, cf_randomize = False, cf_max_temp = dbl_zero, cf_max_diff = dbl_zero,
     cf_max_rate = dbl_zero, cf_diff_factor = dbl_one, cf_n_threads = 2, cf_retries = 3, cf_scantime = 5,
     cf_time_limit = 0, cf_rpc_url = ''http://pool'', cf_rpc_user = ''user'', cf_rpc_pass = ''pass'',
     cf_pk_script = [], cf_coinbase_sig = []\<rparr>"

definition miner0 :: miner where
  "miner0 = \<lparr>m_st = stratum_state0, m_have_stratum = True, m_have_longpoll = False, m_have_gbt = True,
     m_allow_mininginfo = True, m_submit_old = False, m_need_reset = False, m_net_diff = dbl_zero, m_net_hashrate = dbl_zero,
     m_net_blocks = 0, m_accepted = 0, m_rejected = 0, m_solved = 0, m_hashrates = [dbl_zero, dbl_zero],
     m_global_hashrate = 0, m_restart = [False, False], m_conditional = replicate 16 False, m_lp_id = None,
     m_lp_queue = [], m_stratum_queue = [], m_calls = []\<rparr>"

lemma miner_wf0: "miner_wf miner0"
  by (simp add: miner_wf_def miner0_def state_wf0)

end
