(* ===== verification/Gen_Work.thy ===== *)
theory Gen_Work
  imports Miner_State
begin

text \<open>
  \<^verbatim>\<open>stratum_gen_work\<close> of \<^verbatim>\<open>cpu-miner.c\<close>: the header of a share from the current stratum job. The
  second extra nonce of the job is advanced after each header, so that no two headers of a job agree.
\<close>

section \<open>Definitions\<close>

text \<open>The carry loop over the bytes of the second extra nonce.\<close>

fun xnonce2_incr :: "u8 list \<Rightarrow> u8 list" where
  "xnonce2_incr [] = []"
| "xnonce2_incr (b # bs) = (if b + 1 = 0 then 0 # xnonce2_incr bs else (b + 1) # bs)"

text \<open>The buffer of 64 bytes holds the running root in its first half.\<close>

definition merkle_step :: "u8 list \<Rightarrow> u8 list \<Rightarrow> u8 list" where
  "merkle_step m buf = (let buf = memcpy_at buf 32 (take 32 m) in memcpy_at buf 0 (sha256d buf 64))"

definition gen_merkle_root :: "stratum_job \<Rightarrow> u8 list" where
  "gen_merkle_root job =
    fold merkle_step (j_merkle job)
      (memcpy_at (replicate 64 0) 0 (sha256d (j_coinbase job) (length (j_coinbase job))))"

definition gen_header :: "stratum_job \<Rightarrow> u8 list \<Rightarrow> u32 list \<Rightarrow> u32 list" where
  "gen_header job merkle_root data =
    (let d = memcpy_at data 0 (replicate 32 0);
         d = d[0 := le32dec (j_version job)];
         d = fold (\<lambda>i d. d[1 + i := le32dec (drop (4 * i) (j_prevhash job))]) [0..<8] d;
         d = fold (\<lambda>i d. d[9 + i := be32dec (drop (4 * i) merkle_root)]) [0..<8] d
     in d[17 := le32dec (j_ntime job), 18 := le32dec (j_nbits job), 20 := 0x80000000, 31 := 0x00000280])"

text \<open>\<open>None\<close> where the code would read a missing job, run past the coinbase or convert a quotient that
  does not fit.\<close>

definition stratum_gen_work :: "config \<Rightarrow> work \<Rightarrow> miner \<Rightarrow> (work \<times> miner) option" where
  "stratum_gen_work c w m =
    (let sctx = m_sctx m; job = s_job sctx; n = s_xnonce2_size sctx in
     if jsonrpc_2 c then Some (work_copy (s_work sctx), m)
     else case j_job_id job of
       None \<Rightarrow> None
     | Some jid \<Rightarrow>
         if length (j_coinbase job) < j_xnonce2 job + n then None
         else
           let xn2 = take n (drop (j_xnonce2 job) (j_coinbase job));
               w = w\<lparr>w_job_id := Some jid, w_xnonce2_len := n, w_xnonce2 := Some xn2\<rparr>;
               merkle_root = gen_merkle_root job;
               m = set_sctx (sctx\<lparr>s_job := job\<lparr>j_coinbase :=
                     memcpy_at (j_coinbase job) (j_xnonce2 job) (xnonce2_incr xn2)\<rparr>\<rparr>) m;
               w = w\<lparr>w_data := gen_header job merkle_root (w_data w)\<rparr>;
               m = (if cf_showdiff c \<or> dlt dbl_zero (cf_max_diff c)
                    then m\<lparr>m_net_diff := calc_network_diff (m_have_longpoll m) w\<rparr> else m)
           in case work_set_target w (ddiv (j_diff job) (cf_diff_factor c)) of
                None \<Rightarrow> None
              | Some w \<Rightarrow>
                  Some (w, if deq (m_stratum_diff m) (j_diff job) then m else set_stratum_diff (j_diff job) m))"

section \<open>The extra nonce\<close>

lemma length_xnonce2_incr [layout, simp]: "length (xnonce2_incr bs) = length bs"
  by (induction bs rule: xnonce2_incr.induct) simp_all

lemma unat_u8_inc: "unat (b + 1 :: u8) = (if b + 1 = 0 then 0 else unat b + 1)"
  by (metis unat_0 unatSuc add.commute Suc_eq_plus1)

text \<open>The bytes count as a little endian number, modulo its size.\<close>

lemma xnonce2_incr_val: "le_val (xnonce2_incr bs) = (le_val bs + 1) mod 256 ^ length bs"
proof (induction bs)
  case (Cons b bs)
  show ?case
  proof (cases "b + 1 = 0")
    case True
    then have "b = - 1" by (simp add: eq_neg_iff_add_eq_0)
    then have b: "unat b = 255" by (simp add: unsigned_minus_1_eq_mask mask_eq_exp_minus_1)
    have "(unat b + 256 * le_val bs + 1) mod (256 * 256 ^ length bs) = 256 * ((le_val bs + 1) mod 256 ^ length bs)"
      by (simp add: b mult_mod_right algebra_simps)
    then show ?thesis using True Cons by simp
  next
    case False
    then have "unat (b + 1) = unat b + 1" by (simp add: unat_u8_inc)
    then have v: "le_val ((b + 1) # bs) = le_val (b # bs) + 1" by simp
    then have "le_val (b # bs) + 1 < 256 ^ length (b # bs)" using le_val_less [of "(b + 1) # bs"] by (simp only: v) simp
    then show ?thesis using False v by simp
  qed
qed simp

lemma xnonce2_incr_power_val: "le_val ((xnonce2_incr ^^ k) bs) = (le_val bs + k) mod 256 ^ length bs"
proof (induction k)
  case 0
  then show ?case by (simp add: le_val_less)
next
  case (Suc k)
  have "length ((xnonce2_incr ^^ k) bs) = length bs" by (induction k) simp_all
  with Suc show ?case by (simp add: xnonce2_incr_val mod_simps)
qed

section \<open>The header\<close>

text \<open>Storing a run of consecutive elements is a copy.\<close>

lemma fold_update_block:
  assumes "k + n \<le> length d"
  shows "fold (\<lambda>i d. d[k + i := f i]) [0..<n] d = memcpy_at d k (map f [0..<n])"
  using assms
proof (induction n)
  case (Suc n)
  have "(memcpy_at d k (map f [0..<n]))[k + n := f n] = memcpy_at d k (map f [0..<Suc n])"
    using Suc.prems by (simp add: memcpy_at_def list_update_append Cons_nth_drop_Suc [symmetric])
  then show ?case using Suc by simp
qed (simp add: memcpy_at_def)

lemma update_tail:
  assumes "length A = 17"
  shows "(A @ replicate 15 z @ rest)[17 := a, 18 := b, 20 := c, 31 := d] =
    A @ (replicate 15 z)[0 := a, 1 := b, 3 := c, 14 := d] @ rest"
  using assms by (simp add: list_update_append del: list_update.simps)

definition header_words :: "stratum_job \<Rightarrow> u8 list \<Rightarrow> u32 list" where
  "header_words job rt =
    le32dec (j_version job) # map (\<lambda>i. le32dec (drop (4 * i) (j_prevhash job))) [0..<8] @
    map (\<lambda>i. be32dec (drop (4 * i) rt)) [0..<8] @ [le32dec (j_ntime job), le32dec (j_nbits job), 0]"

lemma gen_header_layout:
  assumes "length data = 48"
  shows "gen_header job rt data = header_words job rt @ header_padding @ drop 32 data"
proof -
  let ?z = "replicate 32 (0 :: u32) @ drop 32 data"
  let ?p = "map (\<lambda>i. le32dec (drop (4 * i) (j_prevhash job))) [0..<8]"
  let ?r = "map (\<lambda>i. be32dec (drop (4 * i) rt)) [0..<8]"
  have z: "memcpy_at data 0 (replicate 32 0) = ?z" using assms by (simp add: memcpy_at_def)
  have "gen_header job rt data =
      (memcpy_at (memcpy_at (?z[0 := le32dec (j_version job)]) 1 ?p) 9 ?r)
        [17 := le32dec (j_ntime job), 18 := le32dec (j_nbits job), 20 := 0x80000000, 31 := 0x00000280]"
    unfolding gen_header_def Let_def z
    by (subst fold_update_block, simp add: assms)+ (simp only:)
  also have "memcpy_at (memcpy_at (?z[0 := le32dec (j_version job)]) 1 ?p) 9 ?r =
      (le32dec (j_version job) # ?p @ ?r) @ replicate 15 0 @ drop 32 data"
  proof -
    have "?z[0 := le32dec (j_version job)] = le32dec (j_version job) # replicate 31 0 @ drop 32 data"
      by (simp add: numeral_eq_Suc del: drop_Suc)
    moreover have "length ?p = 8" "length ?r = 8" by simp_all
    ultimately show ?thesis by (simp add: memcpy_at_def)
  qed
  also have "\<dots> [17 := le32dec (j_ntime job), 18 := le32dec (j_nbits job), 20 := 0x80000000, 31 := 0x00000280] =
      (le32dec (j_version job) # ?p @ ?r) @ (replicate 15 0)
        [0 := le32dec (j_ntime job), 1 := le32dec (j_nbits job), 3 := 0x80000000, 14 := 0x00000280] @ drop 32 data"
    by (intro update_tail) simp
  also have "\<dots> = header_words job rt @ header_padding @ drop 32 data"
    by (simp add: header_words_def header_padding_def numeral_eq_Suc del: upt_rec_numeral drop_Suc)
  finally show ?thesis .
qed


text \<open>The byte string that the double hash of the header is taken over, in the terms of the job: words
  reversed as the protocol asks for, the Merkle root as it is, the nonce still zero.\<close>

fun swap_words :: "u8 list \<Rightarrow> u8 list" where
  "swap_words (a # b # c # d # bs) = d # c # b # a # swap_words bs"
| "swap_words _ = []"

definition double_sha :: "u8 list \<Rightarrow> u8 list" where
  "double_sha m = fips_sha256 (fips_sha256 m)"

definition share_merkle_root :: "u8 list \<Rightarrow> u8 list list \<Rightarrow> u8 list" where
  "share_merkle_root coinbase branch = foldl (\<lambda>r m. double_sha (r @ m)) (double_sha coinbase) branch"

definition share_header :: "stratum_job \<Rightarrow> u8 list" where
  "share_header job =
    rev (j_version job) @ swap_words (j_prevhash job) @ share_merkle_root (j_coinbase job) (j_merkle job) @
    rev (j_ntime job) @ rev (j_nbits job) @ [0, 0, 0, 0]"

lemma length_double_sha [layout, simp]: "length (double_sha m) = 32"
  by (simp add: double_sha_def)

lemma merkle_step_root:
  assumes "length buf = 64" "length m = 32"
  shows "take 32 (merkle_step m buf) = double_sha (take 32 buf @ m)" "length (merkle_step m buf) = 64"
proof -
  let ?b = "memcpy_at buf 32 (take 32 m)"
  have b: "?b = take 32 buf @ m" using assms by (simp add: memcpy_at_def)
  have s: "sha256d ?b 64 = double_sha ?b"
    using assms sha256d_fips_gen [of 64 ?b] by (simp add: double_sha_def)
  have len: "length ?b = 64" using assms by simp
  show "take 32 (merkle_step m buf) = double_sha (take 32 buf @ m)"
    unfolding merkle_step_def Let_def s by (simp add: memcpy_at_def [of _ 0] b)
  show "length (merkle_step m buf) = 64"
    unfolding merkle_step_def Let_def s using len by simp
qed

lemma merkle_fold_root:
  assumes "length buf = 64" "\<forall>m \<in> set ms. length m = 32"
  shows "take 32 (fold merkle_step ms buf) = foldl (\<lambda>r m. double_sha (r @ m)) (take 32 buf) ms \<and>
    length (fold merkle_step ms buf) = 64"
  using assms by (induction ms arbitrary: buf) (simp_all add: merkle_step_root)

lemma gen_merkle_root_spec:
  assumes "\<forall>m \<in> set (j_merkle job). length m = 32" "8 * length (j_coinbase job) < 4294967296"
  shows "take 32 (gen_merkle_root job) = share_merkle_root (j_coinbase job) (j_merkle job)"
    "length (gen_merkle_root job) = 64"
proof -
  have s: "sha256d (j_coinbase job) (length (j_coinbase job)) = double_sha (j_coinbase job)"
    using sha256d_fips_gen [of "length (j_coinbase job)" "j_coinbase job"] assms(2) by (simp add: double_sha_def)
  let ?b = "memcpy_at (replicate 64 0) 0 (double_sha (j_coinbase job))"
  have "take 32 ?b = double_sha (j_coinbase job)" "length ?b = 64" by (simp_all add: memcpy_at_def)
  with merkle_fold_root [of ?b, OF _ assms(1)]
  show "take 32 (gen_merkle_root job) = share_merkle_root (j_coinbase job) (j_merkle job)"
    "length (gen_merkle_root job) = 64"
    by (simp_all add: gen_merkle_root_def share_merkle_root_def s)
qed


lemma be32enc_dec_Cons:
  "be32enc (be32dec (a # b # c # d # bs)) = [a, b, c, d]" "be32enc (le32dec (a # b # c # d # bs)) = [d, c, b, a]"
proof -
  have "be32dec (a # b # c # d # bs) = be32dec [a, b, c, d]" "le32dec (a # b # c # d # bs) = be32dec [d, c, b, a]"
    by (simp_all add: be32dec_def le32dec_def)
  then show "be32enc (be32dec (a # b # c # d # bs)) = [a, b, c, d]" "be32enc (le32dec (a # b # c # d # bs)) = [d, c, b, a]"
    by (simp_all add: be32enc_be32dec)
qed

lemma length_ge4: "4 \<le> length bs \<Longrightarrow> \<exists>a b c d r. bs = a # b # c # d # r"
  for bs :: "u8 list"
  by (cases bs rule: swap_words.cases) auto

text \<open>The words of a byte string, written out again.\<close>

lemma words_of_string:
  assumes "4 * n \<le> length bs"
  shows "concat (map (\<lambda>i. be32enc (be32dec (drop (4 * i) bs))) [0..<n]) = take (4 * n) bs"
    "concat (map (\<lambda>i. be32enc (le32dec (drop (4 * i) bs))) [0..<n]) = swap_words (take (4 * n) bs)"
proof -
  have "concat (map (\<lambda>i. be32enc (be32dec (drop (4 * i) bs))) [0..<n]) = take (4 * n) bs \<and>
    concat (map (\<lambda>i. be32enc (le32dec (drop (4 * i) bs))) [0..<n]) = swap_words (take (4 * n) bs)"
    using assms
  proof (induction n arbitrary: bs)
    case (Suc n)
    then obtain a b c d r where bs: "bs = a # b # c # d # r" using length_ge4 [of bs] by auto
    have "[0..<Suc n] = 0 # map Suc [0..<n]" by (simp add: upt_conv_Cons map_Suc_upt del: upt_Suc)
    moreover have "drop (4 * Suc i) bs = drop (4 * i) r" "take (4 * Suc n) bs = a # b # c # d # take (4 * n) r" for i
      using drop_append [of "4 * Suc i" "[a, b, c, d]" r] take_append [of "4 * Suc n" "[a, b, c, d]" r] by (simp_all add: bs)
    moreover have "4 * n \<le> length r" using Suc.prems by (simp add: bs)
    ultimately show ?case using Suc.IH [of r]
      by (simp add: be32enc_dec_Cons comp_def bs del: upt_Suc mult_Suc_right)
  qed simp
  then show "concat (map (\<lambda>i. be32enc (be32dec (drop (4 * i) bs))) [0..<n]) = take (4 * n) bs"
    "concat (map (\<lambda>i. be32enc (le32dec (drop (4 * i) bs))) [0..<n]) = swap_words (take (4 * n) bs)" by auto
qed

lemma be32enc_le32dec_4: "length v = 4 \<Longrightarrow> be32enc (le32dec v) = rev v"
  using length_ge4 [of v] by (auto simp: be32enc_dec_Cons)

lemma header_words_bytes:
  assumes "job_wf job" "length rt = 64"
  shows "concat (map be32enc (header_words job rt)) =
    rev (j_version job) @ swap_words (j_prevhash job) @ take 32 rt @ rev (j_ntime job) @ rev (j_nbits job) @ [0, 0, 0, 0]"
  using assms words_of_string [of 8 "j_prevhash job"] words_of_string [of 8 rt]
  by (simp add: header_words_def job_wf_def be32enc_le32dec_4 comp_def be32enc_0 del: upt_rec_numeral)

section \<open>The generated work\<close>

lemma gen_work_cases:
  assumes "stratum_gen_work c w m = Some (w', m')" "\<not> jsonrpc_2 c"
  obtains jid where "j_job_id (s_job (m_sctx m)) = Some jid" "w_job_id w' = Some jid"
    "j_xnonce2 (s_job (m_sctx m)) + s_xnonce2_size (m_sctx m) \<le> length (j_coinbase (s_job (m_sctx m)))"
    "w_data w' = gen_header (s_job (m_sctx m)) (gen_merkle_root (s_job (m_sctx m))) (w_data w)"
    "w_xnonce2_len w' = s_xnonce2_size (m_sctx m)"
    "w_xnonce2 w' = Some (take (s_xnonce2_size (m_sctx m)) (drop (j_xnonce2 (s_job (m_sctx m))) (j_coinbase (s_job (m_sctx m)))))"
    "diff_to_target (ddiv (j_diff (s_job (m_sctx m))) (cf_diff_factor c)) = Some (w_target w')"
    "m_sctx m' = (m_sctx m)\<lparr>s_job := (s_job (m_sctx m))\<lparr>j_coinbase :=
       memcpy_at (j_coinbase (s_job (m_sctx m))) (j_xnonce2 (s_job (m_sctx m))) (xnonce2_incr
         (take (s_xnonce2_size (m_sctx m)) (drop (j_xnonce2 (s_job (m_sctx m))) (j_coinbase (s_job (m_sctx m))))))\<rparr>\<rparr>"
  using assms
  by (auto simp: stratum_gen_work_def work_set_target_def Let_def set_sctx_def set_stratum_diff_def split: option.splits if_splits)

lemma diff_to_target_length: "diff_to_target d = Some t \<Longrightarrow> length t = 8"
  by (auto simp: diff_to_target_def split: prod.splits option.splits)


lemma take_header: "length data = 48 \<Longrightarrow> take 20 (gen_header job rt data) = header_words job rt"
  by (simp add: gen_header_layout) (simp add: header_words_def del: upt_rec_numeral)

lemma gen_work_header:
  assumes "stratum_gen_work c w m = Some (w', m')" "\<not> jsonrpc_2 c" "miner_wf m" "work_wf w"
    "8 * length (j_coinbase (s_job (m_sctx m))) < 4294967296"
  shows "concat (map be32enc (take 20 (w_data w'))) = share_header (s_job (m_sctx m))" "padded_work w'" "work_wf w'"
proof -
  let ?job = "s_job (m_sctx m)"
  have wf: "job_wf ?job" "length (w_data w) = 48"
    using assms(3,4) by (simp_all add: miner_wf_def state_wf_def stratum_wf_def work_wf_def)
  have rt: "take 32 (gen_merkle_root ?job) = share_merkle_root (j_coinbase ?job) (j_merkle ?job)"
    "length (gen_merkle_root ?job) = 64"
    using gen_merkle_root_spec [of ?job] wf(1) assms(5) by (simp_all add: job_wf_def)
  from assms(1,2) show "concat (map be32enc (take 20 (w_data w'))) = share_header ?job"
    by (cases rule: gen_work_cases)
      (simp add: take_header wf(2) header_words_bytes [OF wf(1) rt(2)] rt(1) share_header_def)
  have len: "length (header_words ?job rt) = 20" for rt by (simp add: header_words_def del: upt_rec_numeral)
  have pad: "length header_padding = 12" by (simp add: header_padding_def)
  from assms(1,2) show "padded_work w'"
    by (cases rule: gen_work_cases)
      (simp add: padded_work_def gen_header_layout wf(2) len pad diff_to_target_length)
  from assms(1,2) show "work_wf w'"
    by (cases rule: gen_work_cases)
      (simp add: work_wf_def gen_header_layout wf(2) len pad diff_to_target_length)
qed

section \<open>Runs of generated work\<close>

definition job_xnonce2 :: "stratum_ctx \<Rightarrow> u8 list" where
  "job_xnonce2 sctx = take (s_xnonce2_size sctx) (drop (j_xnonce2 (s_job sctx)) (j_coinbase (s_job sctx)))"

lemma gen_work_xnonce2:
  assumes "stratum_gen_work c w m = Some (w', m')" "\<not> jsonrpc_2 c"
  shows "w_xnonce2 w' = Some (job_xnonce2 (m_sctx m))" "job_xnonce2 (m_sctx m') = xnonce2_incr (job_xnonce2 (m_sctx m))"
    "s_xnonce2_size (m_sctx m') = s_xnonce2_size (m_sctx m)" "length (job_xnonce2 (m_sctx m)) = s_xnonce2_size (m_sctx m)"
    "length (j_coinbase (s_job (m_sctx m'))) = length (j_coinbase (s_job (m_sctx m)))"
proof -
  have upd: "take n (drop off (memcpy_at cb off (xnonce2_incr (take n (drop off cb))))) = xnonce2_incr (take n (drop off cb))"
    "length (take n (drop off cb)) = n" "length (memcpy_at cb off (xnonce2_incr (take n (drop off cb)))) = length cb"
    if "off + n \<le> length cb" for off n and cb :: "u8 list"
  proof -
    show "length (take n (drop off cb)) = n" using that by simp
    then show "take n (drop off (memcpy_at cb off (xnonce2_incr (take n (drop off cb))))) = xnonce2_incr (take n (drop off cb))"
      "length (memcpy_at cb off (xnonce2_incr (take n (drop off cb)))) = length cb"
      using that by (simp_all add: memcpy_at_def)
  qed
  from assms show "w_xnonce2 w' = Some (job_xnonce2 (m_sctx m))" by (cases rule: gen_work_cases) (simp add: job_xnonce2_def)
  from assms obtain fits: "j_xnonce2 (s_job (m_sctx m)) + s_xnonce2_size (m_sctx m) \<le> length (j_coinbase (s_job (m_sctx m)))"
    and ctx: "m_sctx m' = (m_sctx m)\<lparr>s_job := (s_job (m_sctx m))\<lparr>j_coinbase :=
       memcpy_at (j_coinbase (s_job (m_sctx m))) (j_xnonce2 (s_job (m_sctx m))) (xnonce2_incr (job_xnonce2 (m_sctx m)))\<rparr>\<rparr>"
    by (cases rule: gen_work_cases) (simp add: job_xnonce2_def)
  note upd = upd [OF fits, folded job_xnonce2_def]
  show "job_xnonce2 (m_sctx m') = xnonce2_incr (job_xnonce2 (m_sctx m))"
    using upd(1) unfolding ctx by (simp add: job_xnonce2_def [of "_\<lparr>s_job := _\<rparr>"])
  show "s_xnonce2_size (m_sctx m') = s_xnonce2_size (m_sctx m)" unfolding ctx by simp
  show "length (job_xnonce2 (m_sctx m)) = s_xnonce2_size (m_sctx m)" by (rule upd(2))
  show "length (j_coinbase (s_job (m_sctx m'))) = length (j_coinbase (s_job (m_sctx m)))" unfolding ctx using upd(3) by simp
qed

text \<open>The works generated one after the other from the same job.\<close>

fun gen_run :: "nat \<Rightarrow> config \<Rightarrow> miner \<Rightarrow> (work list \<times> miner) option" where
  "gen_run 0 c m = Some ([], m)"
| "gen_run (Suc k) c m =
    (case stratum_gen_work c (m_g_work m) m of
       None \<Rightarrow> None
     | Some (w, m) \<Rightarrow>
         (case gen_run k c (set_g_work w m) of
            None \<Rightarrow> None
          | Some (ws, m) \<Rightarrow> Some (w # ws, m)))"

lemma gen_run_xnonce2:
  assumes "gen_run k c m = Some (ws, m')" "\<not> jsonrpc_2 c"
  shows "length ws = k \<and> (\<forall>i < k. w_xnonce2 (ws ! i) = Some ((xnonce2_incr ^^ i) (job_xnonce2 (m_sctx m))))"
  using assms(1)
proof (induction k arbitrary: m ws)
  case (Suc k)
  then obtain w m1 ws1 where g: "stratum_gen_work c (m_g_work m) m = Some (w, m1)"
      "gen_run k c (set_g_work w m1) = Some (ws1, m')" "ws = w # ws1"
    by (auto split: option.splits)
  note step = gen_work_xnonce2 [OF g(1) assms(2)]
  have "w_xnonce2 (ws ! i) = Some ((xnonce2_incr ^^ i) (job_xnonce2 (m_sctx m)))" if "i < Suc k" for i
    using Suc.IH [OF g(2)] step(1,2) g(3) that by (cases i) (simp_all add: funpow_swap1)
  then show ?case using Suc.IH [OF g(2)] g(3) by simp
qed simp

lemma gen_run_distinct:
  assumes "gen_run k c m = Some (ws, m')" "\<not> jsonrpc_2 c" "k \<le> 256 ^ s_xnonce2_size (m_sctx m)"
  shows "distinct (map w_xnonce2 ws)"
proof (cases k)
  case 0
  then show ?thesis using assms(1) by simp
next
  case (Suc k')
  then obtain w m1 where g: "stratum_gen_work c (m_g_work m) m = Some (w, m1)"
    using assms(1) by (auto split: option.splits)
  let ?x = "job_xnonce2 (m_sctx m)"
  have len: "length ?x = s_xnonce2_size (m_sctx m)" by (rule gen_work_xnonce2 [OF g assms(2)])
  note ws = gen_run_xnonce2 [OF assms(1,2)]
  have "(le_val ?x + i) mod 256 ^ length ?x \<noteq> (le_val ?x + j) mod 256 ^ length ?x" if "i < j" "j < k" for i j
  proof
    assume "(le_val ?x + i) mod 256 ^ length ?x = (le_val ?x + j) mod 256 ^ length ?x"
    then have "256 ^ length ?x dvd (le_val ?x + j) - (le_val ?x + i)" using that by (metis mod_eq_dvd_iff_nat add_le_cancel_left less_imp_le)
    then show False using that assms(3) len by (auto dest: dvd_imp_le)
  qed
  then have "(xnonce2_incr ^^ i) ?x \<noteq> (xnonce2_incr ^^ j) ?x" if "i < j" "j < k" for i j
    using that xnonce2_incr_power_val [of _ ?x] by metis
  then have "\<forall>i < k. \<forall>j < k. i \<noteq> j \<longrightarrow> w_xnonce2 (ws ! i) \<noteq> w_xnonce2 (ws ! j)"
    using ws by (metis linorder_neqE_nat option.inject)
  then show ?thesis using ws by (simp add: distinct_conv_nth)
qed

text \<open>What the generation needs: a job, an extra nonce inside the coinbase and a usable difficulty.\<close>

definition gen_ready :: "config \<Rightarrow> stratum_ctx \<Rightarrow> bool" where
  "gen_ready c s \<longleftrightarrow> j_job_id (s_job s) \<noteq> None \<and> j_xnonce2 (s_job s) + s_xnonce2_size s \<le> length (j_coinbase (s_job s)) \<and>
     diff_to_target (ddiv (j_diff (s_job s)) (cf_diff_factor c)) \<noteq> None"

lemma gen_work_defined:
  assumes "gen_ready c (m_sctx m)" "\<not> jsonrpc_2 c"
  obtains w' m' where "stratum_gen_work c w m = Some (w', m')" "gen_ready c (m_sctx m')"
proof -
  from assms obtain w' m' where g: "stratum_gen_work c w m = Some (w', m')"
    by (fastforce simp: gen_ready_def stratum_gen_work_def work_set_target_def Let_def set_sctx_def)
  moreover from g assms(2) have "gen_ready c (m_sctx m')"
    using assms(1) gen_work_xnonce2(5) [OF g assms(2)] by (cases rule: gen_work_cases) (simp add: gen_ready_def)
  ultimately show thesis by (rule that)
qed

lemma gen_run_defined:
  assumes "gen_ready c (m_sctx m)" "\<not> jsonrpc_2 c"
  shows "\<exists>ws m'. gen_run k c m = Some (ws, m')"
  using assms(1)
proof (induction k arbitrary: m)
  case (Suc k)
  obtain w m1 where "stratum_gen_work c (m_g_work m) m = Some (w, m1)" "gen_ready c (m_sctx m1)"
    using Suc.prems assms(2) by (rule gen_work_defined)
  then show ?case using Suc.IH [of "set_g_work w m1"] by auto
qed simp

definition gen_sample :: miner where
  "gen_sample = set_sctx (stratum0\<lparr>s_xnonce2_size := 2, s_job := job0\<lparr>j_job_id := Some ''a1'', j_coinbase := [1, 0, 0, 2],
     j_xnonce2 := 1, j_diff := dbl_one\<rparr>\<rparr>) miner0"

lemma gen_sample_ready: "gen_ready config0 (m_sctx gen_sample)" "\<not> jsonrpc_2 config0"
proof -
  have "diff_to_target (ddiv dbl_one dbl_one) \<noteq> None" by code_simp
  then show "gen_ready config0 (m_sctx gen_sample)" by (simp add: gen_ready_def gen_sample_def config0_def)
  show "\<not> jsonrpc_2 config0" by (simp add: config0_def opts0_def)
qed

lemma gen_sample_wf: "miner_wf gen_sample" "work_wf work0" "s_job (m_sctx gen_sample) = job0\<lparr>j_job_id := Some ''a1'',
     j_coinbase := [1, 0, 0, 2], j_xnonce2 := 1, j_diff := dbl_one\<rparr>" "s_xnonce2_size (m_sctx gen_sample) = 2"
  using miner_wf0 by (simp_all add: gen_sample_def miner_wf_def state_wf_def stratum_wf_def set_sctx_def miner0_def
      stratum_state0_def stratum0_def job_wf_def job0_def work_wf_def work0_def)

section \<open>Properties\<close>

text \<open>C10: the header that is generated from a stratum job is, as bytes, the version, the previous hash and
  the time and bits of the job in reversed words, with the Merkle root of the coinbase and the
  branch between them; it carries the padding that the hashing code needs.\<close>

theorem stratum_gen_work_header:
  assumes "miner_wf m" and "work_wf w" and "\<not> jsonrpc_2 c"
    and "8 * length (j_coinbase (s_job (m_sctx m))) < 4294967296"
    and "stratum_gen_work c w m = Some (w', m')"
  shows "concat (map be32enc (take 20 (w_data w'))) = share_header (s_job (m_sctx m)) \<and> padded_work w' \<and> work_wf w'"
  using gen_work_header [OF assms(5,3,1,2,4)] by blast

theorem stratum_gen_work_header_witness:
  "\<exists>w' m'. stratum_gen_work config0 work0 gen_sample = Some (w', m') \<and>
     concat (map be32enc (take 20 (w_data w'))) = share_header (s_job (m_sctx gen_sample)) \<and> padded_work w' \<and> work_wf w'"
proof -
  obtain w' m' where g: "stratum_gen_work config0 work0 gen_sample = Some (w', m')"
    using gen_sample_ready by (rule gen_work_defined)
  have "8 * length (j_coinbase (s_job (m_sctx gen_sample))) < 4294967296" by (simp add: gen_sample_wf(3))
  from stratum_gen_work_header [OF gen_sample_wf(1,2) gen_sample_ready(2) this g] g show ?thesis by blast
qed

text \<open>C11: the works generated one after the other from a job carry different extra nonces, as long as they
  are not more than the extra nonce has values: no header of a job is handed out twice.\<close>

theorem stratum_gen_work_distinct:
  assumes "\<not> jsonrpc_2 c" and "gen_run k c m = Some (ws, m')" and "k \<le> 256 ^ s_xnonce2_size (m_sctx m)"
  shows "length ws = k \<and> distinct (map w_xnonce2 ws)"
  using gen_run_distinct [OF assms(2,1,3)] gen_run_xnonce2 [OF assms(2,1)] by blast

theorem stratum_gen_work_distinct_witness:
  "\<exists>ws m'. gen_run 3 config0 gen_sample = Some (ws, m') \<and> length ws = 3 \<and> distinct (map w_xnonce2 ws)"
proof -
  obtain ws m' where r: "gen_run 3 config0 gen_sample = Some (ws, m')"
    using gen_run_defined [OF gen_sample_ready] by blast
  have "3 \<le> (256 :: nat) ^ s_xnonce2_size (m_sctx gen_sample)" by (simp add: gen_sample_wf(4))
  from stratum_gen_work_distinct [OF gen_sample_ready(2) r this] r show ?thesis by blast
qed

end
