(* ===== verification/Gbt.thy ===== *)
theory Gbt
  imports Gen_Work
begin

text \<open>
  \<^verbatim>\<open>gbt_work_decode\<close> of \<^verbatim>\<open>cpu-miner.c\<close>: a block template of a node becomes work. The coinbase
  transaction is taken from the template or built for the payout script, the miner's signature is
  pushed into it, and the Merkle root is computed over all transactions. Uninitialised memory holds
  what \<open>junk\<close> says; undefined behaviour is \<open>None\<close>.
\<close>

section \<open>What may be changed\<close>

record gbt_flags =
  coinbase_append :: bool
  submit_coinbase :: bool
  version_force :: bool
  version_reduce :: bool

definition mutable_flag :: "json \<Rightarrow> gbt_flags \<Rightarrow> gbt_flags" where
  "mutable_flag v f =
    (case json_string_value (Some v) of
       None \<Rightarrow> f
     | Some s \<Rightarrow>
         if s = ''coinbase/append'' then f\<lparr>coinbase_append := True\<rparr>
         else if s = ''submit/coinbase'' then f\<lparr>submit_coinbase := True\<rparr>
         else if s = ''version/force'' then f\<lparr>version_force := True\<rparr>
         else if s = ''version/reduce'' then f\<lparr>version_reduce := True\<rparr>
         else f)"

definition gbt_mutable :: "json option \<Rightarrow> gbt_flags" where
  "gbt_mutable val =
    (let f = \<lparr>coinbase_append = False, submit_coinbase = False, version_force = False, version_reduce = False\<rparr>
     in case json_object_get val ''mutable'' of Some (JArray vs) \<Rightarrow> fold mutable_flag vs f | _ \<Rightarrow> f)"

definition BLOCK_VERSION_CURRENT :: u32 where
  "BLOCK_VERSION_CURRENT = 3"

text \<open>The version to use, if any, and the new value of \<^verbatim>\<open>have_gbt\<close>.\<close>

definition gbt_version :: "bool \<Rightarrow> bool \<Rightarrow> gbt_flags \<Rightarrow> u32 \<Rightarrow> u32 option \<times> bool" where
  "gbt_version allow_getwork have_gbt f version =
    (if version AND 0xff > BLOCK_VERSION_CURRENT then
       (if version_reduce f then (Some ((version AND NOT 0xff) OR BLOCK_VERSION_CURRENT), have_gbt)
        else if have_gbt \<and> allow_getwork \<and> \<not> version_force f then (None, False)
        else if \<not> version_force f then (None, have_gbt)
        else (Some version, have_gbt))
     else (Some version, have_gbt))"

section \<open>The coinbase transaction\<close>

text \<open>The bytes of the height, least significant first; the loop does not end for a negative one.\<close>

fun height_bytes_le :: "nat \<Rightarrow> u8 list" where
  "height_bytes_le n = (if n = 0 then [] else word_of_nat (n mod 256) # height_bytes_le (n div 256))"

declare height_bytes_le.simps [simp del]

definition gbt_coinbase :: "(nat \<Rightarrow> u8) \<Rightarrow> int \<Rightarrow> u64 \<Rightarrow> u8 list \<Rightarrow> u8 list option" where
  "gbt_coinbase junk height cbvalue script =
    (if height < 0 then None
     else
       let h = height_bytes_le (nat height);
           top = (if h = [] then junk 42 else last h);
           h = (if top AND 0x80 \<noteq> 0 then h @ [0] else h)
       in Some (le32enc 1 @ [1] @ replicate 32 0 @ le32enc 0xffffffff @
            [word_of_nat (length h + 1), word_of_nat (length h)] @ h @ le32enc 0xffffffff @ [1] @
            le32enc (ucast cbvalue) @ le32enc (ucast (drop_bit 32 cbvalue)) @
            [word_of_nat (length script)] @ script @ le32enc 0))"

text \<open>The conversion of a double to \<^verbatim>\<open>int64_t\<close>, as its 64 bits.\<close>

definition dbl_to_i64 :: "double \<Rightarrow> u64 option" where
  "dbl_to_i64 d =
    (case d of
       DZero _ \<Rightarrow> Some 0
     | DFin x \<Rightarrow> (let t = trunc_rat x in if - 9223372036854775808 \<le> t \<and> t < 9223372036854775808 then Some (word_of_int t) else None)
     | _ \<Rightarrow> None)"

text \<open>The result: the transaction and whether the signature is appended to it; no transaction when the
  template is refused.\<close>

definition gbt_coinbase_tx :: "config \<Rightarrow> (nat \<Rightarrow> u8) \<Rightarrow> json option \<Rightarrow> gbt_flags \<Rightarrow> int \<Rightarrow> miner \<Rightarrow>
    ((u8 list \<times> bool) option \<times> miner) option" where
  "gbt_coinbase_tx c junk val f height m =
    (case json_object_get val ''coinbasetxn'' of
       Some tmp \<Rightarrow>
         (case json_string_value (json_object_get (Some tmp) ''data'') of
            None \<Rightarrow> Some (None, m)
          | Some hexs \<Rightarrow>
              let n = length hexs div 2 in
              if n < 60 then Some (None, m)
              else case hex2bin hexs n of (ok, tx) \<Rightarrow>
                Some (if ok then Some (tx, coinbase_append f) else None, m))
     | None \<Rightarrow>
         if cf_pk_script c = [] then Some (None, if cf_allow_getwork c then m\<lparr>m_have_gbt := False\<rparr> else m)
         else
           let tmp = json_object_get val ''coinbasevalue'' in
           if \<not> json_is_number tmp then Some (None, m)
           else case dbl_to_i64 (json_number_value tmp) of
             None \<Rightarrow> None
           | Some cbvalue \<Rightarrow>
               (case gbt_coinbase junk height cbvalue (cf_pk_script c) of
                  None \<Rightarrow> None
                | Some tx \<Rightarrow> Some (Some (tx, True), m)))"

definition xsig_add :: "u8 \<Rightarrow> u8 list \<Rightarrow> u8 list \<Rightarrow> u8 list" where
  "xsig_add siglen bs xsig = (if unat siglen + length xsig + length bs \<le> 100 then xsig @ bs else xsig)"

fun xsig_aux :: "u8 \<Rightarrow> json list \<Rightarrow> u8 list \<Rightarrow> u8 list" where
  "xsig_aux siglen [] xsig = xsig"
| "xsig_aux siglen (v # vs) xsig =
    (case json_string_value (Some v) of
       None \<Rightarrow> xsig
     | Some s \<Rightarrow>
         if length s div 2 > 100 then xsig
         else case hex2bin s (length s div 2) of (ok, bs) \<Rightarrow>
           if \<not> ok then xsig else xsig_aux siglen vs (xsig_add siglen bs xsig))"

definition gbt_xsig :: "string \<Rightarrow> json option \<Rightarrow> u8 \<Rightarrow> u8 list" where
  "gbt_xsig sig val siglen =
    (let xsig = (if sig \<noteq> [] then xsig_add siglen (map (\<lambda>ch. word_of_nat (code ch)) sig) [] else [])
     in case json_object_get val ''coinbaseaux'' of
          Some (JObject kvs) \<Rightarrow> xsig_aux siglen (map snd kvs) xsig
        | _ \<Rightarrow> xsig)"

definition xsig_push_len :: "nat \<Rightarrow> nat \<Rightarrow> nat" where
  "xsig_push_len siglen n = (if siglen + n < 76 then 1 else if siglen + 2 + n > 100 then 0 else 2)"

text \<open>The bytes are inserted at the end of the signature script; the tail of the transaction moves up.\<close>

definition gbt_append :: "u8 list \<Rightarrow> u8 list \<Rightarrow> u8 list option" where
  "gbt_append cbtx xsig =
    (if xsig = [] then Some cbtx
     else
       let siglen = unat (cbtx ! 41);
           ssig_end = 42 + siglen;
           push_len = xsig_push_len siglen (length xsig);
           n = length xsig + push_len
       in if length cbtx < ssig_end then None
          else Some ((take ssig_end cbtx)[41 := cbtx ! 41 + word_of_nat n] @
            (if push_len = 2 then [0x4c] else []) @ (if push_len \<noteq> 0 then [word_of_nat (length xsig)] else []) @
            xsig @ drop ssig_end cbtx))"

section \<open>The Merkle tree\<close>

text \<open>The tree is computed in place: level by level, every pair of hashes becomes one.\<close>

definition merkle_pairs :: "nat \<Rightarrow> u8 list list \<Rightarrow> u8 list list" where
  "merkle_pairs n tree = fold (\<lambda>i t. t[i := sha256d (t ! (2 * i) @ t ! (2 * i + 1)) 64]) [0..<n] tree"

function gbt_merkle :: "nat \<Rightarrow> u8 list list \<Rightarrow> u8 list list" where
  "gbt_merkle n tree =
    (if n \<le> 1 then tree
     else
       let tree' = (if odd n then tree[n := tree ! (n - 1)] else tree);
           n' = (if odd n then n + 1 else n) div 2
       in gbt_merkle n' (merkle_pairs n' tree'))"
  by pat_completeness auto
termination by (relation "measure fst") (auto elim!: oddE)

declare gbt_merkle.simps [simp del]

section \<open>Transactions\<close>

definition gbt_tx_data :: "json \<Rightarrow> string option" where
  "gbt_tx_data tx = json_string_value (json_object_get (Some tx) ''data'')"

text \<open>The hashes of the transactions, if all of them decode, and the text for the submission.\<close>

fun gbt_hash_txs :: "bool \<Rightarrow> string list \<Rightarrow> string \<Rightarrow> u8 list list option \<times> string" where
  "gbt_hash_txs no_txs [] txs = (Some [], txs)"
| "gbt_hash_txs no_txs (s # ss) txs =
    (case hex2bin s (length s div 2) of (ok, tx) \<Rightarrow>
      if \<not> ok then (None, txs)
      else case gbt_hash_txs no_txs ss (if no_txs then txs else txs @ s) of (hs, txs) \<Rightarrow>
        (map_option ((#) (sha256d tx (length s div 2))) hs, txs))"

text \<open>The size of the buffer for that text.\<close>

definition gbt_txs_alloc :: "u8 list \<Rightarrow> u8 list \<Rightarrow> string list \<Rightarrow> nat" where
  "gbt_txs_alloc txc_vi cbtx ss = 2 * (length txc_vi + length cbtx + sum_list (map (\<lambda>s. length s div 2) ss)) + 1"

section \<open>The header\<close>

definition gbt_header :: "u32 \<Rightarrow> u8 list \<Rightarrow> u8 list \<Rightarrow> u32 \<Rightarrow> u8 list \<Rightarrow> u32 list \<Rightarrow> u32 list" where
  "gbt_header version prevhash merkle_root curtime bits data =
    (let d = data[0 := swab32 version];
         d = fold (\<lambda>i d. d[8 - i := le32dec (drop (4 * i) prevhash)]) [0..<8] d;
         d = fold (\<lambda>i d. d[9 + i := be32dec (drop (4 * i) merkle_root)]) [0..<8] d;
         d = d[17 := swab32 curtime, 18 := le32dec bits];
         d = memcpy_at d 19 (replicate 13 0)
     in d[20 := 0x80000000, 31 := 0x00000280])"

text \<open>The end of the decoding: target and work id.\<close>

definition gbt_target :: "json option \<Rightarrow> work \<Rightarrow> miner \<Rightarrow> bool \<times> work \<times> miner" where
  "gbt_target val w m =
    (case jobj_binary val ''target'' 32 of (ok, target) \<Rightarrow>
      if \<not> ok then (False, w, m)
      else
        let w = w\<lparr>w_target := fold (\<lambda>i t. t[7 - i := be32dec (drop (4 * i) target)]) [0..<8] (w_target w)\<rparr> in
        case json_object_get val ''workid'' of
          None \<Rightarrow> (True, w, m)
        | Some tmp \<Rightarrow>
            (case json_string_value (Some tmp) of
               None \<Rightarrow> (False, w, m)
             | Some s \<Rightarrow> (True, w\<lparr>w_workid := Some s\<rparr>, m)))"

definition gbt_assemble :: "json option \<Rightarrow> gbt_flags \<Rightarrow> u32 \<Rightarrow> u8 list \<Rightarrow> u32 \<Rightarrow> u8 list \<Rightarrow> string list \<Rightarrow> u8 list \<Rightarrow>
    work \<Rightarrow> miner \<Rightarrow> bool \<times> work \<times> miner" where
  "gbt_assemble val f version prevhash curtime bits ss cbtx w m =
    (let txc_vi = varint_encode (word_of_nat (1 + length ss));
         txs = bin2hex txc_vi (length txc_vi) @ bin2hex cbtx (length cbtx);
         tree = replicate (2 * ((length ss + 2) div 2)) (replicate 32 0)
     in case gbt_hash_txs (submit_coinbase f) ss txs of (hashes, txs) \<Rightarrow>
       let w = w\<lparr>w_txs := Some txs\<rparr> in
       case hashes of
         None \<Rightarrow> (False, w, m)
       | Some hs \<Rightarrow>
           let tree = memcpy_at tree 0 (sha256d cbtx (length cbtx) # hs);
               merkle_root = gbt_merkle (1 + length ss) tree ! 0
           in gbt_target val (w\<lparr>w_data := gbt_header version prevhash merkle_root curtime bits (w_data w)\<rparr>) m)"

definition gbt_template :: "config \<Rightarrow> (nat \<Rightarrow> u8) \<Rightarrow> json option \<Rightarrow> gbt_flags \<Rightarrow> u32 \<Rightarrow> work \<Rightarrow> miner \<Rightarrow>
    (bool \<times> work \<times> miner) option" where
  "gbt_template c junk val f version w m =
    (case jobj_binary val ''previousblockhash'' 32 of (ok, prevhash) \<Rightarrow>
      if \<not> ok then Some (False, w, m)
      else case json_object_get val ''curtime'' of
        Some (JInteger curtime) \<Rightarrow>
          (case jobj_binary val ''bits'' 4 of (ok, bits) \<Rightarrow>
            if \<not> ok then Some (False, w, m)
            else case json_object_get val ''transactions'' of
              Some (JArray txa) \<Rightarrow>
                if list_ex (\<lambda>tx. gbt_tx_data tx = None) txa then Some (False, w, m)
                else (case gbt_coinbase_tx c junk val f (w_height w) m of
                  None \<Rightarrow> None
                | Some (None, m) \<Rightarrow> Some (False, w, m)
                | Some (Some (cbtx, app), m) \<Rightarrow>
                    (case (if app then gbt_append cbtx (gbt_xsig (cf_coinbase_sig c) val (cbtx ! 41)) else Some cbtx) of
                       None \<Rightarrow> None
                     | Some cbtx \<Rightarrow>
                         Some (gbt_assemble val f version prevhash (word_of_int curtime) bits
                           (map (the \<circ> gbt_tx_data) txa) cbtx w m)))
            | _ \<Rightarrow> Some (False, w, m))
      | _ \<Rightarrow> Some (False, w, m))"

definition gbt_body :: "config \<Rightarrow> (nat \<Rightarrow> u8) \<Rightarrow> json option \<Rightarrow> work \<Rightarrow> miner \<Rightarrow> (bool \<times> work \<times> miner) option" where
  "gbt_body c junk val w m =
    (let f = gbt_mutable val in
     case json_object_get val ''height'' of
       Some (JInteger height) \<Rightarrow>
         let w = w\<lparr>w_height := to_int32 height\<rparr> in
         (case json_object_get val ''version'' of
            Some (JInteger version) \<Rightarrow>
              (case gbt_version (cf_allow_getwork c) (m_have_gbt m) f (word_of_int version) of
                 (None, g) \<Rightarrow> Some (False, w, m\<lparr>m_have_gbt := g\<rparr>)
               | (Some version, g) \<Rightarrow> gbt_template c junk val f version w m)
          | _ \<Rightarrow> Some (False, w, m))
     | _ \<Rightarrow> Some (False, w, m))"

text \<open>The long polling data is taken from every template, also from a refused one.\<close>

definition gbt_longpoll :: "config \<Rightarrow> json option \<Rightarrow> miner \<Rightarrow> miner" where
  "gbt_longpoll c val m =
    (case json_object_get val ''longpollid'' of
       Some (JString lpid) \<Rightarrow>
         if \<not> cf_want_longpoll c then m
         else
           let m = m\<lparr>m_lp_id := Some lpid\<rparr> in
           if m_have_longpoll m then m
           else
             let lp_uri = (case json_string_value (json_object_get val ''longpolluri'') of Some s \<Rightarrow> s | None \<Rightarrow> cf_rpc_url c)
             in m\<lparr>m_have_longpoll := True, m_lp_queue := m_lp_queue m @ [lp_uri]\<rparr>
     | _ \<Rightarrow> m)"

definition gbt_work_decode :: "config \<Rightarrow> (nat \<Rightarrow> u8) \<Rightarrow> json option \<Rightarrow> work \<Rightarrow> miner \<Rightarrow> (bool \<times> work \<times> miner) option" where
  "gbt_work_decode c junk val w m =
    map_option (\<lambda>(rc, w, m). (rc, w, gbt_longpoll c val m)) (gbt_body c junk val w m)"

section \<open>The Merkle tree of a list of hashes\<close>

text \<open>The textbook definition: pair up the hashes, the last one with itself when it is alone.\<close>

fun merkle_next :: "u8 list list \<Rightarrow> u8 list list" where
  "merkle_next [] = []"
| "merkle_next [a] = [double_sha (a @ a)]"
| "merkle_next (a # b # hs) = double_sha (a @ b) # merkle_next hs"

lemma length_merkle_next [simp]: "length (merkle_next hs) = (length hs + 1) div 2"
  by (induction hs rule: merkle_next.induct) simp_all

function merkle_root_of :: "u8 list list \<Rightarrow> u8 list" where
  "merkle_root_of hs = (if length hs \<le> 1 then hs ! 0 else merkle_root_of (merkle_next hs))"
  by pat_completeness auto
termination by (relation "measure length") auto

declare merkle_root_of.simps [simp del]

lemma nth_merkle_next:
  "i < (length hs + 1) div 2 \<Longrightarrow>
    merkle_next hs ! i = double_sha (hs ! (2 * i) @ hs ! (if 2 * i + 1 < length hs then 2 * i + 1 else 2 * i))"
proof (induction hs arbitrary: i rule: merkle_next.induct)
  case (3 a b hs)
  then show ?case by (cases i) auto
qed auto

lemma nth_merkle_pairs:
  assumes "2 * n \<le> length t" "\<forall>h \<in> set t. length h = 32"
  shows "length (merkle_pairs n t) = length t \<and> (\<forall>h \<in> set (merkle_pairs n t). length h = 32) \<and>
    (\<forall>i < length t. merkle_pairs n t ! i = (if i < n then double_sha (t ! (2 * i) @ t ! (2 * i + 1)) else t ! i))"
  using assms(1)
proof (induction n)
  case (Suc n)
  let ?t = "merkle_pairs n t"
  have IH: "length ?t = length t" "\<forall>h \<in> set ?t. length h = 32"
    "\<forall>i < length t. ?t ! i = (if i < n then double_sha (t ! (2 * i) @ t ! (2 * i + 1)) else t ! i)"
    using Suc by auto
  have src: "?t ! (2 * n) = t ! (2 * n)" "?t ! (2 * n + 1) = t ! (2 * n + 1)" using IH(3) Suc.prems by auto
  have "length (t ! (2 * n)) = 32" "length (t ! (2 * n + 1)) = 32" using assms(2) Suc.prems by auto
  then have "sha256d (?t ! (2 * n) @ ?t ! (2 * n + 1)) 64 = double_sha (t ! (2 * n) @ t ! (2 * n + 1))"
    using sha256d_fips_gen [of 64 "t ! (2 * n) @ t ! (2 * n + 1)"] unfolding src double_sha_def by simp
  then have step: "merkle_pairs (Suc n) t = ?t[n := double_sha (t ! (2 * n) @ t ! (2 * n + 1))]"
    by (simp add: merkle_pairs_def)
  have "\<forall>h \<in> set (merkle_pairs (Suc n) t). length h = 32"
    using IH(2) set_update_subset_insert [of ?t n] unfolding step by fastforce
  moreover have "merkle_pairs (Suc n) t ! i = (if i < Suc n then double_sha (t ! (2 * i) @ t ! (2 * i + 1)) else t ! i)"
    if "i < length t" for i
    using IH(1,3) that by (auto simp: step nth_list_update less_Suc_eq)
  ultimately show ?case using IH(1) by (simp add: step)
qed (simp add: merkle_pairs_def assms(2))

lemma merkle_level:
  assumes "2 * n' \<le> length t'" "\<forall>h \<in> set t'. length h = 32" "n' = (n + 1) div 2" "n \<le> length t'"
    "odd n \<Longrightarrow> t' ! n = t' ! (n - 1)"
  shows "take n' (merkle_pairs n' t') = merkle_next (take n t')"
proof (rule nth_equalityI)
  note pairs = nth_merkle_pairs [OF assms(1,2)]
  show "length (take n' (merkle_pairs n' t')) = length (merkle_next (take n t'))"
    using pairs assms(1,3,4) by simp
  fix i assume "i < length (take n' (merkle_pairs n' t'))"
  then have i: "i < n'" by simp
  have "t' ! (2 * i + 1) = t' ! (2 * i)" if "\<not> 2 * i + 1 < n"
  proof -
    have "n = 2 * i + 1" using that i assms(3) by simp
    then show ?thesis using assms(5) by simp
  qed
  then show "take n' (merkle_pairs n' t') ! i = merkle_next (take n t') ! i"
    using i pairs assms(1,3,4) by (auto simp: nth_merkle_next)
qed

lemma gbt_merkle_root:
  assumes "1 \<le> n" "n + n mod 2 \<le> length t \<or> n = 1 \<and> 1 \<le> length t" "\<forall>h \<in> set t. length h = 32"
  shows "gbt_merkle n t ! 0 = merkle_root_of (take n t)"
  using assms
proof (induction n t rule: gbt_merkle.induct)
  case (1 n t)
  show ?case
  proof (cases "n \<le> 1")
    case True
    then have "n = 1" using "1.prems"(1) by simp
    then show ?thesis using "1.prems"(2) by (simp add: gbt_merkle.simps merkle_root_of.simps)
  next
    case False
    define t' where "t' = (if odd n then t[n := t ! (n - 1)] else t)"
    define n' where "n' = (if odd n then n + 1 else n) div 2"
    have n: "n' = (n + 1) div 2" "2 * n' = n + n mod 2" unfolding n'_def by (auto elim!: oddE evenE)
    have len: "length t' = length t" "2 * n' \<le> length t'" using "1.prems"(2) False n(2) by (auto simp: t'_def)
    have h32: "\<forall>h \<in> set t'. length h = 32"
    proof -
      have "t ! (n - 1) \<in> set t" using "1.prems"(2) False by (intro nth_mem) auto
      then have "set t' \<subseteq> set t"
        using set_update_subset_insert [of t n "t ! (n - 1)"] by (auto simp: t'_def)
      then show ?thesis using "1.prems"(3) by blast
    qed
    have tk: "take n t' = take n t" by (simp add: t'_def)
    have dup: "t' ! n = t' ! (n - 1)" if "odd n"
      using that "1.prems"(2) False by (auto simp: t'_def odd_iff_mod_2_eq_one)
    have lvl: "take n' (merkle_pairs n' t') = merkle_next (take n t')"
      by (rule merkle_level [OF len(2) h32 n(1) _ dup]) (use len n in auto)
    have "gbt_merkle n t ! 0 = gbt_merkle n' (merkle_pairs n' t') ! 0"
      unfolding gbt_merkle.simps [of n t] Let_def t'_def n'_def using False by (simp only: if_False)
    also have "\<dots> = merkle_root_of (take n' (merkle_pairs n' t'))"
    proof (rule "1.IH" [OF False t'_def n'_def])
      have "n' + n' mod 2 \<le> 2 * n'" using n(1) False by (cases "n' \<le> 1") auto
      then show "n' + n' mod 2 \<le> length (merkle_pairs n' t') \<or> n' = 1 \<and> 1 \<le> length (merkle_pairs n' t')"
        using nth_merkle_pairs [OF len(2) h32] len(2) by (metis order_trans)
    qed (use nth_merkle_pairs [OF len(2) h32] n(1) False in auto)
    also have "\<dots> = merkle_root_of (take n t)"
      unfolding lvl tk using False len(1,2) n(2) by (subst (2) merkle_root_of.simps) auto
    finally show ?thesis .
  qed
qed

section \<open>The signature in the coinbase\<close>

text \<open>The script of a coinbase input has at most 100 bytes; the pushes keep to that.\<close>

lemma xsig_add_bound:
  "xsig = [] \<or> unat siglen + length xsig \<le> 100 \<Longrightarrow>
    xsig_add siglen bs xsig = [] \<or> unat siglen + length (xsig_add siglen bs xsig) \<le> 100"
  by (auto simp: xsig_add_def)

lemma xsig_aux_bound:
  "xsig = [] \<or> unat siglen + length xsig \<le> 100 \<Longrightarrow>
    xsig_aux siglen vs xsig = [] \<or> unat siglen + length (xsig_aux siglen vs xsig) \<le> 100"
  by (induction siglen vs xsig rule: xsig_aux.induct) (auto simp: xsig_add_bound split: option.splits prod.splits)

lemma gbt_xsig_bound: "gbt_xsig sig val siglen = [] \<or> unat siglen + length (gbt_xsig sig val siglen) \<le> 100"
  using xsig_add_bound [of "[]"] by (auto simp: gbt_xsig_def Let_def intro!: xsig_aux_bound split: option.splits json.splits)

lemma xsig_push_len_bound:
  "siglen + n \<le> 100 \<Longrightarrow> siglen + (n + xsig_push_len siglen n) \<le> 100"
  by (simp add: xsig_push_len_def)

lemma gbt_append_script:
  assumes "gbt_append cbtx xsig = Some tx" "unat (cbtx ! 41) + length xsig \<le> 100" "42 \<le> length cbtx" "xsig \<noteq> []"
  shows "unat (tx ! 41) = unat (cbtx ! 41) + length xsig + xsig_push_len (unat (cbtx ! 41)) (length xsig)"
    "unat (tx ! 41) \<le> 100" "length tx = length cbtx + (unat (tx ! 41) - unat (cbtx ! 41))"
    "take 41 tx = take 41 cbtx" "drop (42 + unat (tx ! 41)) tx = drop (42 + unat (cbtx ! 41)) cbtx"
proof -
  let ?s = "unat (cbtx ! 41)" and ?n = "length xsig + xsig_push_len (unat (cbtx ! 41)) (length xsig)"
  have sum: "?s + ?n \<le> 100" using assms(2) by (simp add: xsig_push_len_bound)
  then have u: "unat (cbtx ! 41 + word_of_nat ?n) = ?s + ?n"
    by (simp add: unat_word_ariths unsigned_of_nat take_bit_eq_mod)
  let ?push = "(if xsig_push_len ?s (length xsig) = 2 then [0x4c :: u8] else []) @
      (if xsig_push_len ?s (length xsig) \<noteq> 0 then [word_of_nat (length xsig)] else [])"
  have fits: "42 + ?s \<le> length cbtx" and tx: "tx = (take (42 + ?s) cbtx)[41 := cbtx ! 41 + word_of_nat ?n] @ ?push @ xsig @ drop (42 + ?s) cbtx"
    using assms(1,4) by (auto simp: gbt_append_def Let_def split: if_splits)
  have t41: "tx ! 41 = cbtx ! 41 + word_of_nat ?n" using fits by (simp add: tx nth_append)
  have push: "length ?push = xsig_push_len ?s (length xsig)" by (auto simp: xsig_push_len_def)
  show "unat (tx ! 41) = ?s + length xsig + xsig_push_len ?s (length xsig)" using u t41 by simp
  show "unat (tx ! 41) \<le> 100" using u t41 sum by simp
  show "length tx = length cbtx + (unat (tx ! 41) - ?s)" using u t41 fits push by (simp add: tx)
  show "take 41 tx = take 41 cbtx" using fits by (simp add: tx)
  show "drop (42 + unat (tx ! 41)) tx = drop (42 + ?s) cbtx"
    unfolding t41 u using fits push by (simp add: tx)
qed

section \<open>The header of a template\<close>

lemma fold_update_down:
  assumes "n \<le> k + 1" "k < length d"
  shows "fold (\<lambda>i d. d[k - i := f i]) [0..<n] d = memcpy_at d (k + 1 - n) (rev (map f [0..<n]))"
  using assms
proof (induction n)
  case (Suc n)
  have "(memcpy_at d (k + 1 - n) (rev (map f [0..<n])))[k - n := f n] = memcpy_at d (k + 1 - Suc n) (rev (map f [0..<Suc n]))"
    using Suc.prems by (simp add: memcpy_at_def list_update_append Suc_diff_le take_Suc_conv_app_nth)
  then show ?case using Suc by simp
qed (simp add: memcpy_at_def)

lemma be32enc_le32dec_rev: "4 \<le> length bs \<Longrightarrow> be32enc (le32dec bs) = rev (be32enc (be32dec bs))"
  using length_ge4 [of bs] by (auto simp: be32enc_dec_Cons)

lemma reversed_words:
  assumes "length bs = 32"
  shows "concat (map be32enc (rev (map (\<lambda>i. le32dec (drop (4 * i) bs)) [0..<8]))) = rev bs"
proof -
  have "concat (map be32enc (rev (map (\<lambda>i. le32dec (drop (4 * i) bs)) [0..<8]))) =
      concat (rev (map (\<lambda>i. rev (be32enc (be32dec (drop (4 * i) bs)))) [0..<8]))"
    using assms by (auto simp: rev_map [symmetric] comp_def be32enc_le32dec_rev intro!: arg_cong [where f = concat] simp del: upt_rec_numeral)
  also have "\<dots> = rev (concat (map (\<lambda>i. be32enc (be32dec (drop (4 * i) bs))) [0..<8]))"
    by (simp add: rev_concat rev_map comp_def del: upt_rec_numeral)
  also have "\<dots> = rev bs" using words_of_string(1) [of 8 bs] assms by simp
  finally show ?thesis .
qed

definition gbt_words :: "u32 \<Rightarrow> u8 list \<Rightarrow> u8 list \<Rightarrow> u32 \<Rightarrow> u8 list \<Rightarrow> u32 list" where
  "gbt_words version prevhash rt curtime bits =
    swab32 version # rev (map (\<lambda>i. le32dec (drop (4 * i) prevhash)) [0..<8]) @
    map (\<lambda>i. be32dec (drop (4 * i) rt)) [0..<8] @ [swab32 curtime, le32dec bits, 0]"

lemma length_gbt_words [layout, simp]: "length (gbt_words version prevhash rt curtime bits) = 20"
  by (simp add: gbt_words_def del: upt_rec_numeral)

lemma header_tail:
  assumes "length A = 17" "length B = 31"
  shows "(memcpy_at ((A @ B)[17 := a, 18 := b]) 19 (replicate 13 0))[20 := c, 31 := d] =
    A @ a # b # (0 # c # replicate 10 0 @ [d]) @ drop 15 B"
proof -
  obtain x y B2 where B: "B = x # y # B2" using assms(2) by (cases B; cases "tl B") auto
  have "memcpy_at ((A @ B)[17 := a, 18 := b]) 19 (replicate 13 0) = A @ (a # b # replicate 13 0 @ drop 15 B)"
    using assms by (simp add: memcpy_at_def B list_update_append)
  then show ?thesis using assms(1) by (simp add: list_update_append numeral_eq_Suc del: drop_Suc drop_Suc_Cons)
qed

lemma gbt_header_layout:
  assumes "length data = 48"
  shows "gbt_header version prevhash rt curtime bits data =
    gbt_words version prevhash rt curtime bits @ header_padding @ drop 32 data"
proof -
  let ?p = "rev (map (\<lambda>i. le32dec (drop (4 * i) prevhash)) [0..<8])"
  let ?r = "map (\<lambda>i. be32dec (drop (4 * i) rt)) [0..<8]"
  have len: "length ?p = 8" "length ?r = 8" by (simp_all del: upt_rec_numeral)
  obtain x xs where d: "data = x # xs" "length xs = 47" using assms by (cases data) auto
  have m: "memcpy_at (memcpy_at (data[0 := swab32 version]) 1 ?p) 9 ?r = (swab32 version # ?p @ ?r) @ drop 17 data"
    using len d(2) by (simp add: memcpy_at_def d(1) del: upt_rec_numeral)
  have "gbt_header version prevhash rt curtime bits data =
      (memcpy_at (((swab32 version # ?p @ ?r) @ drop 17 data)[17 := swab32 curtime, 18 := le32dec bits]) 19 (replicate 13 0))
        [20 := 0x80000000, 31 := 0x00000280]"
    unfolding gbt_header_def Let_def m [symmetric]
    by (subst fold_update_down, simp, simp add: assms, subst fold_update_block, simp add: assms) simp
  also have "\<dots> = (swab32 version # ?p @ ?r) @ swab32 curtime # le32dec bits # (0 # 0x80000000 # replicate 10 0 @ [0x00000280]) @ drop 15 (drop 17 data)"
    by (rule header_tail) (use len assms in \<open>simp_all del: upt_rec_numeral\<close>)
  also have "\<dots> = gbt_words version prevhash rt curtime bits @ header_padding @ drop 32 data"
    by (simp add: gbt_words_def header_padding_def numeral_eq_Suc del: upt_rec_numeral drop_Suc)
  finally show ?thesis .
qed

lemma be32enc_swab32: "be32enc (swab32 x) = le32enc x"
  by (metis le32enc_swab32 swab32_swab32)

lemma gbt_words_bytes:
  assumes "length prevhash = 32" "length rt = 32" "length bits = 4"
  shows "concat (map be32enc (gbt_words version prevhash rt curtime bits)) =
    le32enc version @ rev prevhash @ rt @ le32enc curtime @ rev bits @ [0, 0, 0, 0]"
  using words_of_string(1) [of 8 rt] reversed_words [OF assms(1)] assms
  by (simp add: gbt_words_def be32enc_le32dec_4 comp_def be32enc_0 be32enc_swab32 del: upt_rec_numeral)

section \<open>What an accepted template contains\<close>

lemma length_sha256d [layout]: "length (sha256d data len) = 32"
  by (simp add: sha256d_def Let_def length_sha256_transform length_concat comp_def sum_list_triv)

definition tx_bytes :: "string \<Rightarrow> u8 list" where
  "tx_bytes s = snd (hex2bin s (length s div 2))"

lemma gbt_hash_txs_hashes:
  "gbt_hash_txs no_txs ss txs = (Some hs, txs') \<Longrightarrow>
    hs = map (\<lambda>s. sha256d (tx_bytes s) (length s div 2)) ss \<and> (\<forall>s \<in> set ss. hex2bin s (length s div 2) = (True, tx_bytes s)) \<and>
    txs' = txs @ (if no_txs then [] else concat ss)"
  by (induction no_txs ss txs arbitrary: hs txs' rule: gbt_hash_txs.induct)
    (auto simp: tx_bytes_def split: prod.splits if_splits)

lemma gbt_target_accepts:
  assumes "gbt_target val w m = (True, w', m')" "length (w_target w) = 8"
  shows "w_data w' = w_data w \<and> length (w_target w') = 8 \<and> w_txs w' = w_txs w \<and> m' = m"
proof -
  have "length (fold (\<lambda>i t. t[7 - i := f i]) ns t) = length t" for f :: "nat \<Rightarrow> u32" and ns t
    by (induction ns arbitrary: t) simp_all
  then show ?thesis using assms by (auto simp: gbt_target_def Let_def split: prod.splits if_splits option.splits)
qed

lemma gbt_assemble_accepts:
  assumes "gbt_assemble val f version prevhash curtime bits ss cbtx w m = (True, w', m')" "length (w_target w) = 8"
  shows "w_data w' = gbt_header version prevhash
      (merkle_root_of (sha256d cbtx (length cbtx) # map (\<lambda>s. sha256d (tx_bytes s) (length s div 2)) ss)) curtime bits (w_data w)"
    "length (w_target w') = 8" "\<forall>s \<in> set ss. hex2bin s (length s div 2) = (True, tx_bytes s)"
proof -
  let ?vi = "varint_encode (word_of_nat (1 + length ss))"
  let ?tree = "replicate (2 * ((length ss + 2) div 2)) (replicate 32 (0 :: u8))"
  obtain hashes txs where h: "gbt_hash_txs (submit_coinbase f) ss
      (bin2hex ?vi (length ?vi) @ bin2hex cbtx (length cbtx)) = (hashes, txs)" by fastforce
  obtain hs where hs: "hashes = Some hs" using assms(1) h by (cases hashes) (auto simp: gbt_assemble_def Let_def)
  note tx = gbt_hash_txs_hashes [OF h [unfolded hs]]
  define leaves where "leaves = sha256d cbtx (length cbtx) # hs"
  have fit: "1 + length ss + (1 + length ss) mod 2 \<le> 2 * ((length ss + 2) div 2)" by presburger
  have leaves: "length leaves = 1 + length ss" using tx by (simp add: leaves_def)
  then have len: "length leaves \<le> length ?tree" using fit by simp
  have "\<forall>l \<in> set (memcpy_at ?tree 0 leaves). length l = 32"
    using tx set_drop_subset [of "length leaves" ?tree] by (auto simp: memcpy_at_def leaves_def length_sha256d simp del: drop_replicate)
  then have "gbt_merkle (1 + length ss) (memcpy_at ?tree 0 leaves) ! 0 = merkle_root_of leaves"
    using fit len leaves by (subst gbt_merkle_root) (auto simp: memcpy_at_0)
  moreover from assms(1) have t: "gbt_target val (w\<lparr>w_txs := Some txs, w_data := gbt_header version prevhash
      (gbt_merkle (1 + length ss) (memcpy_at ?tree 0 leaves) ! 0) curtime bits (w_data w)\<rparr>) m = (True, w', m')"
    unfolding gbt_assemble_def Let_def h hs leaves_def by simp
  ultimately show "w_data w' = gbt_header version prevhash
      (merkle_root_of (sha256d cbtx (length cbtx) # map (\<lambda>s. sha256d (tx_bytes s) (length s div 2)) ss)) curtime bits (w_data w)"
    "length (w_target w') = 8" "\<forall>s \<in> set ss. hex2bin s (length s div 2) = (True, tx_bytes s)"
    using gbt_target_accepts [OF t] assms(2) tx by (auto simp: leaves_def)
qed

lemma gbt_template_accepts:
  assumes "gbt_template c junk val f version w m = Some (True, w', m')"
  obtains prevhash curtime bits txa cbtx m1
  where "jobj_binary val ''previousblockhash'' 32 = (True, prevhash)" "json_object_get val ''curtime'' = Some (JInteger curtime)"
    "jobj_binary val ''bits'' 4 = (True, bits)" "json_object_get val ''transactions'' = Some (JArray txa)"
    "gbt_assemble val f version prevhash (word_of_int curtime) bits (map (the \<circ> gbt_tx_data) txa) cbtx w m1 = (True, w', m')"
  using assms unfolding gbt_template_def
  by (auto split: prod.splits if_splits option.splits json.splits)

lemma gbt_work_decode_accepts:
  assumes "gbt_work_decode c junk val w m = Some (True, w', m')"
  obtains version h m1 where "gbt_template c junk val (gbt_mutable val) version (w\<lparr>w_height := h\<rparr>) m = Some (True, w', m1)"
  using assms unfolding gbt_work_decode_def gbt_body_def Let_def
  by (auto split: prod.splits option.splits json.splits)

lemma jobj_binary_size: "jobj_binary val key n = (True, bs) \<Longrightarrow> length bs = n"
  using hex2bin_length by (auto simp: jobj_binary_def split: option.splits)

lemma length_merkle_root_of:
  "hs \<noteq> [] \<Longrightarrow> \<forall>h \<in> set hs. length h = 32 \<Longrightarrow> length (merkle_root_of hs) = 32"
proof (induction hs rule: merkle_root_of.induct)
  case (1 hs)
  have n: "\<forall>h \<in> set (merkle_next hs). length h = 32" by (induction hs rule: merkle_next.induct) simp_all
  show ?case
  proof (cases "length hs \<le> 1")
    case True
    then show ?thesis using "1.prems" by (simp add: merkle_root_of.simps)
  next
    case False
    then have "merkle_next hs \<noteq> []" by (cases hs rule: merkle_next.cases) auto
    then show ?thesis using "1.IH" [OF False _ n] False by (simp add: merkle_root_of.simps [of hs])
  qed
qed

section \<open>Properties\<close>


definition zeros_hex :: "nat \<Rightarrow> string" where
  "zeros_hex n = bin2hex (replicate n 0) n"

definition sample_template :: json where
  "sample_template = JObject [(''height'', JInteger 5), (''version'', JInteger 2), (''previousblockhash'', JString (zeros_hex 32)),
     (''curtime'', JInteger 7), (''bits'', JString (zeros_hex 4)), (''transactions'', JArray []),
     (''coinbasetxn'', JObject [(''data'', JString (zeros_hex 60))]), (''target'', JString (zeros_hex 32))]"

lemma zeros_hex_decodes: "hex2bin (zeros_hex n) n = (True, replicate n 0)" "length (zeros_hex n) = 2 * n"
  using hex2bin_whole [of "replicate n 0"] by (simp_all add: zeros_hex_def length_bin2hex)

lemma sample_template_accepted: "\<exists>w' m'. gbt_work_decode config0 junk (Some sample_template) work0 miner0 = Some (True, w', m')"
proof -
  have f: "gbt_mutable (Some sample_template) =
      \<lparr>coinbase_append = False, submit_coinbase = False, version_force = False, version_reduce = False\<rparr>"
    by (simp add: gbt_mutable_def sample_template_def)
  have j: "jobj_binary (Some sample_template) ''previousblockhash'' 32 = (True, replicate 32 0)"
    "jobj_binary (Some sample_template) ''bits'' 4 = (True, replicate 4 0)"
    "jobj_binary (Some sample_template) ''target'' 32 = (True, replicate 32 0)"
    by (simp_all add: jobj_binary_def sample_template_def zeros_hex_decodes)
  have c: "gbt_coinbase_tx config0 junk (Some sample_template) fl h miner0 = Some (Some (replicate 60 0, coinbase_append fl), miner0)" for fl h
    by (simp add: gbt_coinbase_tx_def sample_template_def zeros_hex_decodes)
  have v: "gbt_version a b fl 2 = (Some 2, b)" for a b fl by (simp add: gbt_version_def BLOCK_VERSION_CURRENT_def)
  have t: "fst (gbt_target (Some sample_template) w m)" for w m
    using j(3) by (simp add: gbt_target_def sample_template_def)
  have "fst (gbt_assemble (Some sample_template) fl version prevhash curtime bits [] cbtx w m)"
    for fl version prevhash curtime bits cbtx w m
    unfolding gbt_assemble_def Let_def by (simp add: t)
  then have "map_option fst (gbt_template config0 junk (Some sample_template) (gbt_mutable (Some sample_template)) 2 w miner0) = Some True" for w
    unfolding gbt_template_def j c f by (simp add: sample_template_def)
  then have "map_option fst (gbt_body config0 junk (Some sample_template) work0 miner0) = Some True"
    unfolding gbt_body_def Let_def by (simp add: sample_template_def [symmetric] v) (simp add: sample_template_def v)
  then show ?thesis by (auto simp: gbt_work_decode_def)
qed


text \<open>C13: pushing the miner's signature into a coinbase script keeps the script within the 100 bytes of the
  consensus rules, updates its length byte accordingly and moves the rest of the transaction up
  unchanged.\<close>

theorem gbt_append_within_limit:
  assumes "42 \<le> length cbtx" and "gbt_xsig sig val (cbtx ! 41) \<noteq> []"
    and "gbt_append cbtx (gbt_xsig sig val (cbtx ! 41)) = Some tx"
  shows "unat (tx ! 41) \<le> 100 \<and> take 41 tx = take 41 cbtx \<and>
    drop (42 + unat (tx ! 41)) tx = drop (42 + unat (cbtx ! 41)) cbtx \<and>
    length tx = length cbtx + (unat (tx ! 41) - unat (cbtx ! 41))"
proof -
  have "unat (cbtx ! 41) + length (gbt_xsig sig val (cbtx ! 41)) \<le> 100"
    using gbt_xsig_bound [of sig val "cbtx ! 41"] assms(2) by blast
  from gbt_append_script(2-5) [OF assms(3) this assms(1,2)] show ?thesis by blast
qed

theorem gbt_append_within_limit_witness:
  "\<exists>tx. gbt_append (replicate 60 0) (gbt_xsig ''pool'' None ((replicate 60 0 :: u8 list) ! 41)) = Some tx \<and> unat (tx ! 41) \<le> 100"
proof -
  let ?cb = "replicate 60 0 :: u8 list"
  have x: "gbt_xsig ''pool'' None (?cb ! 41) \<noteq> []"
    by (simp add: gbt_xsig_def xsig_add_def)
  have "gbt_append ?cb (gbt_xsig ''pool'' None (?cb ! 41)) \<noteq> None"
    by (simp add: gbt_append_def Let_def)
  then obtain tx where t: "gbt_append ?cb (gbt_xsig ''pool'' None (?cb ! 41)) = Some tx" by blast
  have "42 \<le> length ?cb" by simp
  from gbt_append_within_limit [OF this x t] t show ?thesis by blast
qed

section \<open>The text of the transactions\<close>

text \<open>The buffer is large enough for transactions of even length; every one of odd length adds a
  character that the size does not count.\<close>

lemma gbt_txs_fits:
  assumes "gbt_hash_txs no_txs ss (bin2hex vi (length vi) @ bin2hex cbtx (length cbtx)) = (hs, txs)" "\<forall>s \<in> set ss. even (length s)"
  shows "length txs + 1 \<le> gbt_txs_alloc vi cbtx ss"
proof -
  have "length (snd (gbt_hash_txs no_txs ss t)) \<le> length t + 2 * sum_list (map (\<lambda>s. length s div 2) ss)" for t
    using assms(2)
  proof (induction ss arbitrary: t)
    case (Cons s ss)
    then obtain b where "length s = 2 * b" by (auto elim: evenE)
    with Cons.IH [of t] Cons.IH [of "t @ s"] Cons.prems show ?case by (auto split: prod.splits)
  qed simp
  from this [of "bin2hex vi (length vi) @ bin2hex cbtx (length cbtx)"] show ?thesis
    using assms(1) by (simp add: gbt_txs_alloc_def length_bin2hex)
qed

lemma gbt_txs_overflow:
  "snd (gbt_hash_txs False [''000''] (bin2hex vi (length vi) @ bin2hex cbtx (length cbtx))) =
     bin2hex vi (length vi) @ bin2hex cbtx (length cbtx) @ ''000'' \<and>
   gbt_txs_alloc vi cbtx [''000''] < length (bin2hex vi (length vi) @ bin2hex cbtx (length cbtx) @ ''000'') + 1"
proof -
  have "hex2bin ''000'' 1 = (True, [0])" by code_simp
  then show ?thesis by (simp add: gbt_txs_alloc_def length_bin2hex)
qed

end
