(* ===== verification/Upstream.thy ===== *)
theory Upstream
  imports Gbt
begin

text \<open>
  Fetching work from a server over HTTP and handing solved work back (\<^verbatim>\<open>cpu-miner.c\<close>):
  \<^verbatim>\<open>work_decode\<close>, \<^verbatim>\<open>get_mininginfo\<close>, \<^verbatim>\<open>share_result\<close>, \<^verbatim>\<open>submit_upstream_work\<close>, \<^verbatim>\<open>get_upstream_work\<close> and the
  thread that serves the requests of the miner threads. An HTTP call is the argument \<open>call\<close>: the
  value it returned, the error code and the changed state. Undefined behaviour is \<open>None\<close>.
\<close>

type_synonym http = "u32 \<Rightarrow> string \<Rightarrow> miner \<Rightarrow> json option \<times> int \<times> miner"

definition JSON_RPC_LONGPOLL :: u32 where "JSON_RPC_LONGPOLL = 1"

definition JSON_RPC_QUIET_404 :: u32 where "JSON_RPC_QUIET_404 = 2"

definition JSON_RPC_IGNOREERR :: u32 where "JSON_RPC_IGNOREERR = 4"

definition rpc_call :: "http \<Rightarrow> u32 \<Rightarrow> string \<Rightarrow> miner \<Rightarrow> json option \<times> int \<times> miner" where
  "rpc_call call flags req m = call flags req (m\<lparr>m_calls := m_calls m @ [req]\<rparr>)"

definition crlf :: string where
  "crlf = [CHR 0x0D, CHR 0x0A]"

section \<open>Decoding work\<close>

definition work_decode :: "config \<Rightarrow> json option \<Rightarrow> work \<Rightarrow> miner \<Rightarrow> (bool \<times> work \<times> miner) option" where
  "work_decode c val w m =
    (let data_size = (if cf_use_roots c then 144 else 128);
         adata_sz = (if cf_use_roots c then 36 else 32)
     in if jsonrpc_2 c then
          (case rpc2_job_decode True val (Some w) (st_rpc2 (m_st m)) of
             None \<Rightarrow> None
           | Some (rc, w', r) \<Rightarrow> Some (rc, the w', set_rpc2 r m))
        else case jobj_binary val ''data'' data_size of (ok, bs) \<Rightarrow>
          let w = w\<lparr>w_data := memcpy_words (w_data w) bs\<rparr> in
          if \<not> ok then Some (False, w, m)
          else case jobj_binary val ''target'' 32 of (ok, bs) \<Rightarrow>
            let w = w\<lparr>w_target := memcpy_words (w_target w) bs\<rparr> in
            if \<not> ok then Some (False, w, m)
            else
              let w = w\<lparr>w_data := fold (\<lambda>i d. d[i := le32dec (drop (4 * i) (bytes_of_words d))]) [0..<adata_sz] (w_data w),
                        w_target := fold (\<lambda>i t. t[i := le32dec (drop (4 * i) (bytes_of_words t))]) [0..<8] (w_target w)\<rparr>;
                  m = (if (cf_showdiff c \<or> dlt dbl_zero (cf_max_diff c)) \<and> \<not> m_allow_mininginfo m
                       then m\<lparr>m_net_diff := calc_network_diff (m_have_longpoll m) w\<rparr> else m);
                  w = w\<lparr>w_targetdiff := target_to_diff (w_target w)\<rparr>
              in Some (True, w, set_stratum_diff (w_targetdiff w) m))"

section \<open>Network information\<close>

definition info_req :: string where
  "info_req = ''{'' @ quoted ''method'' @ '': '' @ quoted ''getmininginfo'' @ '', '' @ quoted ''params'' @ '': [], '' @
     quoted ''id'' @ '':8}'' @ crlf"

definition mininginfo_fields :: "json option \<Rightarrow> miner \<Rightarrow> miner" where
  "mininginfo_fields res m =
    (let key = json_object_get res ''difficulty'';
         key = (if json_is_object key then json_object_get key ''proof-of-work'' else key);
         m = (if json_is_real key then m\<lparr>m_net_diff := json_real_value key\<rparr> else m);
         key = json_object_get res ''networkhashps'';
         m = (if json_is_integer key then m\<lparr>m_net_hashrate := dbl_of_int (json_integer_value key)\<rparr> else m);
         key = json_object_get res ''blocks''
     in if json_is_integer key then m\<lparr>m_net_blocks := word_of_int (json_integer_value key)\<rparr> else m)"

definition get_mininginfo :: "config \<Rightarrow> http \<Rightarrow> work \<Rightarrow> miner \<Rightarrow> bool \<times> work \<times> miner" where
  "get_mininginfo c call w m =
    (if m_have_stratum m \<or> m_have_longpoll m \<or> \<not> m_allow_mininginfo m then (False, w, m)
     else case rpc_call call 0 info_req m of (val, curl_err, m) \<Rightarrow>
       if val = None \<and> curl_err = -1 then (False, w, m\<lparr>m_allow_mininginfo := False\<rparr>)
       else case json_object_get val ''result'' of
         None \<Rightarrow> (True, w, m)
       | Some res \<Rightarrow>
           let m = mininginfo_fields (Some res) m in
           if w_height w \<noteq> 0 then (True, w, m)
           else
             let w = w\<lparr>w_height := sint (ucast (m_net_blocks m) + 1 :: u32)\<rparr> in
             (True, w, if w_height w > w_height (m_g_work m) then restart_threads c m else m))"

section \<open>Results of shares\<close>

text \<open>The counters are 32 bits wide and wrap; the total hash rate is converted to a 64-bit integer.\<close>

definition share_result :: "config \<Rightarrow> bool \<Rightarrow> work option \<Rightarrow> miner \<Rightarrow> miner option" where
  "share_result c result w m =
    (let sharediff = (case w of Some w \<Rightarrow> w_sharediff w | None \<Rightarrow> s_sharediff (m_sctx m));
         hashrate = fold (\<lambda>r s. dadd s r) (take (cf_n_threads c) (m_hashrates m)) dbl_zero;
         m = (if result then m\<lparr>m_accepted := m_accepted m + 1\<rparr> else m\<lparr>m_rejected := m_rejected m + 1\<rparr>)
     in case dbl_to_u64 hashrate of
          None \<Rightarrow> None
        | Some rate \<Rightarrow>
            let m = m\<lparr>m_global_hashrate := rate\<rparr> in
            Some (if deq (m_net_diff m) dbl_zero \<or> dlt sharediff (m_net_diff m) then m
                  else m\<lparr>m_solved := m_solved m + 1\<rparr>))"

section \<open>JSON-RPC 2.0 calls\<close>

definition rpc2_login_req :: "config \<Rightarrow> string" where
  "rpc2_login_req c = authorize_request True (cf_rpc_user c) (cf_rpc_pass c)"

definition JSON_BUF_LEN :: nat where
  "JSON_BUF_LEN = 512"

text \<open>\<^verbatim>\<open>snprintf\<close> into a buffer of that size cuts the text.\<close>

definition snprintf :: "nat \<Rightarrow> string \<Rightarrow> string" where
  "snprintf n s = take (n - 1) s"

definition rpc2_login_call :: "config \<Rightarrow> http \<Rightarrow> miner \<Rightarrow> (bool \<times> miner) option" where
  "rpc2_login_call c call m =
    (if \<not> jsonrpc_2 c then Some (False, m)
     else case rpc_call call 0 (snprintf JSON_BUF_LEN (rpc2_login_req c)) m of (val, _, m) \<Rightarrow>
       case rpc2_login True val (m_g_work m) (st_rpc2 (m_st m)) of
         None \<Rightarrow> None
       | Some (rc, g, r) \<Rightarrow> Some (rc, set_g_work g (set_rpc2 r m)))"

text \<open>\<open>json_rpc2_call\<close> on a state that may be undefined, with the error code of the last call; \<open>err0\<close> is what
  the variable of the caller held before.\<close>

definition rpc2_call :: "config \<Rightarrow> (string \<Rightarrow> json option) \<Rightarrow> (json \<Rightarrow> string) \<Rightarrow> http \<Rightarrow> u32 \<Rightarrow> string \<Rightarrow> int \<Rightarrow> miner \<Rightarrow>
    (json option \<times> int \<times> miner) option" where
  "rpc2_call c loads dumps call flags req err0 m =
    (case json_rpc2_call
        (\<lambda>req st. case st of None \<Rightarrow> (None, None)
           | Some (_, m) \<Rightarrow> (case rpc_call call (flags OR JSON_RPC_IGNOREERR) (case req of None \<Rightarrow> [] | Some r \<Rightarrow> dumps r) m of
               (v, err, m) \<Rightarrow> (v, Some (err, m))))
        (\<lambda>st. Option.bind st (\<lambda>(err, m). map_option (\<lambda>(_, m). (err, m)) (rpc2_login_call c call m)))
        (\<lambda>st. case st of None \<Rightarrow> [] | Some (_, m) \<Rightarrow> r_id (st_rpc2 (m_st m)))
        (loads req) (Some (err0, m)) of
       (v, None) \<Rightarrow> None
     | (v, Some (err, m)) \<Rightarrow> Some (v, err, m))"

section \<open>Submitting\<close>

text \<open>The share of a stratum pool: user, job, extra nonce, time and nonce.\<close>

definition stratum_submit_line :: "config \<Rightarrow> string \<Rightarrow> u8 list \<Rightarrow> nat \<Rightarrow> u32 list \<Rightarrow> string" where
  "stratum_submit_line c job_id xnonce2 xnonce2_len data =
    ''{'' @ quoted ''method'' @ '': '' @ quoted ''mining.submit'' @ '', '' @ quoted ''params'' @ '': ['' @
    quoted (cf_rpc_user c) @ '', '' @ quoted job_id @ '', '' @ quoted (abin2hex xnonce2 xnonce2_len) @ '', '' @
    quoted (bin2hex (le32enc (data ! 17)) 4) @ '', '' @ quoted (bin2hex (le32enc (data ! 19)) 4) @ ''], '' @
    quoted ''id'' @ '':4}''"

definition rpc2_submit_line :: "string \<Rightarrow> string \<Rightarrow> string \<Rightarrow> string \<Rightarrow> string \<Rightarrow> string" where
  "rpc2_submit_line sep ident job_id noncestr hashhex =
    ''{'' @ quoted ''method'' @ '': '' @ quoted ''submit'' @ '', '' @ quoted ''params'' @ '': {'' @ quoted ''id'' @ '': '' @
    quoted ident @ '', '' @ quoted ''job_id'' @ '': '' @ quoted job_id @ '', '' @ quoted ''nonce'' @ '': '' @
    quoted noncestr @ '', '' @ quoted ''result'' @ '': '' @ quoted hashhex @ ''},'' @ sep @ quoted ''id'' @ '':4}'' @ crlf"

definition submit_stratum :: "config \<Rightarrow> (nat \<Rightarrow> u8) \<Rightarrow> work \<Rightarrow> miner \<Rightarrow> (bool \<times> work \<times> miner) option" where
  "submit_stratum c junk w m =
    (case w_job_id w of
       None \<Rightarrow> None
     | Some job_id \<Rightarrow>
         (case (if jsonrpc_2 c
                then Some (rpc2_submit_line '' '' (r_id (st_rpc2 (m_st m))) job_id
                  (bin2hex (drop 39 (bytes_of_words (w_data w))) 4) (abin2hex (map junk [0..<32]) 32))
                else case w_xnonce2 w of
                  None \<Rightarrow> if w_xnonce2_len w = 0 then Some (stratum_submit_line c job_id [] 0 (w_data w)) else None
                | Some x \<Rightarrow> Some (stratum_submit_line c job_id x (w_xnonce2_len w) (w_data w))) of
            None \<Rightarrow> None
          | Some s \<Rightarrow>
              let m = set_sctx ((m_sctx m)\<lparr>s_sharediff := w_sharediff w\<rparr>) m in
              (case stratum_send_line (snprintf JSON_BUF_LEN s) (st_io (m_st m)) of (sent, io) \<Rightarrow>
                Some (sent, w, set_io io m))))"

definition submitblock_req :: "(json \<Rightarrow> string) \<Rightarrow> work \<Rightarrow> string \<Rightarrow> string \<Rightarrow> string" where
  "submitblock_req dumps w data_str txs =
    ''{'' @ quoted ''method'' @ '': '' @ quoted ''submitblock'' @ '', '' @ quoted ''params'' @ '': ['' @ quoted (data_str @ txs) @
    (case w_workid w of
       None \<Rightarrow> []
     | Some workid \<Rightarrow> '', '' @ dumps (json_object_set (JObject []) ''workid'' (JString workid))) @
    ''], '' @ quoted ''id'' @ '':4}'' @ crlf"

text \<open>The words of the work are swapped in place before they are printed.\<close>

definition submit_gbt :: "config \<Rightarrow> (json \<Rightarrow> string) \<Rightarrow> http \<Rightarrow> string \<Rightarrow> work \<Rightarrow> miner \<Rightarrow> (bool \<times> work \<times> miner) option" where
  "submit_gbt c dumps call txs w m =
    (let w = w\<lparr>w_data := words_of_bytes (concat (map be32enc (w_data w)))\<rparr>;
         data_str = bin2hex (bytes_of_words (w_data w)) 80
     in case rpc_call call 0 (submitblock_req dumps w data_str txs) m of (val, _, m) \<Rightarrow>
       if val = None then Some (False, w, m)
       else
         let res = json_object_get val ''result'';
             ok = (case res of Some (JObject kvs) \<Rightarrow> list_ex (\<lambda>kv. snd kv = JNull) kvs | _ \<Rightarrow> json_is_null res)
         in map_option (\<lambda>m. (True, w, m)) (share_result c ok (Some w) m))"

definition getwork_submit_req :: "u32 list \<Rightarrow> string" where
  "getwork_submit_req data =
    ''{'' @ quoted ''method'' @ '': '' @ quoted ''getwork'' @ '', '' @ quoted ''params'' @ '': ['' @
    quoted (abin2hex (bytes_of_words data) 128) @ ''], '' @ quoted ''id'' @ '':4}'' @ crlf"

definition submit_getwork :: "config \<Rightarrow> http \<Rightarrow> work \<Rightarrow> miner \<Rightarrow> (bool \<times> work \<times> miner) option" where
  "submit_getwork c call w m =
    (let w = w\<lparr>w_data := words_of_bytes (concat (map le32enc (take 32 (w_data w)))) @ drop 32 (w_data w)\<rparr>
     in case rpc_call call 0 (snprintf JSON_BUF_LEN (getwork_submit_req (w_data w))) m of (val, _, m) \<Rightarrow>
       if val = None then Some (False, w, m)
       else map_option (\<lambda>m. (True, w, m)) (share_result c (json_is_true (json_object_get val ''result'')) (Some w) m))"

text \<open>A refused share whose job is unknown is replaced by the global work.\<close>

definition submit_rpc2 :: "config \<Rightarrow> (string \<Rightarrow> json option) \<Rightarrow> (json \<Rightarrow> string) \<Rightarrow> http \<Rightarrow> (nat \<Rightarrow> u8) \<Rightarrow> work \<Rightarrow> miner \<Rightarrow>
    (bool \<times> work \<times> miner) option" where
  "submit_rpc2 c loads dumps call junk w m =
    (case w_job_id w of
       None \<Rightarrow> None
     | Some job_id \<Rightarrow>
         (case rpc2_call c loads dumps call 0 (snprintf JSON_BUF_LEN (rpc2_submit_line [] (r_id (st_rpc2 (m_st m))) job_id
             (bin2hex (drop 39 (bytes_of_words (w_data w))) 4) (abin2hex (map junk [0..<32]) 32))) 0 m of
            None \<Rightarrow> None
          | Some (None, _, m) \<Rightarrow> Some (False, w, m)
          | Some (Some val, _, m) \<Rightarrow>
              let res = json_object_get (Some val) ''result'' in
              (case (case json_object_get res ''status'' of None \<Rightarrow> Some [] | Some st \<Rightarrow> json_string_value (Some st)) of
                 None \<Rightarrow> None
               | Some status \<Rightarrow>
                   if status = ''OK'' then map_option (\<lambda>m. (True, w, m)) (share_result c True (Some w) m)
                   else (case json_string_value (json_object_get (json_object_get res ''error'') ''message'') of
                     None \<Rightarrow> None
                   | Some sreason \<Rightarrow>
                       map_option (\<lambda>m.
                         if strcasecmp_eq ''Invalid job id'' sreason
                         then (True, work_copy (m_g_work m), restart_threads c (set_g_work_time 0 m))
                         else (True, w, m)) (share_result c False (Some w) m)))))"

text \<open>\<open>wheight\<close> is what the uninitialised work on the stack holds.\<close>

definition submit_upstream_work :: "config \<Rightarrow> (string \<Rightarrow> json option) \<Rightarrow> (json \<Rightarrow> string) \<Rightarrow> http \<Rightarrow> (nat \<Rightarrow> u8) \<Rightarrow> work \<Rightarrow>
    work \<Rightarrow> miner \<Rightarrow> (bool \<times> work \<times> miner) option" where
  "submit_upstream_work c loads dumps call junk wheight w m =
    (if \<not> m_submit_old m \<and> take 8 (drop 1 (w_data w)) \<noteq> take 8 (drop 1 (w_data (m_g_work m))) then Some (True, w, m)
     else
       let info = \<not> m_have_stratum m \<and> m_allow_mininginfo m;
           m = (if info then snd (snd (get_mininginfo c call wheight m)) else m)
       in if info \<and> w_height w \<noteq> 0 \<and> word_of_int (w_height w) \<le> m_net_blocks m then Some (True, w, m)
          else if m_have_stratum m then submit_stratum c junk w m
          else case w_txs w of
            Some txs \<Rightarrow> submit_gbt c dumps call txs w m
          | None \<Rightarrow>
              if jsonrpc_2 c then submit_rpc2 c loads dumps call junk w m
              else submit_getwork c call w m)"

section \<open>Fetching\<close>

definition getwork_req :: string where
  "getwork_req = ''{'' @ quoted ''method'' @ '': '' @ quoted ''getwork'' @ '', '' @ quoted ''params'' @ '': [], '' @
     quoted ''id'' @ '':0}'' @ crlf"

definition GBT_CAPABILITIES :: string where
  "GBT_CAPABILITIES = ''['' @ quoted ''coinbasetxn'' @ '', '' @ quoted ''coinbasevalue'' @ '', '' @ quoted ''longpoll'' @ '', '' @
     quoted ''workid'' @ '']''"

definition gbt_req :: string where
  "gbt_req = ''{'' @ quoted ''method'' @ '': '' @ quoted ''getblocktemplate'' @ '', '' @ quoted ''params'' @ '': [{'' @
     quoted ''capabilities'' @ '': '' @ GBT_CAPABILITIES @ ''}], '' @ quoted ''id'' @ '':0}'' @ crlf"

definition gbt_lp_req :: "string \<Rightarrow> string" where
  "gbt_lp_req lpid = ''{'' @ quoted ''method'' @ '': '' @ quoted ''getblocktemplate'' @ '', '' @ quoted ''params'' @ '': [{'' @
     quoted ''capabilities'' @ '': '' @ GBT_CAPABILITIES @ '', '' @ quoted ''longpollid'' @ '': '' @ quoted lpid @ ''}], '' @
     quoted ''id'' @ '':0}'' @ crlf"

definition getjob_req :: "string \<Rightarrow> string" where
  "getjob_req ident = ''{'' @ quoted ''method'' @ '': '' @ quoted ''getjob'' @ '', '' @ quoted ''params'' @ '': {'' @
     quoted ''id'' @ '': '' @ quoted ident @ ''}, '' @ quoted ''id'' @ '':1}'' @ crlf"

text \<open>The request of one round; the error code of a JSON-RPC 2.0 call is the uninitialised \<open>err0\<close>.\<close>

definition upstream_request :: "config \<Rightarrow> (string \<Rightarrow> json option) \<Rightarrow> (json \<Rightarrow> string) \<Rightarrow> http \<Rightarrow> int \<Rightarrow> miner \<Rightarrow>
    (json option \<times> int \<times> miner) option" where
  "upstream_request c loads dumps call err0 m =
    (if jsonrpc_2 c then
       map_option (\<lambda>(v, _, m). (v, err0, m))
         (rpc2_call c loads dumps call 0 (snprintf 128 (getjob_req (r_id (st_rpc2 (m_st m))))) err0 m)
     else Some (rpc_call call (if m_have_gbt m then JSON_RPC_QUIET_404 else 0) (if m_have_gbt m then gbt_req else getwork_req) m))"

text \<open>The jumps back to the start happen only after \<^verbatim>\<open>have_gbt\<close> was cleared; \<open>fuel\<close> counts the rounds.\<close>

fun get_upstream_work :: "nat \<Rightarrow> config \<Rightarrow> (string \<Rightarrow> json option) \<Rightarrow> (json \<Rightarrow> string) \<Rightarrow> http \<Rightarrow> (nat \<Rightarrow> u8) \<Rightarrow> int \<Rightarrow>
    work \<Rightarrow> miner \<Rightarrow> (bool \<times> work \<times> miner) option" where
  "get_upstream_work 0 c loads dumps call junk err0 w m = None"
| "get_upstream_work (Suc fuel) c loads dumps call junk err0 w m =
    (case upstream_request c loads dumps call err0 m of
       None \<Rightarrow> None
     | Some (val, err, m) \<Rightarrow>
         if m_have_stratum m then Some (True, w, m)
         else if \<not> m_have_gbt m \<and> \<not> cf_allow_getwork c then Some (False, w, m)
         else if m_have_gbt m \<and> cf_allow_getwork c \<and> val = None \<and> err = 0
         then get_upstream_work fuel c loads dumps call junk err0 w (m\<lparr>m_have_gbt := False\<rparr>)
         else if val = None then Some (False, w, m)
         else if m_have_gbt m then
           (case gbt_work_decode c junk (json_object_get val ''result'') w m of
              None \<Rightarrow> None
            | Some (rc, w, m) \<Rightarrow>
                if \<not> m_have_gbt m then get_upstream_work fuel c loads dumps call junk err0 w m
                else Some (rc, snd (get_mininginfo c call w m)))
         else
           (case work_decode c (json_object_get val ''result'') w m of
              None \<Rightarrow> None
            | Some (rc, w, m) \<Rightarrow> Some (rc, snd (get_mininginfo c call w m))))"

section \<open>The workio thread\<close>

text \<open>The retry loop that three operations share: \<open>retries\<close> failures are tolerated, any number when it is
  negative; \<open>fuel\<close> bounds the rounds.\<close>

fun retry :: "nat \<Rightarrow> int \<Rightarrow> int \<Rightarrow> ('s \<Rightarrow> (bool \<times> 's) option) \<Rightarrow> 's \<Rightarrow> (bool \<times> 's) option" where
  "retry 0 retries failures f s = None"
| "retry (Suc fuel) retries failures f s =
    (case f s of
       None \<Rightarrow> None
     | Some (True, s) \<Rightarrow> Some (True, s)
     | Some (False, s) \<Rightarrow>
         if retries \<ge> 0 \<and> failures + 1 > retries then Some (False, s)
         else retry fuel retries (if retries \<ge> 0 then failures + 1 else failures) f s)"

text \<open>A command names the thread that asked for it. \<open>wi_out\<close> has the works pushed to the threads, \<open>wi_frozen\<close>
  the threads whose queue does not take any more.\<close>

datatype workio_cmd = WC_GET_WORK nat | WC_SUBMIT_WORK nat work

record workio =
  wi_miner :: miner
  wi_out :: "(nat \<times> work) list"
  wi_frozen :: "nat list"

definition workio_get_work :: "nat \<Rightarrow> config \<Rightarrow> (string \<Rightarrow> json option) \<Rightarrow> (json \<Rightarrow> string) \<Rightarrow> http \<Rightarrow> (nat \<Rightarrow> u8) \<Rightarrow> int \<Rightarrow>
    nat \<Rightarrow> workio \<Rightarrow> (bool \<times> workio) option" where
  "workio_get_work fuel c loads dumps call junk err0 thr wi =
    (case retry fuel (cf_retries c) 0
        (\<lambda>(w, m). map_option (\<lambda>(rc, w, m). (rc, (w, m))) (get_upstream_work 2 c loads dumps call junk err0 w m))
        (work0, wi_miner wi) of
       None \<Rightarrow> None
     | Some (False, (w, m)) \<Rightarrow> Some (False, wi\<lparr>wi_miner := m\<rparr>)
     | Some (True, (w, m)) \<Rightarrow>
         Some (True, wi\<lparr>wi_miner := m, wi_out := (if thr \<in> set (wi_frozen wi) then wi_out wi else wi_out wi @ [(thr, w)])\<rparr>))"

definition workio_submit_work :: "nat \<Rightarrow> config \<Rightarrow> (string \<Rightarrow> json option) \<Rightarrow> (json \<Rightarrow> string) \<Rightarrow> http \<Rightarrow> (nat \<Rightarrow> u8) \<Rightarrow>
    work \<Rightarrow> work \<Rightarrow> workio \<Rightarrow> (bool \<times> workio) option" where
  "workio_submit_work fuel c loads dumps call junk wheight w wi =
    map_option (\<lambda>(rc, (w, m)). (rc, wi\<lparr>wi_miner := m\<rparr>))
      (retry fuel (cf_retries c) 0
        (\<lambda>(w, m). map_option (\<lambda>(rc, w, m). (rc, (w, m))) (submit_upstream_work c loads dumps call junk wheight w m))
        (w, wi_miner wi))"

definition rpc2_workio_login :: "nat \<Rightarrow> config \<Rightarrow> http \<Rightarrow> miner \<Rightarrow> (bool \<times> miner) option" where
  "rpc2_workio_login fuel c call m =
    (if cf_benchmark c then Some (True, m) else retry fuel (cf_retries c) 0 (rpc2_login_call c call) m)"

text \<open>The commands are served in the order of the queue; the list ends where the queue delivers the null
  pointer that ends the thread. The result counts the commands served.\<close>

fun workio_loop :: "nat \<Rightarrow> config \<Rightarrow> (string \<Rightarrow> json option) \<Rightarrow> (json \<Rightarrow> string) \<Rightarrow> http \<Rightarrow> (nat \<Rightarrow> u8) \<Rightarrow> int \<Rightarrow> work \<Rightarrow>
    workio_cmd list \<Rightarrow> workio \<Rightarrow> (nat \<times> workio) option" where
  "workio_loop fuel c loads dumps call junk err0 wheight [] wi = Some (0, wi)"
| "workio_loop fuel c loads dumps call junk err0 wheight (cmd # cmds) wi =
    (case (case cmd of
             WC_GET_WORK thr \<Rightarrow> workio_get_work fuel c loads dumps call junk err0 thr wi
           | WC_SUBMIT_WORK thr w \<Rightarrow> workio_submit_work fuel c loads dumps call junk wheight w wi) of
       None \<Rightarrow> None
     | Some (False, wi) \<Rightarrow> Some (1, wi)
     | Some (True, wi) \<Rightarrow>
         map_option (\<lambda>(n, wi). (Suc n, wi)) (workio_loop fuel c loads dumps call junk err0 wheight cmds wi))"

definition workio_thread :: "nat \<Rightarrow> config \<Rightarrow> (string \<Rightarrow> json option) \<Rightarrow> (json \<Rightarrow> string) \<Rightarrow> http \<Rightarrow> (nat \<Rightarrow> u8) \<Rightarrow> int \<Rightarrow>
    work \<Rightarrow> workio_cmd list \<Rightarrow> workio \<Rightarrow> (nat \<times> workio) option" where
  "workio_thread fuel c loads dumps call junk err0 wheight cmds wi =
    (case (if jsonrpc_2 c \<and> \<not> m_have_stratum (wi_miner wi) then rpc2_workio_login fuel c call (wi_miner wi)
           else Some (True, wi_miner wi)) of
       None \<Rightarrow> None
     | Some (False, m) \<Rightarrow> Some (0, wi\<lparr>wi_miner := m\<rparr>)
     | Some (True, m) \<Rightarrow> workio_loop fuel c loads dumps call junk err0 wheight cmds (wi\<lparr>wi_miner := m\<rparr>))"

section \<open>Retries\<close>

text \<open>A failing operation is repeated until the tolerated failures are used up.\<close>

lemma retry_some:
  assumes "0 \<le> retries" "P s" "\<And>s. P s \<Longrightarrow> \<exists>b s'. f s = Some (b, s') \<and> P s'" "nat (retries - failures) < fuel" "failures \<le> retries"
  shows "\<exists>b s'. retry fuel retries failures f s = Some (b, s') \<and> P s'"
  using assms(2,4,5)
proof (induction fuel arbitrary: failures s)
  case (Suc fuel)
  obtain b s' where f: "f s = Some (b, s')" "P s'" using assms(3) [OF Suc.prems(1)] by blast
  show ?case
  proof (cases b)
    case True
    then show ?thesis using f by auto
  next
    case False
    then show ?thesis using f Suc.IH [OF f(2), of "failures + 1"] Suc.prems(2,3) assms(1) by auto
  qed
qed simp

lemma retry_more_fuel:
  assumes "0 \<le> retries" "nat (retries - failures) < fuel" "failures \<le> retries"
  shows "retry (fuel + k) retries failures f s = retry fuel retries failures f s"
  using assms(2,3)
proof (induction fuel arbitrary: failures s)
  case (Suc fuel)
  have "retry (fuel + k) retries (failures + 1) f s' = retry fuel retries (failures + 1) f s'" if "\<not> failures + 1 > retries" for s'
    using that Suc.IH [of "failures + 1" s'] Suc.prems by auto
  then show ?case using assms(1) by (simp split: option.split bool.split prod.split)
qed simp

section \<open>Fetching ends\<close>

text \<open>The calls of the model do not touch \<^verbatim>\<open>have_gbt\<close>; only the decoding and the fallback clear it.\<close>

definition keeps_gbt :: "http \<Rightarrow> bool" where
  "keeps_gbt call \<longleftrightarrow> (\<forall>flags req m. m_have_gbt (snd (snd (call flags req m))) = m_have_gbt m)"

lemma rpc_call_gbt: "keeps_gbt call \<Longrightarrow> m_have_gbt (snd (snd (rpc_call call flags req m))) = m_have_gbt m"
  by (simp add: keeps_gbt_def rpc_call_def)

lemma work_decode_getwork:
  assumes "\<not> jsonrpc_2 c"
  shows "\<exists>rc w' m'. work_decode c val w m = Some (rc, w', m') \<and> m_have_gbt m' = m_have_gbt m"
  using assms by (auto simp: work_decode_def Let_def set_stratum_diff_def split: prod.splits)

lemma get_mininginfo_gbt: "keeps_gbt call \<Longrightarrow> m_have_gbt (snd (snd (get_mininginfo c call w m))) = m_have_gbt m"
  using rpc_call_gbt [of call 0 info_req m]
  by (auto simp: get_mininginfo_def Let_def mininginfo_fields_def restart_threads_def split: prod.splits option.splits)

lemma get_upstream_getwork:
  assumes "\<not> jsonrpc_2 c" "keeps_gbt call" "\<not> m_have_gbt m"
  shows "\<exists>rc w' m'. get_upstream_work (Suc fuel) c loads dumps call junk err0 w m = Some (rc, w', m') \<and> \<not> m_have_gbt m'"
proof -
  obtain val err m1 where r: "rpc_call call 0 getwork_req m = (val, err, m1)" by (metis surj_pair)
  then have g: "\<not> m_have_gbt m1" using rpc_call_gbt [OF assms(2), of 0 getwork_req m] assms(3) by simp
  obtain rc w2 m2 where d: "work_decode c (json_object_get val ''result'') w m1 = Some (rc, w2, m2)" "\<not> m_have_gbt m2"
    using work_decode_getwork [OF assms(1), of "json_object_get val ''result''" w m1] g by blast
  obtain rc' w3 m3 where i: "get_mininginfo c call w2 m2 = (rc', w3, m3)" by (metis surj_pair)
  have "\<not> m_have_gbt m3" using get_mininginfo_gbt [OF assms(2), of c w2 m2] d(2) i by simp
  then show ?thesis using assms(1,3) r g d i by (auto simp: upstream_request_def)
qed

text \<open>Two rounds are enough: a second jump back would need \<^verbatim>\<open>have_gbt\<close> again.\<close>

lemma get_upstream_two_rounds:
  assumes "\<not> jsonrpc_2 c" "keeps_gbt call"
  shows "get_upstream_work (2 + k) c loads dumps call junk err0 w m = get_upstream_work 2 c loads dumps call junk err0 w m"
proof -
  have same: "get_upstream_work (Suc k) c loads dumps call junk err0 w m = get_upstream_work (Suc 0) c loads dumps call junk err0 w m"
    if "\<not> m_have_gbt m" for k w m
  proof -
    have "\<not> m_have_gbt m1" if "rpc_call call 0 getwork_req m = (val, err, m1)" for val err m1
      using rpc_call_gbt [OF assms(2), of 0 getwork_req m] that \<open>\<not> m_have_gbt m\<close> by simp
    then show ?thesis using assms(1) that by (simp add: upstream_request_def split: prod.split option.split)
  qed
  have "get_upstream_work (Suc (Suc k)) c loads dumps call junk err0 w m = get_upstream_work (Suc (Suc 0)) c loads dumps call junk err0 w m"
  proof (cases "upstream_request c loads dumps call err0 m")
    case (Some r)
    obtain val err m1 where r: "r = (val, err, m1)" by (metis surj_pair)
    show ?thesis
      unfolding get_upstream_work.simps(2) [of "Suc k"] get_upstream_work.simps(2) [of "Suc 0"] Some r option.case prod.case
      by (cases "gbt_work_decode c junk (json_object_get val ''result'') w m1")
        (auto simp: same [of _ k] simp del: get_upstream_work.simps split: prod.split)
  qed simp
  then show ?thesis by (simp add: numeral_2_eq_2)
qed

section \<open>Swapped words\<close>

lemma words_of_be32enc: "words_of_bytes (concat (map be32enc ws)) = map swab32 ws"
proof (rule nth_equalityI)
  show len: "length (words_of_bytes (concat (map be32enc ws))) = length (map swab32 ws)"
    by (simp add: length_concat comp_def sum_list_triv)
  fix i assume "i < length (words_of_bytes (concat (map be32enc ws)))"
  then have i: "i < length ws" using len by simp
  have "take 4 (drop (4 * i) (concat (map be32enc ws))) = be32enc (ws ! i)" using i by (rule take4_concat_be32enc)
  then show "words_of_bytes (concat (map be32enc ws)) ! i = map swab32 ws ! i"
    using i by (simp add: words_of_bytes_def length_concat comp_def sum_list_triv le32dec_rev swab32_le32dec le32enc_rev)
qed

lemma swap_prevhash:
  "48 \<le> length data \<Longrightarrow> take 8 (drop 1 (map swab32 data)) = map swab32 (take 8 (drop 1 data))"
  by (simp add: take_map drop_map)

section \<open>Properties\<close>


definition refused :: http where
  "refused flags req m = (None, 7, m)"

definition workio0 :: workio where
  "workio0 = \<lparr>wi_miner = miner0\<lparr>m_have_stratum := False, m_have_gbt := False\<rparr>, wi_out = [], wi_frozen = []\<rparr>"


text \<open>C16: a solved block of a template is lost when the first submission fails: the words of the work were swapped
  in place for printing, so the retry takes the work for a stale one and reports success, although
  no request was answered and no result was counted.\<close>

theorem gbt_submit_retry_discards:
  assumes "\<And>flags req m. call flags req m = (None, e, m)"
    and "w_txs w = Some txs" and "48 \<le> length (w_data w)"
    and "\<not> m_submit_old m" and "\<not> m_have_stratum m" and "\<not> m_allow_mininginfo m" and "cf_retries c \<noteq> 0"
    and "take 8 (drop 1 (w_data w)) = take 8 (drop 1 (w_data (m_g_work m)))"
    and "map swab32 (take 8 (drop 1 (w_data w))) \<noteq> take 8 (drop 1 (w_data w))"
    and "wi_miner wi = m"
  shows "\<exists>wi'. workio_submit_work (Suc (Suc fuel)) c loads dumps call junk wheight w wi = Some (True, wi') \<and>
    length (m_calls (wi_miner wi')) = length (m_calls m) + 1 \<and>
    m_accepted (wi_miner wi') = m_accepted m \<and> m_rejected (wi_miner wi') = m_rejected m"
proof -
  let ?w = "w\<lparr>w_data := map swab32 (w_data w)\<rparr>"
  define m1 where "m1 = m\<lparr>m_calls := m_calls m @ [submitblock_req dumps ?w (bin2hex (bytes_of_words (map swab32 (w_data w))) 80) txs]\<rparr>"
  have first: "submit_upstream_work c loads dumps call junk wheight w m = Some (False, ?w, m1)"
    using assms(2,4-6,8) by (simp add: submit_upstream_work_def submit_gbt_def Let_def rpc_call_def assms(1) words_of_be32enc m1_def)
  have stale: "take 8 (drop 1 (w_data ?w)) \<noteq> take 8 (drop 1 (w_data (m_g_work m1)))" "\<not> m_submit_old m1"
    using swap_prevhash [OF assms(3)] assms(4,8,9) by (simp_all add: m1_def)
  have "submit_upstream_work c loads dumps call junk wheight ?w m1 = Some (True, ?w, m1)"
    by (simp only: submit_upstream_work_def stale simp_thms if_True)
  moreover have "\<not> (0 \<le> cf_retries c \<and> cf_retries c < 1)" using assms(7) by linarith
  ultimately have "workio_submit_work (Suc (Suc fuel)) c loads dumps call junk wheight w wi = Some (True, wi\<lparr>wi_miner := m1\<rparr>)"
    using first assms(10) by (auto simp: workio_submit_work_def)
  then show ?thesis by (simp add: m1_def)
qed

definition solved_template :: work where
  "solved_template = work0\<lparr>w_data := replicate 48 1, w_txs := Some ''01''\<rparr>"

definition node_down :: miner where
  "node_down = set_g_work solved_template (miner0\<lparr>m_have_stratum := False, m_allow_mininginfo := False\<rparr>)"

theorem gbt_submit_retry_discards_witness:
  "\<exists>wi'. workio_submit_work 2 config0 (\<lambda>_. None) (\<lambda>_. []) refused (\<lambda>_. 0) work0 solved_template (workio0\<lparr>wi_miner := node_down\<rparr>) = Some (True, wi') \<and>
    length (m_calls (wi_miner wi')) = length (m_calls node_down) + 1 \<and>
    m_accepted (wi_miner wi') = m_accepted node_down \<and> m_rejected (wi_miner wi') = m_rejected node_down"
proof -
  have "swab32 1 \<noteq> 1" by (simp add: swab32_def)
  then have "\<exists>wi'. workio_submit_work (Suc (Suc 0)) config0 (\<lambda>_. None) (\<lambda>_. []) refused (\<lambda>_. 0) work0 solved_template (workio0\<lparr>wi_miner := node_down\<rparr>) = Some (True, wi') \<and>
    length (m_calls (wi_miner wi')) = length (m_calls node_down) + 1 \<and>
    m_accepted (wi_miner wi') = m_accepted node_down \<and> m_rejected (wi_miner wi') = m_rejected node_down"
    by (intro gbt_submit_retry_discards [where e = 7 and txs = "''01''"])
      (simp_all add: refused_def node_down_def solved_template_def set_g_work_def miner0_def config0_def workio0_def)
  then show ?thesis by (simp add: numeral_2_eq_2)
qed

end
