(* ===== verification/Miner_Loop.thy ===== *)
theory Miner_Loop
  imports Upstream
begin

text \<open>
  The miner threads of \<^verbatim>\<open>cpu-miner.c\<close>: \<^verbatim>\<open>get_work\<close>, \<^verbatim>\<open>submit_work\<close>, \<^verbatim>\<open>wanna_mine\<close> and the loop of
  \<^verbatim>\<open>miner_thread\<close>, one round at a time. What the operating system and the other threads contribute to a
  round is the record \<open>env\<close>; the clock has one value per round. A round holds the work lock while it
  takes its work, so it is one step on the shared state. The priority and affinity calls before
  the loop are left out.
\<close>

section \<open>Definitions\<close>

record cpu =
  cpu_8way :: bool
  cpu_4way :: bool
  cpu_ms8 :: kernel
  cpu_ms4 :: kernel

text \<open>\<open>e_reply\<close> is the work that the workio thread returned, \<open>e_stratum\<close> whether the server moved the miner to
  stratum while the thread waited for it, \<open>e_push\<close> whether it accepts a solved work,
  \<open>e_restart\<close> the restart flag as the search sees it, \<open>e_rand\<close> the value of \<^verbatim>\<open>(rand() * 4) & UINT32_MAX\<close>.\<close>

record env =
  e_now :: int
  e_rand :: u32
  e_temp :: double
  e_reply :: "work option"
  e_stratum :: bool
  e_push :: bool
  e_restart :: "nat \<Rightarrow> bool"
  e_sec :: int
  e_usec :: int

record thread =
  th_id :: nat
  th_work :: work
  th_first :: int

datatype outcome = Go | Again | Stop | Quit

definition LP_SCANTIME :: int where "LP_SCANTIME = 60"

definition MAX_CPUS :: nat where "MAX_CPUS = 16"

definition start_nonce :: "nat \<Rightarrow> nat \<Rightarrow> u32" where
  "start_nonce n thr_id = (0xffffffff div word_of_nat n) * word_of_nat thr_id"

definition end_nonce :: "nat \<Rightarrow> nat \<Rightarrow> u32" where
  "end_nonce n thr_id = (0xffffffff div word_of_nat n) * word_of_nat (thr_id + 1) - 0x20"

text \<open>The nonce stands at byte 76 of the header, at byte 39 of a JSON-RPC 2.0 blob.\<close>

definition nonce_oft :: "bool \<Rightarrow> nat" where
  "nonce_oft jr = (if jr then 39 else 76)"

definition get_nonce :: "bool \<Rightarrow> u32 list \<Rightarrow> u32" where
  "get_nonce jr data = le32dec (drop (nonce_oft jr) (bytes_of_words data))"

definition set_nonce :: "bool \<Rightarrow> u32 \<Rightarrow> u32 list \<Rightarrow> u32 list" where
  "set_nonce jr n data = words_of_bytes (memcpy_at (bytes_of_words data) (nonce_oft jr) (le32enc n))"

text \<open>The comparison of the thread's work with the global one. The conditional operator binds weaker than
  the disjunction in front of it, so the second comparison is the one that counts.\<close>

definition work_differs :: "bool \<Rightarrow> u32 list \<Rightarrow> u32 list \<Rightarrow> bool" where
  "work_differs jr data gdata =
    (let a = bytes_of_words data; b = bytes_of_words gdata in
     if take (nonce_oft jr) a \<noteq> take (nonce_oft jr) b \<or> jr
     then take 33 (drop 43 a) \<noteq> take 33 (drop 43 b)
     else False)"

definition get_work :: "config \<Rightarrow> env \<Rightarrow> work \<Rightarrow> work option" where
  "get_work c e w =
    (if cf_benchmark c then
       let d = words_of_bytes (memcpy_at (bytes_of_words (w_data w)) 0 (map word_of_nat [0..<74]));
           d = d[17 := swab32 (word_of_int (e_now e))];
           d = memcpy_at d 19 (replicate 13 0)
       in Some (w\<lparr>w_data := d[20 := 0x80000000, 31 := 0x00000280], w_target := replicate 8 0\<rparr>)
     else e_reply e)"

text \<open>The work to submit is a copy.\<close>

definition submit_work :: "env \<Rightarrow> work \<Rightarrow> work option" where
  "submit_work e w = (if e_push e then Some (work_copy w) else None)"

definition wanna_mine :: "config \<Rightarrow> double \<Rightarrow> nat \<Rightarrow> miner \<Rightarrow> bool \<times> miner" where
  "wanna_mine c temp thr_id m =
    (let state = True;
         state = (if dlt dbl_zero (cf_max_temp c) \<and> dlt (cf_max_temp c) temp then False else state);
         state = (if dlt dbl_zero (cf_max_diff c) \<and> dlt (cf_max_diff c) (m_net_diff m) then False else state);
         state = (if dlt dbl_zero (cf_max_rate c) \<and> dlt (cf_max_rate c) (m_net_hashrate m) then False else state)
     in (state, if thr_id < MAX_CPUS then m\<lparr>m_conditional := (m_conditional m)[thr_id := \<not> state]\<rparr> else m))"

text \<open>The first part of a round: make sure that the global work is fresh.\<close>

definition miner_fetch :: "config \<Rightarrow> env \<Rightarrow> thread \<Rightarrow> miner \<Rightarrow> (outcome \<times> miner) option" where
  "miner_fetch c e th m =
    (let jr = jsonrpc_2 c; data = w_data (th_work th); endn = end_nonce (cf_n_threads c) (th_id th) in
     if m_have_stratum m then
       (if \<not> jr \<and> e_now e \<ge> st_g_work_time (m_st m) + 120 then Some (Again, m)
        else if get_nonce jr data \<ge> endn \<and> \<not> work_differs jr data (w_data (m_g_work m))
        then map_option (\<lambda>(g, m). (Go, set_g_work g m)) (stratum_gen_work c (m_g_work m) m)
        else Some (Go, m))
     else
       let min_scantime = (if m_have_longpoll m then LP_SCANTIME else cf_scantime c) in
       if e_now e - st_g_work_time (m_st m) \<ge> min_scantime \<or> data ! 19 \<ge> endn
       then (case get_work c e (m_g_work m) of
               None \<Rightarrow> Some (Stop, m)
             | Some g \<Rightarrow>
                 let m = set_g_work g (if e_stratum e then m\<lparr>m_have_stratum := True\<rparr> else m) in
                 if m_have_stratum m then Some (Again, set_g_work_time 0 m)
                 else Some (Go, set_g_work_time (e_now e) m))
       else Some (Go, m))"

text \<open>The thread takes the global work over or steps to its next nonce.\<close>

definition miner_adopt :: "config \<Rightarrow> env \<Rightarrow> nat \<Rightarrow> work \<Rightarrow> work \<Rightarrow> work" where
  "miner_adopt c e thr_id w g =
    (let jr = jsonrpc_2 c; n = cf_n_threads c in
     if work_differs jr (w_data w) (w_data g) then
       let w = work_copy g;
           nonce = start_nonce n thr_id;
           nonce = (if cf_randomize c then nonce + e_rand e div word_of_nat n else nonce)
       in w\<lparr>w_data := set_nonce jr nonce (w_data w)\<rparr>
     else w\<lparr>w_data := set_nonce jr (get_nonce jr (w_data w) + 1) (w_data w)\<rparr>)"

text \<open>The end of the range to search, from the time left and the thread's hash rate.\<close>

definition scan_limit :: "u32 \<Rightarrow> u32 \<Rightarrow> int \<Rightarrow> u32" where
  "scan_limit endn nonce max64 =
    (let max64 = (if max64 \<le> 0 then 0x1fffff else max64) in
     if uint nonce + max64 > uint endn then endn else nonce + word_of_int max64)"

definition miner_max64 :: "config \<Rightarrow> env \<Rightarrow> thread \<Rightarrow> miner \<Rightarrow> outcome \<times> int" where
  "miner_max64 c e th m =
    (let max64 = (if m_have_stratum m then LP_SCANTIME
                  else st_g_work_time (m_st m) + (if m_have_longpoll m then LP_SCANTIME else cf_scantime c) - e_now e)
     in if cf_time_limit c \<noteq> 0 \<and> th_first th \<noteq> 0 then
          let passed = to_int32 (e_now e - th_first th);
              remain = to_int32 (cf_time_limit c - passed)
          in if remain < 0 then (if th_id th \<noteq> 0 then Again else Quit, max64)
             else (Go, if remain < max64 then remain else max64)
        else (Go, max64))"

text \<open>\<open>hashes_done / (tv_sec + tv_usec * 1e-6)\<close> in double arithmetic.\<close>

definition hash_rate :: "u64 \<Rightarrow> int \<Rightarrow> int \<Rightarrow> double" where
  "hash_rate hashes sec usec =
    ddiv (dbl_of_int (uint hashes)) (dadd (dbl_of_int sec) (dmul (dbl_of_int usec) (dbl_round False (1 / 1000000))))"

fun rate_sum :: "nat \<Rightarrow> double list \<Rightarrow> double \<Rightarrow> double option" where
  "rate_sum 0 rates s = Some s"
| "rate_sum (Suc n) [] s = None"
| "rate_sum (Suc n) (r # rates) s = (if deq r dbl_zero then None else rate_sum n rates (dadd s r))"

definition miner_stats :: "config \<Rightarrow> env \<Rightarrow> nat \<Rightarrow> u64 \<Rightarrow> miner \<Rightarrow> miner option" where
  "miner_stats c e thr_id hashes m =
    (let m = (if e_usec e \<noteq> 0 \<or> e_sec e \<noteq> 0
              then m\<lparr>m_hashrates := (m_hashrates m)[thr_id := hash_rate hashes (e_sec e) (e_usec e)]\<rparr> else m)
     in if cf_benchmark c \<and> thr_id + 1 = cf_n_threads c then
          (case rate_sum (cf_n_threads c) (m_hashrates m) dbl_zero of
             None \<Rightarrow> Some m
           | Some s \<Rightarrow> map_option (\<lambda>r. m\<lparr>m_global_hashrate := r\<rparr>) (dbl_to_u64 s))
        else Some m)"

text \<open>One round: the outcome, the thread, the works handed over for submission, and the state.\<close>

definition miner_scan :: "cpu \<Rightarrow> config \<Rightarrow> env \<Rightarrow> thread \<Rightarrow> int \<Rightarrow> miner \<Rightarrow> (outcome \<times> thread \<times> work list \<times> miner) option" where
  "miner_scan cpu c e th max64 m =
    (case dbl_to_i64 (m_hashrates m ! th_id th) of
       None \<Rightarrow> None
     | Some rate \<Rightarrow>
         let jr = jsonrpc_2 c;
             max_nonce = scan_limit (end_nonce (cf_n_threads c) (th_id th)) (get_nonce jr (w_data (th_work th))) (max64 * sint rate);
             th = (if th_first th = 0 then th\<lparr>th_first := e_now e\<rparr> else th)
         in case scanhash_sha256d (cpu_8way cpu) (cpu_4way cpu) (cpu_ms8 cpu) (cpu_ms4 cpu) (cf_showdiff c) (e_restart e)
              (th_work th) max_nonce of
            None \<Rightarrow> None
          | Some (rc, w, hashes) \<Rightarrow>
              (case miner_stats c e (th_id th) hashes m of
                 None \<Rightarrow> None
               | Some m \<Rightarrow>
                   let th = th\<lparr>th_work := w\<rparr> in
                   if rc \<and> \<not> cf_benchmark c then
                     (case submit_work e w of
                        None \<Rightarrow> Some (Stop, th, [], m)
                      | Some s \<Rightarrow>
                          Some (Go, th, [s], if \<not> m_have_stratum m \<and> \<not> m_have_longpoll m then set_g_work_time 0 m else m))
                   else Some (Go, th, [], m)))"

definition miner_round :: "cpu \<Rightarrow> config \<Rightarrow> env \<Rightarrow> thread \<Rightarrow> miner \<Rightarrow> (outcome \<times> thread \<times> work list \<times> miner) option" where
  "miner_round cpu c e th m =
    (case miner_fetch c e th m of
       None \<Rightarrow> None
     | Some (Go, m) \<Rightarrow>
         let th = th\<lparr>th_work := miner_adopt c e (th_id th) (th_work th) (m_g_work m)\<rparr>;
             m = m\<lparr>m_restart := (m_restart m)[th_id th := False]\<rparr>
         in if m_have_stratum m \<and> w_data (th_work th) ! 0 = 0 \<and> \<not> cf_benchmark c then Some (Again, th, [], m)
            else case wanna_mine c (e_temp e) (th_id th) m of (wanted, m) \<Rightarrow>
              if \<not> wanted then Some (Again, th, [], m)
              else case miner_max64 c e th m of (out, max64) \<Rightarrow>
                if out \<noteq> Go then Some (out, th, [], m) else miner_scan cpu c e th max64 m
     | Some (out, m) \<Rightarrow> Some (out, th, [], m))"

text \<open>The thread: rounds until one of them ends it. The work starts zeroed.\<close>

fun miner_run :: "cpu \<Rightarrow> config \<Rightarrow> env list \<Rightarrow> thread \<Rightarrow> miner \<Rightarrow> (outcome \<times> thread \<times> work list \<times> miner) option" where
  "miner_run cpu c [] th m = Some (Go, th, [], m)"
| "miner_run cpu c (e # es) th m =
    (case miner_round cpu c e th m of
       None \<Rightarrow> None
     | Some (out, th, ws, m) \<Rightarrow>
         if out = Stop \<or> out = Quit then Some (out, th, ws, m)
         else map_option (\<lambda>(out, th, ws', m). (out, th, ws @ ws', m)) (miner_run cpu c es th m))"

definition miner_thread :: "cpu \<Rightarrow> config \<Rightarrow> nat \<Rightarrow> env list \<Rightarrow> miner \<Rightarrow> (outcome \<times> thread \<times> work list \<times> miner) option" where
  "miner_thread cpu c thr_id es m = miner_run cpu c es \<lparr>th_id = thr_id, th_work = work0, th_first = 0\<rparr> m"

section \<open>Nonces\<close>

lemma get_nonce_header:
  assumes "20 \<le> length data" shows "get_nonce False data = data ! 19"
proof -
  have "le32dec bs = le32dec (take 4 bs)" for bs by (simp add: le32dec_def)
  then have "get_nonce False data = le32dec (take 4 (drop (4 * 19) (bytes_of_words data)))"
    by (simp add: get_nonce_def nonce_oft_def)
  also have "\<dots> = data ! 19" using assms by (subst take4_bytes_of_words) simp_all
  finally show ?thesis .
qed

section \<open>The shares of the nonce space\<close>

text \<open>Each thread owns an interval of the nonces; the margin below its end leaves room for the last pass of
  the vectorised search.\<close>

definition thread_range :: "nat \<Rightarrow> nat \<Rightarrow> u32 set" where
  "thread_range n thr_id = {m. 4294967295 div n * thr_id \<le> unat m \<and> unat m < 4294967295 div n * (thr_id + 1)}"

lemma thread_range_disjoint:
  assumes "i \<noteq> j" shows "thread_range n i \<inter> thread_range n j = {}"
proof -
  have "4294967295 div n * (a + 1) \<le> 4294967295 div n * b" if "a < b" for a b :: nat
    using that by (intro mult_le_mono2) simp
  then show ?thesis using assms by (fastforce simp: thread_range_def nat_neq_iff)
qed

lemma quota_bounds:
  fixes n thr_id :: nat
  assumes "0 < n" "thr_id < n"
  shows "4294967295 div n * (thr_id + 1) \<le> 4294967295"
proof -
  have "4294967295 div n * (thr_id + 1) \<le> 4294967295 div n * n" using assms by (intro mult_le_mono2) simp
  also have "\<dots> \<le> 4294967295" by (simp add: div_times_less_eq_dividend)
  finally show ?thesis .
qed

lemma unat_quota: "0 < n \<Longrightarrow> n \<le> 4294967295 \<Longrightarrow> unat (0xffffffff div word_of_nat n :: u32) = 4294967295 div n"
  by (simp add: unat_div unsigned_of_nat take_bit_eq_mod)

lemma unat_start_nonce:
  assumes "0 < n" "n \<le> 4294967295" "thr_id < n"
  shows "unat (start_nonce n thr_id) = 4294967295 div n * thr_id"
proof -
  have "4294967295 div n * thr_id \<le> 4294967295" using quota_bounds [OF assms(1,3)] by simp
  then show ?thesis
    using assms unfolding start_nonce_def word_arith_nat_mult
    by (simp add: unat_quota unsigned_of_nat take_bit_eq_mod del: of_nat_mult)
qed

lemma unat_end_nonce:
  assumes "0 < n" "64 * n \<le> 4294967295" "thr_id < n"
  shows "unat (end_nonce n thr_id) = 4294967295 div n * (thr_id + 1) - 32" "64 \<le> 4294967295 div n"
proof -
  show q: "64 \<le> 4294967295 div n" using assms(1,2) by (simp add: less_eq_div_iff_mult_less_eq)
  have b: "4294967295 div n * (thr_id + 1) \<le> 4294967295" by (rule quota_bounds [OF assms(1,3)])
  have "unat ((0xffffffff div word_of_nat n) * word_of_nat (thr_id + 1) :: u32) = 4294967295 div n * (thr_id + 1)"
    using assms b by (simp only: unat_word_ariths unat_quota unsigned_of_nat take_bit_eq_mod) simp
  moreover have "32 \<le> 4294967295 div n * (thr_id + 1)" using q by (simp add: order_trans [of _ 64])
  ultimately show "unat (end_nonce n thr_id) = 4294967295 div n * (thr_id + 1) - 32"
    unfolding end_nonce_def by (simp add: unat_sub word_le_nat_alt)
qed

lemma scan_limit_bounds: "scan_limit endn nonce max64 \<le> endn"
proof -
  have "nonce + word_of_int k \<le> endn" if "0 < k" "uint nonce + k \<le> uint endn" for k
  proof -
    have "uint endn < 4294967296" using uint_lt2p [of endn] by simp
    then have "k < 4294967296" "uint nonce + k < 4294967296" using that uint_ge_0 [of nonce] by linarith+
    then have "k mod 4294967296 = k" "(uint nonce + k) mod 4294967296 = uint nonce + k" using that by simp_all
    then have "uint (nonce + word_of_int k) = uint nonce + k"
      by (simp add: uint_word_ariths uint_word_of_int)
    then show ?thesis using that by (simp add: word_le_def)
  qed
  then show ?thesis by (auto simp: scan_limit_def Let_def)
qed

text \<open>The passes of a search do not run past the limit by more than one pass.\<close>

lemma passes_below:
  assumes "\<forall>q < p. (n0 + of_nat (L * Suc q) - 1 :: u32) < max_nonce" "0 < L" "L \<le> 8" "unat max_nonce + 8 \<le> 4294967296"
    "0 < k" "k \<le> p" "unat n0 + L \<le> 4294967296"
  shows "unat n0 + L * k \<le> unat max_nonce"
  using assms(5,6)
proof (induction k)
  case (Suc k)
  have fits: "unat n0 + L * Suc k \<le> 4294967296"
  proof (cases "k = 0")
    case True
    then show ?thesis using assms(7) by simp
  next
    case False
    then show ?thesis using Suc assms(3,4) by simp
  qed
  have "n0 + of_nat (L * Suc k) - 1 = of_nat (unat n0 + L * Suc k - 1)"
    using assms(2) by (simp add: of_nat_diff)
  moreover have "unat n0 + L * Suc k - 1 < 4294967296" using fits assms(2) by simp
  ultimately have "unat (n0 + of_nat (L * Suc k) - 1) = unat n0 + L * Suc k - 1"
    by (simp only: unsigned_of_nat take_bit_eq_mod) simp
  then show ?case using assms(1) Suc.prems(2) assms(2) by (auto simp: word_less_nat_alt Suc_le_eq)
qed simp

lemma scan_stays_in_range:
  assumes "scan_outcome L sd restart w max_nonce r" "L \<in> {1, 4, 8}"
    "0 < n" "64 * n \<le> 4294967295" "thr_id < n"
    "start_nonce n thr_id \<le> w_data w ! 19" "w_data w ! 19 \<le> end_nonce n thr_id" "max_nonce \<le> end_nonce n thr_id"
    "i < unat (snd (snd r))"
  shows "w_data w ! 19 + of_nat i \<in> thread_range n thr_id"
proof -
  let ?n0 = "w_data w ! 19" and ?Q = "4294967295 div n * (thr_id + 1)"
  note e = unat_end_nonce [OF assms(3-5)]
  have Q: "?Q \<le> 4294967295" by (rule quota_bounds [OF assms(3,5)])
  have big: "64 \<le> ?Q" using e(2) by (simp add: order_trans [of _ "4294967295 div n"])
  have lo: "4294967295 div n * thr_id \<le> unat ?n0"
    using assms(6) unat_start_nonce [OF assms(3) _ assms(5)] assms(4) by (simp add: word_le_nat_alt)
  have hi: "unat ?n0 \<le> ?Q - 32" "unat max_nonce \<le> ?Q - 32" using assms(7,8) e(1) by (simp_all add: word_le_nat_alt)
  obtain p where p: "\<forall>q < p. ?n0 + of_nat (L * Suc q) - 1 < max_nonce"
      "snd (snd r) = ucast (of_nat (L * Suc p) :: u32)"
    using assms(1) unfolding scan_outcome_def Let_def by blast
  have L: "0 < L" "L \<le> 8" using assms(2) by auto
  have "unat ?n0 + L * p \<le> ?Q - 32"
  proof (cases "p = 0")
    case False
    then have "unat ?n0 + L * p \<le> unat max_nonce"
      using passes_below [OF p(1) L, of p] hi Q big L by simp
    then show ?thesis using hi by simp
  qed (use hi in simp)
  then have top: "unat ?n0 + L * Suc p \<le> ?Q - 24" using L big by simp
  then have "L * Suc p < 4294967296" using Q by linarith
  then have "unat (ucast (of_nat (L * Suc p) :: u32) :: u64) = L * Suc p"
    by (simp only: unsigned_ucast_eq unsigned_of_nat take_bit_eq_mod) simp
  then have "i < L * Suc p" using assms(9) p(2) by (simp only:)
  then have "unat ?n0 + i < unat ?n0 + L * Suc p" by (simp only: add_less_cancel_left)
  also note top
  also have "?Q - 24 < ?Q" using big by simp
  finally have i: "unat ?n0 + i < ?Q" by simp
  have "?n0 + of_nat i = of_nat (unat ?n0 + i)" by simp
  then have "unat (?n0 + of_nat i) = unat ?n0 + i"
    using i Q by (simp add: unsigned_of_nat take_bit_eq_mod del: of_nat_add)
  then show ?thesis using lo i by (simp add: thread_range_def)
qed

lemma bytes_of_words_append: "bytes_of_words (xs @ ys) = bytes_of_words xs @ bytes_of_words ys"
  by (simp add: bytes_of_words_def)

lemma set_nonce_header:
  assumes "20 \<le> length data" shows "set_nonce False n data = data[19 := n]"
proof -
  let ?a = "take 19 data" and ?b = "drop 20 data"
  have "data = ?a @ data ! 19 # ?b" using assms id_take_nth_drop [of 19 data] by simp
  then have "bytes_of_words data = bytes_of_words ?a @ le32enc (data ! 19) @ bytes_of_words ?b"
    by (metis bytes_of_words_append append_Cons append_Nil bytes_of_words_def concat.simps list.map append_Nil2)
  then have "memcpy_at (bytes_of_words data) 76 (le32enc n) = bytes_of_words ?a @ le32enc n @ bytes_of_words ?b"
    using assms by (simp add: memcpy_at_def)
  also have "\<dots> = bytes_of_words (?a @ n # ?b)" by (simp add: bytes_of_words_def)
  also have "?a @ n # ?b = data[19 := n]" using assms by (simp add: upd_conv_take_nth_drop)
  finally show ?thesis by (simp add: set_nonce_def nonce_oft_def)
qed

section \<open>Taking work over\<close>

lemma miner_adopt_new:
  assumes "\<not> jsonrpc_2 c" "\<not> cf_randomize c" "work_differs False (w_data w) (w_data g)" "20 \<le> length (w_data g)"
  shows "w_data (miner_adopt c e thr_id w g) = (w_data g)[19 := start_nonce (cf_n_threads c) thr_id]"
    "w_target (miner_adopt c e thr_id w g) = w_target g" "w_job_id (miner_adopt c e thr_id w g) = w_job_id g"
    "w_xnonce2_len (miner_adopt c e thr_id w g) = w_xnonce2_len g"
    "w_xnonce2 (miner_adopt c e thr_id w g) = map_option (take (w_xnonce2_len g)) (w_xnonce2 g)"
  using assms by (auto simp: miner_adopt_def work_copy_def Let_def set_nonce_header split: option.split)

text \<open>The comparison ignores the version and the previous hash: a thread does not notice work that differs
  from its own only there.\<close>

lemma miner_adopt_ignores_prevhash:
  assumes "\<not> jsonrpc_2 c" "take 33 (drop 43 (bytes_of_words (w_data w))) = take 33 (drop 43 (bytes_of_words (w_data g)))"
  shows "miner_adopt c e thr_id w g = w\<lparr>w_data := set_nonce False (get_nonce False (w_data w) + 1) (w_data w)\<rparr>"
  using assms by (simp add: miner_adopt_def work_differs_def Let_def)

section \<open>Properties\<close>

text \<open>C14: the threads share the nonces out: started inside its share, the search of a thread returns and every nonce
  it tests lies in the share of that thread, and the shares of different threads are disjoint.\<close>

theorem miner_threads_disjoint:
  assumes "ms_kernel 8 ms8" and "ms_kernel 4 ms4" and "header_ok w"
    and "0 < n" and "64 * n \<le> 4294967295" and "thr_id < n"
    and "start_nonce n thr_id \<le> w_data w ! 19" and "w_data w ! 19 \<le> end_nonce n thr_id"
  shows "(\<exists>r. scanhash_sha256d use8 use4 ms8 ms4 sd restart w
        (scan_limit (end_nonce n thr_id) (get_nonce False (w_data w)) max64) = Some r \<and>
      (\<forall>i < unat (snd (snd r)). w_data w ! 19 + of_nat i \<in> thread_range n thr_id)) \<and>
    (\<forall>j. j \<noteq> thr_id \<longrightarrow> thread_range n thr_id \<inter> thread_range n j = {})"
proof -
  let ?max = "scan_limit (end_nonce n thr_id) (get_nonce False (w_data w)) max64"
  have g: "get_nonce False (w_data w) = w_data w ! 19" using assms(3) by (intro get_nonce_header) (simp add: header_ok_def)
  have lim: "?max \<le> end_nonce n thr_id" unfolding g by (rule scan_limit_bounds)
  have "unat (end_nonce n thr_id) + 8 \<le> 4294967296"
    using unat_end_nonce [OF assms(4-6)] quota_bounds [OF assms(4,6)] by simp
  then have "unat ?max + 8 \<le> 4294967296" using lim by (simp add: word_le_nat_alt)
  from scanhash_outcome [OF assms(1-3) this, of use8 use4 sd restart] obtain r
    where r: "scanhash_sha256d use8 use4 ms8 ms4 sd restart w ?max = Some r"
      "scan_outcome (if use8 then 8 else if use4 then 4 else 1) sd restart w ?max r" by blast
  have "w_data w ! 19 + of_nat i \<in> thread_range n thr_id" if "i < unat (snd (snd r))" for i
    by (rule scan_stays_in_range [OF r(2) _ assms(4-8) lim that]) auto
  with r(1) show ?thesis using thread_range_disjoint by blast
qed

theorem miner_threads_disjoint_witness:
  "\<exists>r. scanhash_sha256d True False (ms_lanes 8) (ms_lanes 4) False (\<lambda>_. False) easy_work
      (scan_limit (end_nonce 4 0) (get_nonce False (w_data easy_work)) 1000) = Some r \<and>
    (\<forall>i < unat (snd (snd r)). w_data easy_work ! 19 + of_nat i \<in> thread_range 4 0)"
proof -
  have "start_nonce 4 0 \<le> w_data easy_work ! 19" "w_data easy_work ! 19 \<le> end_nonce 4 0"
    by (simp_all add: easy_work_nonce start_nonce_def)
  from miner_threads_disjoint [OF lanes8.ms_kernel_axioms lanes4.ms_kernel_axioms padded_header_ok [OF padded_easy_work] _ _ _ this,
      of True False False "\<lambda>_. False" 1000]
  show ?thesis by simp
qed

end
