(* ===== verification/Threads.thy ===== *)
theory Threads
  imports Miner_Loop
begin

text \<open>
  The threads of \<^verbatim>\<open>cpu-miner.c\<close> that talk to the pool: \<^verbatim>\<open>stratum_handle_response\<close>, a round of
  \<^verbatim>\<open>stratum_thread\<close> and a round of \<^verbatim>\<open>longpoll_thread\<close>. The clock has one value per round.
\<close>

section \<open>Answers to submitted shares\<close>

definition stratum_handle_response :: "config \<Rightarrow> (string \<Rightarrow> json option) \<Rightarrow> string \<Rightarrow> miner \<Rightarrow> (bool \<times> miner) option" where
  "stratum_handle_response c loads buf m =
    (let val = loads buf;
         res_val = json_object_get val ''result'';
         err_val = json_object_get val ''error'';
         id_val = json_object_get val ''id''
     in if val = None then Some (False, m)
        else if id_val = None \<or> json_is_null id_val then Some (False, m)
        else if jsonrpc_2 c then
          (if res_val = None \<and> err_val = None then Some (False, m)
           else case (case json_object_get res_val ''status'' of
                        Some status \<Rightarrow> map_option (\<lambda>s. s = ''OK'' \<and> json_is_null err_val) (json_string_value (Some status))
                      | None \<Rightarrow> Some (json_is_null err_val)) of
             None \<Rightarrow> None
           | Some valid \<Rightarrow> map_option (\<lambda>m. (True, m)) (share_result c valid None m))
        else if res_val = None \<or> json_integer_value id_val < 4 then Some (False, m)
        else map_option (\<lambda>m. (True, m)) (share_result c (json_is_true res_val) None m))"

section \<open>The stratum thread\<close>

text \<open>Losing the connection, exhausting the retries, or waiting for the outcome of a connection attempt.\<close>

datatype s_result = S_next | S_exit | S_wait

definition stratum_reset :: "config \<Rightarrow> miner \<Rightarrow> miner" where
  "stratum_reset c m =
    (if m_need_reset m then
       let m = set_sctx (stratum_disconnect (m_sctx m)) (m\<lparr>m_need_reset := False\<rparr>)
       in if s_url (m_sctx m) \<noteq> Some (cf_rpc_url c) then set_sctx ((m_sctx m)\<lparr>s_url := Some (cf_rpc_url c)\<rparr>) m else m
     else m)"

text \<open>One attempt: connect, subscribe, authorise. The pair says what \<^verbatim>\<open>curl_easy_init\<close> and
  \<^verbatim>\<open>curl_easy_perform\<close> reported.\<close>

definition stratum_attempt :: "nat \<Rightarrow> config \<Rightarrow> (string \<Rightarrow> json option) \<Rightarrow> (json \<Rightarrow> string) \<Rightarrow> (nat \<Rightarrow> u8) \<Rightarrow> bool \<times> bool \<Rightarrow>
    miner \<Rightarrow> (bool \<times> miner) option" where
  "stratum_attempt fuel c loads dumps junk conn m =
    (case s_url (m_sctx m) of
       None \<Rightarrow> None
     | Some url \<Rightarrow>
         (case stratum_connect (fst conn) (snd conn) url (m_sctx m) of
            None \<Rightarrow> None
          | Some (conn_ok, sctx) \<Rightarrow>
              let m = set_sctx sctx m in
              if \<not> conn_ok then Some (False, m)
              else case stratum_subscribe loads (cf_stratum c) (m_sctx m) (st_io (m_st m)) of (subscribed, sctx, io) \<Rightarrow>
                let m = set_io io (set_sctx sctx m) in
                if \<not> subscribed then Some (False, m)
                else case stratum_authorize fuel loads dumps junk (cf_stratum c) (cf_rpc_user c) (cf_rpc_pass c) (m_st m) of
                  None \<Rightarrow> None
                | Some (ok, st) \<Rightarrow> Some (ok, m\<lparr>m_st := st\<rparr>)))"

fun stratum_connect_loop :: "nat \<Rightarrow> config \<Rightarrow> (string \<Rightarrow> json option) \<Rightarrow> (json \<Rightarrow> string) \<Rightarrow> (nat \<Rightarrow> u8) \<Rightarrow> int \<Rightarrow>
    (bool \<times> bool) list \<Rightarrow> miner \<Rightarrow> (s_result \<times> miner) option" where
  "stratum_connect_loop fuel c loads dumps junk failures [] m = Some (if s_curl (m_sctx m) then S_next else S_wait, m)"
| "stratum_connect_loop fuel c loads dumps junk failures (conn # conns) m =
    (if s_curl (m_sctx m) then Some (S_next, m)
     else case stratum_attempt fuel c loads dumps junk conn (restart_threads c (set_g_work_time 0 m)) of
       None \<Rightarrow> None
     | Some (ok, m) \<Rightarrow>
         let m = (if ok then m else set_sctx (stratum_disconnect (m_sctx m)) m);
             failures = (if \<not> ok \<and> cf_retries c \<ge> 0 then failures + 1 else failures)
         in if \<not> ok \<and> cf_retries c \<ge> 0 \<and> failures > cf_retries c then Some (S_exit, m)
            else
              let m = (if jsonrpc_2 c then set_g_work (work_copy (s_work (m_sctx m))) m else m)
              in stratum_connect_loop fuel c loads dumps junk failures conns m)"

text \<open>A new job becomes the global work; a job that asks for it makes the threads start over.\<close>

definition stratum_new_job :: "config \<Rightarrow> int \<Rightarrow> miner \<Rightarrow> miner option" where
  "stratum_new_job c now m =
    (case j_job_id (s_job (m_sctx m)) of
       None \<Rightarrow> Some m
     | Some jid \<Rightarrow>
         (case (if st_g_work_time (m_st m) = 0 then Some True
                else map_option (\<lambda>g. g \<noteq> jid) (w_job_id (m_g_work m))) of
            None \<Rightarrow> None
          | Some False \<Rightarrow> Some m
          | Some True \<Rightarrow>
              (case stratum_gen_work c (m_g_work m) m of
                 None \<Rightarrow> None
               | Some (g, m) \<Rightarrow>
                   let m = set_g_work_time now (set_g_work g m)
                   in Some (if j_clean (s_job (m_sctx m)) \<or> jsonrpc_2 c then restart_threads c m else m))))"

definition stratum_receive :: "config \<Rightarrow> (string \<Rightarrow> json option) \<Rightarrow> (json \<Rightarrow> string) \<Rightarrow> (nat \<Rightarrow> u8) \<Rightarrow> miner \<Rightarrow> miner option" where
  "stratum_receive c loads dumps junk m =
    (case (if s_sockbuf (m_sctx m) \<noteq> [] then (True, st_io (m_st m)) else socket_full (st_io (m_st m))) of (full, io) \<Rightarrow>
      let m = set_io io m in
      case (if full then recv_line (m_sctx m) (st_io (m_st m)) else (None, m_sctx m, st_io (m_st m))) of (line, sctx, io) \<Rightarrow>
        let m = set_io io (set_sctx sctx m) in
        case line of
          None \<Rightarrow> Some (set_sctx (stratum_disconnect (m_sctx m)) m)
        | Some s \<Rightarrow>
            (case stratum_handle_method loads dumps junk (cf_stratum c) s (m_st m) of
               None \<Rightarrow> None
             | Some (True, st) \<Rightarrow> Some (m\<lparr>m_st := st\<rparr>)
             | Some (False, st) \<Rightarrow> map_option snd (stratum_handle_response c loads s (m\<lparr>m_st := st\<rparr>))))"

definition stratum_round :: "nat \<Rightarrow> config \<Rightarrow> (string \<Rightarrow> json option) \<Rightarrow> (json \<Rightarrow> string) \<Rightarrow> (nat \<Rightarrow> u8) \<Rightarrow> int \<Rightarrow>
    (bool \<times> bool) list \<Rightarrow> miner \<Rightarrow> (s_result \<times> miner) option" where
  "stratum_round fuel c loads dumps junk now conns m =
    (case stratum_connect_loop fuel c loads dumps junk 0 conns (stratum_reset c m) of
       None \<Rightarrow> None
     | Some (S_next, m) \<Rightarrow>
         (case stratum_new_job c now m of
            None \<Rightarrow> None
          | Some m \<Rightarrow> map_option (\<lambda>m. (S_next, m)) (stratum_receive c loads dumps junk m))
     | Some (r, m) \<Rightarrow> Some (r, m))"

section \<open>Long polling\<close>

text \<open>The address to poll: a full address is used as it is, a path is put behind the server's address.\<close>

definition longpoll_url :: "string \<Rightarrow> string \<Rightarrow> string option" where
  "longpoll_url rpc_url hdr_path =
    (if strstr hdr_path ''://'' \<noteq> None then Some hdr_path
     else if rpc_url = [] then None
     else
       let copy_start = (case hdr_path of ch # cs \<Rightarrow> if ch = CHR 0x2F then cs else hdr_path | [] \<Rightarrow> [])
       in Some (rpc_url @ (if last rpc_url \<noteq> CHR 0x2F then ''/'' else []) @ copy_start))"

datatype lp_result = LP_next | LP_exit | LP_start | LP_deadlock

text \<open>The polling request: the answer of the request before it is dropped. \<open>lp_call\<close> is a call to the polling
  address. A round that finds no login id goes on with the login lock held.\<close>

definition longpoll_request :: "config \<Rightarrow> (string \<Rightarrow> json option) \<Rightarrow> (json \<Rightarrow> string) \<Rightarrow> http \<Rightarrow> http \<Rightarrow> int \<Rightarrow> miner \<Rightarrow>
    (json option \<times> int \<times> miner) option" where
  "longpoll_request c loads dumps call lp_call err0 m =
    (if jsonrpc_2 c then
       rpc2_call c loads dumps call JSON_RPC_LONGPOLL (snprintf 128 (getjob_req (r_id (st_rpc2 (m_st m))))) err0 m
     else case (if m_have_gbt m then map_option gbt_lp_req (m_lp_id m) else Some getwork_req) of
       None \<Rightarrow> None
     | Some req \<Rightarrow>
         (case rpc_call call JSON_RPC_LONGPOLL getwork_req m of (_, _, m) \<Rightarrow> Some (rpc_call lp_call JSON_RPC_LONGPOLL req m)))"

definition longpoll_result :: "config \<Rightarrow> (nat \<Rightarrow> u8) \<Rightarrow> int \<Rightarrow> json \<Rightarrow> miner \<Rightarrow> miner option" where
  "longpoll_result c junk now val m =
    (let res = json_object_get (Some val) ''result'';
         m = (if jsonrpc_2 c then m else m\<lparr>m_submit_old := json_is_true (json_object_get res ''submitold'')\<rparr>);
         start_job_id = w_job_id (m_g_work m)
     in case (if m_have_gbt m then gbt_work_decode c junk res (m_g_work m) m else work_decode c res (m_g_work m) m) of
          None \<Rightarrow> None
        | Some (rc, g, m) \<Rightarrow>
            let m = set_g_work g m in
            if \<not> rc then Some m
            else (case (w_job_id g, start_job_id) of
              (Some jid, None) \<Rightarrow> None
            | (j, s) \<Rightarrow>
                if (j \<noteq> None \<and> j \<noteq> s) \<or> \<not> deq dbl_zero (m_net_diff m)
                then Some (restart_threads c (set_g_work_time now m)) else Some m))"

definition CURLE_OPERATION_TIMEDOUT :: int where "CURLE_OPERATION_TIMEDOUT = 28"

definition longpoll_round :: "config \<Rightarrow> (string \<Rightarrow> json option) \<Rightarrow> (json \<Rightarrow> string) \<Rightarrow> http \<Rightarrow> http \<Rightarrow> (nat \<Rightarrow> u8) \<Rightarrow> int \<Rightarrow> int \<Rightarrow>
    miner \<Rightarrow> (lp_result \<times> miner) option" where
  "longpoll_round c loads dumps call lp_call junk err0 now m =
    (if jsonrpc_2 c \<and> r_id (st_rpc2 (m_st m)) = [] then Some (LP_deadlock, m)
     else case longpoll_request c loads dumps call lp_call err0 m of
       None \<Rightarrow> None
     | Some (val, err, m) \<Rightarrow>
         if m_have_stratum m then Some (LP_exit, m)
         else (case val of
           Some v \<Rightarrow> map_option (\<lambda>m. (LP_next, m)) (longpoll_result c junk now v m)
         | None \<Rightarrow>
             let m = set_g_work_time (st_g_work_time (m_st m) - LP_SCANTIME) m in
             if err = CURLE_OPERATION_TIMEDOUT then Some (LP_next, restart_threads c m)
             else Some (LP_start, restart_threads c (m\<lparr>m_have_longpoll := False\<rparr>))))"

end
