(* ===== verification/Upstream_Inv.thy ===== *)
theory Upstream_Inv
  imports Threads
begin

text \<open>
  What every server can do to the state: the interface of the HTTP client as a locale, and the proof
  that fetching, decoding and submitting work keep the state well formed whatever the client returns.
\<close>

section \<open>Decoding keeps the layout\<close>

lemma work_wf_update [simp]:
  "work_wf w \<Longrightarrow> length d = 48 \<Longrightarrow> work_wf (w\<lparr>w_data := d\<rparr>)"
  "work_wf w \<Longrightarrow> length t = 8 \<Longrightarrow> work_wf (w\<lparr>w_target := t\<rparr>)"
  "work_wf (w\<lparr>w_targetdiff := e\<rparr>) = work_wf w" "work_wf (w\<lparr>w_txs := x\<rparr>) = work_wf w"
  "work_wf (w\<lparr>w_workid := x\<rparr>) = work_wf w" "work_wf (w\<lparr>w_height := h\<rparr>) = work_wf w"
  by (cases "w_xnonce2 w"; simp add: work_wf_def)+

lemma work_wf_lengths: "work_wf w \<Longrightarrow> length (w_data w) = 48" "work_wf w \<Longrightarrow> length (w_target w) = 8"
  by (simp_all add: work_wf_def)

lemma rpc2_login_wf:
  assumes "rpc2_login jr val g r = Some (rc, g', r')" "work_wf g" "rpc2_wf r"
  shows "work_wf g' \<and> rpc2_wf r'"
proof -
  have l: "rpc2_wf (snd (rpc2_login_decode val r))"
    using assms(3) by (auto simp: rpc2_login_decode_def rpc2_wf_def Let_def split: option.splits)
  show ?thesis
    using assms l rpc2_job_decode_layout [OF l assms(2)]
    by (fastforce simp: rpc2_login_def Let_def split: if_splits prod.splits option.splits)
qed

lemma json_rpc2_call_inv:
  assumes "\<And>req st. P st \<Longrightarrow> P (snd (call req st))" "\<And>st. P st \<Longrightarrow> P (login st)" "P st"
  shows "P (snd (json_rpc2_call call login rid req st))"
proof -
  have "P (snd (json_rpc2_call_recur call login rid n req st))" if "P st" for n req st
    using that
  proof (induction n arbitrary: req st)
    case (Suc n)
    define req' where "req' = rpc2_set_id req (rid st)"
    obtain res st1 where c: "call req' st = (res, st1)" by fastforce
    have "P st1" using assms(1) [OF Suc.prems, of req'] by (simp add: c)
    moreover have "P (snd (json_rpc2_call_recur call login rid n req' (login st1)))"
      using Suc.IH assms(2) calculation by blast
    ultimately show ?case using Suc.prems by (simp add: c Let_def split: option.splits flip: req'_def)
  qed simp
  then show ?thesis using assms(3) by (simp only: json_rpc2_call_def)
qed

lemma length_fold_update: "length (fold (\<lambda>i d. d[f i := g i d]) is d) = length d"
  by (induction "is" arbitrary: d) simp_all

lemma work_decode_wf:
  assumes "work_decode c val w m = Some (rc, w', m')" "work_wf w" "miner_wf m"
  shows "work_wf w' \<and> miner_wf m'"
proof (cases "jsonrpc_2 c")
  case True
  then obtain v r where d: "rpc2_job_decode True val (Some w) (st_rpc2 (m_st m)) = Some (rc, v, r)" "w' = the v" "m' = set_rpc2 r m"
    using assms(1) by (auto simp: work_decode_def split: option.splits)
  then show ?thesis
    using rpc2_job_decode_layout [OF _ assms(2) d(1)] assms(3) by (auto simp: miner_wf_def state_wf_def set_rpc2_def)
next
  case False
  let ?n = "if cf_use_roots c then 144 else 128"
  obtain ok1 b1 where j1: "jobj_binary val ''data'' ?n = (ok1, b1)" by fastforce
  obtain ok2 b2 where j2: "jobj_binary val ''target'' 32 = (ok2, b2)" by fastforce
  have "length b1 \<le> 144" "length b2 \<le> 32"
    using jobj_binary_length [of val "''data''" ?n] jobj_binary_length [of val "''target''" 32] by (auto simp: j1 j2 split: if_splits)
  then have len: "length (memcpy_words (w_data w) b1) = 48" "length (memcpy_words (w_target w) b2) = 8"
    using assms(2) by (simp_all add: work_wf_def)
  note dec = assms(1) [unfolded work_decode_def Let_def j1 j2 prod.case, simplified False if_False]
  show ?thesis
  proof (cases "ok1 \<and> ok2")
    case True
    obtain d t e where w': "w' = w\<lparr>w_data := d, w_target := t, w_targetdiff := e\<rparr>" "length d = 48" "length t = 8"
      using dec True len by (auto simp: length_fold_update)
    obtain x m1 where "m' = set_stratum_diff x m1" "m_st m1 = m_st m" using dec True by (auto split: if_splits)
    then have "miner_wf m'" using assms(3) by (simp add: miner_wf_def [of m1] miner_wf_def [of m])
    then show ?thesis using w' assms(2) by simp
  next
    case fails: False
    then show ?thesis using dec len assms(2,3) by (cases ok1) auto
  qed
qed

lemma gbt_coinbase_state: "gbt_coinbase_tx c junk val f h m = Some (tx, m') \<Longrightarrow> m_st m' = m_st m"
  by (auto simp: gbt_coinbase_tx_def Let_def split: option.splits if_splits prod.splits)

lemma gbt_assemble_state: "gbt_assemble val f v p t b ss cb w m = (rc, w', m') \<Longrightarrow> m' = m"
  by (auto simp: gbt_assemble_def gbt_target_def Let_def split: prod.splits option.splits if_splits)

lemma gbt_template_state: "gbt_template c junk val f v w m = Some (rc, w', m') \<Longrightarrow> m_st m' = m_st m"
  unfolding gbt_template_def
  by (clarsimp split: prod.splits if_splits option.splits json.splits; (drule gbt_assemble_state)?; drule gbt_coinbase_state; simp)

lemma gbt_st:
  assumes "gbt_work_decode c junk val w m = Some (rc, w', m')"
  shows "m_st m' = m_st m"
proof -
  obtain m1 where b: "gbt_body c junk val w m = Some (rc, w', m1)" "m' = gbt_longpoll c val m1"
    using assms by (auto simp: gbt_work_decode_def)
  have "m_st m1 = m_st m"
    using b(1) unfolding gbt_body_def Let_def
    by (clarsimp split: prod.splits option.splits json.splits simp: gbt_template_state)
  then show ?thesis by (simp add: b(2) gbt_longpoll_def Let_def split: option.splits json.splits)
qed

lemma gbt_header_length: "length data = 48 \<Longrightarrow> length (gbt_header v p rt t b data) = 48"
  by (simp add: gbt_header_layout header_padding_def)

lemma gbt_target_work: "gbt_target val w m = (rc, w', m') \<Longrightarrow> work_wf w \<Longrightarrow> work_wf w'"
  by (auto simp: gbt_target_def Let_def length_fold_update work_wf_lengths split: prod.splits option.splits if_splits)

lemma gbt_assemble_work: "gbt_assemble val f v p t b ss cb w m = (rc, w', m') \<Longrightarrow> work_wf w \<Longrightarrow> work_wf w'"
  by (auto simp: gbt_assemble_def Let_def gbt_header_length work_wf_lengths split: prod.splits option.splits dest!: gbt_target_work)

lemma gbt_template_work: "gbt_template c junk val f v w m = Some (rc, w', m') \<Longrightarrow> work_wf w \<Longrightarrow> work_wf w'"
  unfolding gbt_template_def
  by (clarsimp split: prod.splits if_splits option.splits json.splits simp: gbt_assemble_work)

lemma gbt_wf:
  assumes "gbt_work_decode c junk val w m = Some (rc, w', m')" "work_wf w" "miner_wf m"
  shows "work_wf w' \<and> miner_wf m'"
proof -
  obtain m1 where "gbt_body c junk val w m = Some (rc, w', m1)" using assms(1) by (auto simp: gbt_work_decode_def)
  then have "work_wf w'"
    using assms(2) unfolding gbt_body_def Let_def
    by (clarsimp split: prod.splits option.splits json.splits simp: gbt_template_work)
  then show ?thesis using gbt_st [OF assms(1)] assms(3) by (simp add: miner_wf_def)
qed

section \<open>Results and submissions\<close>

text \<open>A result whose work and state are well formed, with a rule for each form of branching.\<close>

definition wf_result :: "(bool \<times> work \<times> miner) option \<Rightarrow> bool" where
  "wf_result r \<longleftrightarrow> (\<forall>rc w m. r = Some (rc, w, m) \<longrightarrow> work_wf w \<and> miner_wf m)"

lemma wf_result_if: "(b \<Longrightarrow> wf_result x) \<Longrightarrow> (\<not> b \<Longrightarrow> wf_result y) \<Longrightarrow> wf_result (if b then x else y)"
  by simp

lemma wf_result_Some: "work_wf w \<Longrightarrow> miner_wf m \<Longrightarrow> wf_result (Some (rc, w, m))"
  by (simp add: wf_result_def)

lemma wf_result_case:
  "(x = None \<Longrightarrow> wf_result a) \<Longrightarrow> (\<And>y. x = Some y \<Longrightarrow> wf_result (f y)) \<Longrightarrow> wf_result (case x of None \<Rightarrow> a | Some y \<Rightarrow> f y)"
  by (simp split: option.split)

lemma wf_result_case3:
  "(x = None \<Longrightarrow> wf_result a) \<Longrightarrow> (\<And>u v t. x = Some (u, v, t) \<Longrightarrow> wf_result (f u v t)) \<Longrightarrow>
    wf_result (case x of None \<Rightarrow> a | Some (u, v, t) \<Rightarrow> f u v t)"
  by (simp split: option.split prod.split)

lemma wf_result_None: "wf_result None"
  by (simp add: wf_result_def)

lemmas wf_results = wf_result_if wf_result_Some wf_result_case3 wf_result_None

lemma work0_wf: "work_wf work0"
  by (simp add: work_wf_def work0_def)

lemma share_result_st: "share_result c ok w m = Some m' \<Longrightarrow> m_st m' = m_st m"
  by (auto simp: share_result_def Let_def split: option.splits if_splits)

lemma share_result_wf: "share_result c ok w m = Some m' \<Longrightarrow> miner_wf m' = miner_wf m"
  by (simp add: miner_wf_def share_result_st)

lemma retry_inv:
  assumes "retry fuel retries failures f s = Some (b, s')" "P s" "\<And>s b s'. f s = Some (b, s') \<Longrightarrow> P s \<Longrightarrow> P s'"
  shows "P s'"
  using assms(1,2)
proof (induction fuel arbitrary: failures s)
  case (Suc fuel)
  then obtain r s1 where f: "f s = Some (r, s1)" by (auto split: option.splits)
  then have "P s1" using assms(3) Suc.prems(2) by blast
  with f Suc show ?case by (auto split: bool.splits if_splits)
qed simp

lemma submit_stratum_wf:
  assumes "submit_stratum c junk w m = Some (rc, w', m')" "work_wf w" "miner_wf m"
  shows "work_wf w' \<and> miner_wf m'"
proof -
  have "stratum_wf ((m_sctx m)\<lparr>s_sharediff := d\<rparr>)" for d using assms(3) by (simp add: miner_wf_def state_wf_def stratum_wf_def)
  then show ?thesis using assms by (auto simp: submit_stratum_def Let_def split: option.splits prod.splits)
qed

lemma words_of_le32enc: "words_of_bytes (concat (map le32enc ws)) = ws"
  using words_of_bytes_of_words [of ws] by (simp add: bytes_of_words_def)

section \<open>The HTTP client\<close>

text \<open>What the threads rely on: a call touches neither the connection, the login and the global work, nor
  \<^verbatim>\<open>have_gbt\<close>.\<close>

locale http_client =
  fixes call :: http
  assumes call_st: "m_st (snd (snd (call flags req m))) = m_st m"
    and call_gbt: "m_have_gbt (snd (snd (call flags req m))) = m_have_gbt m"
begin

lemma keeps_gbt_call: "keeps_gbt call"
  by (simp add: keeps_gbt_def call_gbt)

lemma rpc_call_st: "rpc_call call flags req m = (v, e, m') \<Longrightarrow> m_st m' = m_st m"
  using call_st [of flags req "m\<lparr>m_calls := m_calls m @ [req]\<rparr>"] by (simp add: rpc_call_def)

lemma rpc_call_wf: "rpc_call call flags req m = (v, e, m') \<Longrightarrow> miner_wf m' = miner_wf m"
  by (simp add: miner_wf_def rpc_call_st)

lemma mininginfo_fields_st: "m_st (mininginfo_fields res m) = m_st m"
  by (simp add: mininginfo_fields_def Let_def)

lemma mininginfo_st: "m_st (snd (snd (get_mininginfo c call w m))) = m_st m"
proof -
  obtain v e m1 where rc: "rpc_call call 0 info_req m = (v, e, m1)" by (metis surj_pair)
  show ?thesis
    using rpc_call_st [OF rc] by (simp add: get_mininginfo_def rc Let_def mininginfo_fields_st restart_threads_def split: option.split)
qed

lemma mininginfo_wf:
  assumes "get_mininginfo c call w m = (b, w', m')" "work_wf w" "miner_wf m"
  shows "work_wf w' \<and> miner_wf m'"
proof -
  have "m_st m' = m_st m" using mininginfo_st [of c w m] assms(1) by simp
  moreover have "work_wf w'"
    using assms(1,2) by (auto simp: get_mininginfo_def Let_def split: prod.splits option.splits if_splits)
  ultimately show ?thesis using assms(3) by (simp add: miner_wf_def)
qed

lemma rpc2_login_call_wf:
  assumes "rpc2_login_call c call m = Some (rc, m')" "miner_wf m" shows "miner_wf m'"
proof (cases "jsonrpc_2 c")
  case True
  obtain val e m1 where r: "rpc_call call 0 (snprintf JSON_BUF_LEN (rpc2_login_req c)) m = (val, e, m1)" by (metis surj_pair)
  then obtain g r' where l: "rpc2_login True val (m_g_work m1) (st_rpc2 (m_st m1)) = Some (rc, g, r')" "m' = set_g_work g (set_rpc2 r' m1)"
    using assms(1) True by (auto simp: rpc2_login_call_def split: option.splits)
  have m1: "miner_wf m1" using rpc_call_wf [OF r] assms(2) by simp
  then have "work_wf (m_g_work m1)" "rpc2_wf (st_rpc2 (m_st m1))" by (simp_all add: miner_wf_def state_wf_def)
  from rpc2_login_wf [OF l(1) this] show ?thesis using m1 by (simp add: l(2))
qed (use assms in \<open>simp add: rpc2_login_call_def\<close>)

lemma rpc2_call_wf:
  assumes "rpc2_call c loads dumps call flags req err0 m = Some (v, err, m')" "miner_wf m" shows "miner_wf m'"
proof -
  let ?P = "\<lambda>st. \<forall>e m. st = Some (e, m) \<longrightarrow> miner_wf m"
  let ?call = "\<lambda>req st. case st of None \<Rightarrow> (None, None)
           | Some (_, m) \<Rightarrow> (case rpc_call call (flags OR JSON_RPC_IGNOREERR) (case req of None \<Rightarrow> [] | Some r \<Rightarrow> dumps r) m of
               (v, err, m) \<Rightarrow> (v, Some (err, m)))"
  let ?login = "\<lambda>st. Option.bind st (\<lambda>(err, m). map_option (\<lambda>(_, m). (err, m)) (rpc2_login_call c call m))"
  have eq: "json_rpc2_call ?call ?login (\<lambda>st. case st of None \<Rightarrow> [] | Some (_, m) \<Rightarrow> r_id (st_rpc2 (m_st m))) (loads req) (Some (err0, m)) =
      (v, Some (err, m'))"
    using assms(1) unfolding rpc2_call_def by (simp split: prod.splits option.splits)
  have c: "?P (snd (?call req st))" if "?P st" for req st
  proof (cases st)
    case (Some a)
    obtain e m v err m1 where "a = (e, m)"
      "rpc_call call (flags OR JSON_RPC_IGNOREERR) (case req of None \<Rightarrow> [] | Some r \<Rightarrow> dumps r) m = (v, err, m1)" by (metis surj_pair)
    then show ?thesis using that Some rpc_call_wf by simp
  qed simp
  have l: "?P (?login st)" if "?P st" for st
  proof (cases st)
    case (Some a)
    then show ?thesis using that rpc2_login_call_wf by (cases a) auto
  qed simp
  have "?P (snd (json_rpc2_call ?call ?login (\<lambda>st. case st of None \<Rightarrow> [] | Some (_, m) \<Rightarrow> r_id (st_rpc2 (m_st m))) (loads req) (Some (err0, m))))"
    by (rule json_rpc2_call_inv [where P = ?P and call = ?call and login = ?login and st = "Some (err0, m)", OF c l]) (use assms(2) in simp_all)
  then show ?thesis by (simp add: eq)
qed

lemma submit_gbt_wf:
  assumes "submit_gbt c dumps call txs w m = Some (rc, w', m')" "work_wf w" "miner_wf m"
  shows "work_wf w' \<and> miner_wf m'"
  using assms rpc_call_wf
  by (auto simp: submit_gbt_def Let_def words_of_be32enc work_wf_lengths share_result_wf split: prod.splits if_splits)

lemma submit_getwork_wf:
  assumes "submit_getwork c call w m = Some (rc, w', m')" "work_wf w" "miner_wf m"
  shows "work_wf w' \<and> miner_wf m'"
  using assms rpc_call_wf
  by (auto simp: submit_getwork_def Let_def words_of_le32enc work_wf_lengths share_result_wf split: prod.splits if_splits)

lemma submit_rpc2_wf:
  assumes "submit_rpc2 c loads dumps call junk w m = Some (rc, w', m')" "work_wf w" "miner_wf m"
  shows "work_wf w' \<and> miner_wf m'"
proof -
  have "work_wf (work_copy (m_g_work m))" if "miner_wf m" for m using that by (simp add: miner_wf_def state_wf_def)
  then show ?thesis
    using assms rpc2_call_wf
    by (fastforce simp: submit_rpc2_def Let_def share_result_wf split: prod.splits if_splits option.splits)
qed

lemma submit_upstream_work_wf:
  assumes "work_wf w" "miner_wf m"
  shows "wf_result (submit_upstream_work c loads dumps call junk wheight w m)"
proof -
  define m1 where "m1 = (if \<not> m_have_stratum m \<and> m_allow_mininginfo m then snd (snd (get_mininginfo c call wheight m)) else m)"
  have m1: "miner_wf m1" using assms(2) mininginfo_st [of c wheight m] by (simp add: miner_wf_def m1_def)
  have "wf_result (submit_stratum c junk w m1)" "\<And>txs. wf_result (submit_gbt c dumps call txs w m1)"
    "wf_result (submit_rpc2 c loads dumps call junk w m1)" "wf_result (submit_getwork c call w m1)"
    using submit_stratum_wf submit_gbt_wf submit_rpc2_wf submit_getwork_wf assms(1) m1 by (auto simp: wf_result_def)
  then show ?thesis
    unfolding submit_upstream_work_def Let_def m1_def [symmetric] using assms m1
    by (intro wf_result_if wf_result_Some wf_result_case)
qed

lemma upstream_request_wf:
  assumes "upstream_request c loads dumps call err0 m = Some (v, e, m')" "miner_wf m" shows "miner_wf m'"
  using assms rpc2_call_wf rpc_call_wf by (fastforce simp: upstream_request_def split: if_splits)

lemma mininginfo_result: "work_wf w \<Longrightarrow> miner_wf m \<Longrightarrow> wf_result (Some (rc, snd (get_mininginfo c call w m)))"
  using mininginfo_wf [of c w m] by (cases "get_mininginfo c call w m") (simp add: wf_result_Some)

lemma get_upstream_work_wf:
  assumes "work_wf w" "miner_wf m"
  shows "wf_result (get_upstream_work fuel c loads dumps call junk err0 w m)"
  using assms
proof (induction fuel arbitrary: w m)
  case (Suc fuel)
  show ?case
    unfolding get_upstream_work.simps
  proof (rule wf_result_case3)
    fix val err m1 assume r: "upstream_request c loads dumps call err0 m = Some (val, err, m1)"
    have m1: "miner_wf m1" "miner_wf (m1\<lparr>m_have_gbt := False\<rparr>)" using upstream_request_wf [OF r Suc.prems(2)] by (simp_all add: miner_wf_def)
    note gbt = gbt_wf [OF _ Suc.prems(1) m1(1)] and getwork = work_decode_wf [OF _ Suc.prems(1) m1(1)]
    let ?again = "get_upstream_work fuel c loads dumps call junk err0"
    have g: "wf_result (?again w2 m2)" "wf_result (Some (rc2, snd (get_mininginfo c call w2 m2)))"
      if "gbt_work_decode c junk (json_object_get val ''result'') w m1 = Some (rc2, w2, m2)" for rc2 w2 m2
      using gbt [OF that] Suc.IH mininginfo_result by blast+
    have d: "wf_result (Some (rc2, snd (get_mininginfo c call w2 m2)))"
      if "work_decode c (json_object_get val ''result'') w m1 = Some (rc2, w2, m2)" for rc2 w2 m2
      using getwork [OF that] mininginfo_result by blast
    show "wf_result
       (if m_have_stratum m1 then Some (True, w, m1)
         else if \<not> m_have_gbt m1 \<and> \<not> cf_allow_getwork c then Some (False, w, m1)
         else if m_have_gbt m1 \<and> cf_allow_getwork c \<and> val = None \<and> err = 0 then ?again w (m1\<lparr>m_have_gbt := False\<rparr>)
         else if val = None then Some (False, w, m1)
         else if m_have_gbt m1 then
           (case gbt_work_decode c junk (json_object_get val ''result'') w m1 of
              None \<Rightarrow> None
            | Some (rc, w, m) \<Rightarrow> if \<not> m_have_gbt m then ?again w m else Some (rc, snd (get_mininginfo c call w m)))
         else
           (case work_decode c (json_object_get val ''result'') w m1 of
              None \<Rightarrow> None
            | Some (rc, w, m) \<Rightarrow> Some (rc, snd (get_mininginfo c call w m))))"
      using Suc.prems m1 Suc.IH [OF Suc.prems(1) m1(2)]
      by (intro wf_result_if wf_result_case3) (assumption | rule wf_result_Some wf_result_None | erule g | erule d)+
  qed (rule wf_result_None)
qed (simp add: wf_result_None)

text \<open>A request of a thread is served: the work that is handed out and the state are well formed.\<close>

lemma workio_get_work_wf:
  assumes "workio_get_work fuel c loads dumps call junk err0 thr wi = Some (rc, wi')" "miner_wf (wi_miner wi)"
    "\<forall>(thr, w) \<in> set (wi_out wi). work_wf w"
  shows "miner_wf (wi_miner wi') \<and> (\<forall>(thr, w) \<in> set (wi_out wi'). work_wf w)"
proof -
  let ?f = "\<lambda>(w, m). map_option (\<lambda>(rc, w, m). (rc, (w, m))) (get_upstream_work 2 c loads dumps call junk err0 w m)"
  let ?P = "\<lambda>(w, m). work_wf w \<and> miner_wf m"
  obtain b w m where r: "retry fuel (cf_retries c) 0 ?f (work0, wi_miner wi) = Some (b, (w, m))"
    using assms(1) by (auto simp: workio_get_work_def split: option.splits)
  have "?P s'" if "?f s = Some (b, s')" "?P s" for s b s'
    using that get_upstream_work_wf [of "fst s" "snd s" 2 c loads dumps junk err0]
    by (auto simp: wf_result_def case_prod_beta simp del: get_upstream_work.simps)
  from retry_inv [where P = ?P, OF r _ this] have "work_wf w" "miner_wf m" using assms(2) work0_wf by simp_all
  then show ?thesis using assms(1,3) unfolding workio_get_work_def r by (auto split: bool.splits if_splits)
qed

lemma workio_submit_work_wf:
  assumes "workio_submit_work fuel c loads dumps call junk wheight w wi = Some (rc, wi')" "miner_wf (wi_miner wi)" "work_wf w"
  shows "miner_wf (wi_miner wi')"
proof -
  let ?f = "\<lambda>(w, m). map_option (\<lambda>(rc, w, m). (rc, (w, m))) (submit_upstream_work c loads dumps call junk wheight w m)"
  let ?P = "\<lambda>(w, m). work_wf w \<and> miner_wf m"
  obtain b w' m where r: "retry fuel (cf_retries c) 0 ?f (w, wi_miner wi) = Some (b, (w', m))" "wi' = wi\<lparr>wi_miner := m\<rparr>"
    using assms(1) by (auto simp: workio_submit_work_def)
  have "?P s'" if "?f s = Some (b, s')" "?P s" for s b s'
    using that submit_upstream_work_wf [of "fst s" "snd s" c loads dumps junk wheight] by (auto simp: wf_result_def case_prod_beta)
  from retry_inv [where P = ?P, OF r(1) _ this] show ?thesis using assms(2,3) r(2) by simp
qed

end

end
