(* ===== verification/Utf8.thy ===== *)
theory Utf8
  imports Json
begin

text \<open>
  The UTF-8 routines of the bundled Jansson library (\<^verbatim>\<open>compat/jansson/utf.c\<close>) and the constructor
  \<^verbatim>\<open>json_string\<close> that uses them: a text becomes a JSON string only if it is the encoding of a
  sequence of Unicode scalar values.
\<close>

section \<open>Definitions\<close>

text \<open>The bytes of a code point; negative and too large ones are refused, surrogates are not.\<close>

definition utf8_encode :: "int \<Rightarrow> string option" where
  "utf8_encode codepoint =
    (if codepoint < 0 then None
     else let cp = nat codepoint in
       if cp < 0x80 then Some [chr cp]
       else if cp < 0x800 then Some [chr (0xC0 + drop_bit 6 (cp AND 0x7C0)), chr (0x80 + (cp AND 0x03F))]
       else if cp < 0x10000 then
         Some [chr (0xE0 + drop_bit 12 (cp AND 0xF000)), chr (0x80 + drop_bit 6 (cp AND 0x0FC0)), chr (0x80 + (cp AND 0x003F))]
       else if cp \<le> 0x10FFFF then
         Some [chr (0xF0 + drop_bit 18 (cp AND 0x1C0000)), chr (0x80 + drop_bit 12 (cp AND 0x03F000)),
               chr (0x80 + drop_bit 6 (cp AND 0x000FC0)), chr (0x80 + (cp AND 0x00003F))]
       else None)"

definition utf8_check_first :: "char \<Rightarrow> nat" where
  "utf8_check_first byte =
    (let u = code byte in
     if u < 0x80 then 1
     else if 0x80 \<le> u \<and> u \<le> 0xBF then 0
     else if u = 0xC0 \<or> u = 0xC1 then 0
     else if 0xC2 \<le> u \<and> u \<le> 0xDF then 2
     else if 0xE0 \<le> u \<and> u \<le> 0xEF then 3
     else if 0xF0 \<le> u \<and> u \<le> 0xF4 then 4
     else 0)"

text \<open>The loop over the continuation bytes of a sequence.\<close>

fun utf8_cont :: "string \<Rightarrow> nat \<Rightarrow> nat option" where
  "utf8_cont [] value = Some value"
| "utf8_cont (ch # bs) value =
    (if code ch < 0x80 \<or> code ch > 0xBF then None else utf8_cont bs (push_bit 6 value + (code ch AND 0x3F)))"

text \<open>The code point of a sequence of \<open>count\<close> bytes, or \<open>None\<close> when it is not well formed.\<close>

definition utf8_check_full :: "string \<Rightarrow> nat \<Rightarrow> nat option" where
  "utf8_check_full buffer count =
    (let u = code (buffer ! 0) in
     if count \<noteq> 2 \<and> count \<noteq> 3 \<and> count \<noteq> 4 then None
     else case utf8_cont (take (count - 1) (drop 1 buffer))
         (if count = 2 then u AND 0x1F else if count = 3 then u AND 0xF else u AND 0x7) of
       None \<Rightarrow> None
     | Some value \<Rightarrow>
         if value > 0x10FFFF then None
         else if 0xD800 \<le> value \<and> value \<le> 0xDFFF then None
         else if count = 2 \<and> value < 0x80 \<or> count = 3 \<and> value < 0x800 \<or> count = 4 \<and> value < 0x10000 then None
         else Some value)"

text \<open>One step of an iteration: the rest of the buffer and the code point. A terminated buffer is not read past
  its end, because the terminator is no continuation byte.\<close>

definition utf8_iterate :: "string \<Rightarrow> (string \<times> nat option) option" where
  "utf8_iterate buffer =
    (case buffer of
       [] \<Rightarrow> Some ([], None)
     | ch # bs \<Rightarrow>
         let count = utf8_check_first ch in
         if count \<le> 0 then None
         else if count = 1 then Some (bs, Some (code ch))
         else if length buffer < count then None
         else (case utf8_check_full buffer count of
             None \<Rightarrow> None
           | Some value \<Rightarrow> Some (drop count buffer, Some value)))"

function utf8_check_string :: "string \<Rightarrow> bool" where
  "utf8_check_string s =
    (case s of
       [] \<Rightarrow> True
     | ch # bs \<Rightarrow>
         let count = utf8_check_first ch in
         if count = 0 then False
         else if count > 1 then
           if count > length s then False
           else if utf8_check_full s count = None then False
           else utf8_check_string (drop count s)
         else utf8_check_string bs)"
  by auto
termination
  by (relation "measure length") auto

declare utf8_check_string.simps [simp del]

definition json_string :: "string option \<Rightarrow> json option" where
  "json_string value =
    (case value of None \<Rightarrow> None | Some s \<Rightarrow> if \<not> utf8_check_string s then None else Some (JString s))"

section \<open>Well formed text\<close>

text \<open>A scalar value is a code point that is no surrogate.\<close>

definition scalar_value :: "nat \<Rightarrow> bool" where
  "scalar_value v \<longleftrightarrow> v \<le> 0x10FFFF \<and> \<not> (0xD800 \<le> v \<and> v \<le> 0xDFFF)"

definition utf8_of :: "nat \<Rightarrow> string" where
  "utf8_of v = the (utf8_encode (int v))"

lemma and_masks:
  fixes x :: nat
  shows "x AND 7 = x mod 8" "x AND 15 = x mod 16" "x AND 31 = x mod 32" "x AND 63 = x mod 64"
  using take_bit_eq_mask [of 3 x] take_bit_eq_mask [of 4 x] take_bit_eq_mask [of 5 x] take_bit_eq_mask [of 6 x]
  by (simp_all add: take_bit_eq_mod mask_eq_exp_minus_1)

lemma base64_split:
  fixes v :: nat
  shows "v = 4096 * (v div 4096) + 64 * (v div 64 mod 64) + v mod 64"
    "v = 262144 * (v div 262144) + 4096 * (v div 4096 mod 64) + 64 * (v div 64 mod 64) + v mod 64"
proof -
  have q: "v div 4096 = v div 64 div 64" "v div 262144 = v div 64 div 64 div 64" by (simp_all add: div_mult2_eq [symmetric])
  note m = mult_div_mod_eq [of 64 v] mult_div_mod_eq [of 64 "v div 64"] mult_div_mod_eq [of 64 "v div 64 div 64"]
  show "v = 4096 * (v div 4096) + 64 * (v div 64 mod 64) + v mod 64" unfolding q using m(1,2) by linarith
  show "v = 262144 * (v div 262144) + 4096 * (v div 4096 mod 64) + 64 * (v div 64 mod 64) + v mod 64"
    unfolding q using m by linarith
qed

lemma base64_join:
  fixes a b d e :: nat
  assumes "b < 64" "d < 64" "e < 64"
  shows "(262144 * a + 4096 * b + 64 * d + e) mod 64 = e" "(262144 * a + 4096 * b + 64 * d + e) div 64 mod 64 = d"
    "(262144 * a + 4096 * b + 64 * d + e) div 4096 mod 64 = b"
proof -
  let ?v = "262144 * a + 4096 * b + 64 * d + e"
  have v: "?v = e + (d + (b + a * 64) * 64) * 64" by simp
  have d1: "?v div 64 = d + (b + a * 64) * 64" unfolding v using assms by (subst div_mult_self1) simp_all
  have d2: "?v div 4096 = b + a * 64"
  proof -
    have "?v div 4096 = ?v div 64 div 64" by (simp add: div_mult2_eq [symmetric])
    then show ?thesis unfolding d1 using assms by (subst (asm) div_mult_self1) simp_all
  qed
  show "?v mod 64 = e" unfolding v using assms by (subst mod_mult_self1) simp
  show "?v div 64 mod 64 = d" unfolding d1 using assms by (subst mod_mult_self1) simp
  show "?v div 4096 mod 64 = b" unfolding d2 using assms by (subst mod_mult_self1) simp
qed

lemma first_byte_bits:
  fixes a :: nat
  shows "a < 32 \<Longrightarrow> (192 + a) mod 32 = a" "a < 16 \<Longrightarrow> (224 + a) mod 16 = a" "a < 8 \<Longrightarrow> (240 + a) mod 8 = a"
    "a < 64 \<Longrightarrow> (128 + a) mod 64 = a"
  by (subst mod_add_left_eq [symmetric], simp)+

lemma utf8_of_cases:
  assumes "v \<le> 0x10FFFF"
  shows "utf8_of v =
    (if v < 0x80 then [chr v]
     else if v < 0x800 then [chr (0xC0 + v div 64), chr (0x80 + v mod 64)]
     else if v < 0x10000 then [chr (0xE0 + v div 4096), chr (0x80 + v div 64 mod 64), chr (0x80 + v mod 64)]
     else [chr (0xF0 + v div 262144), chr (0x80 + v div 4096 mod 64), chr (0x80 + v div 64 mod 64), chr (0x80 + v mod 64)])"
  using assms by (simp add: utf8_of_def utf8_encode_def and_masks Let_def) (simp add: drop_bit_eq_div div_less_iff_less_mult)

text \<open>Encoding a scalar value and decoding it gives the value back, whatever follows.\<close>

lemma utf8_iterate_encoded:
  assumes "scalar_value v"
  shows "utf8_iterate (utf8_of v @ s) = Some (s, Some v)"
proof -
  have v: "v \<le> 0x10FFFF" using assms by (simp add: scalar_value_def)
  consider "v < 0x80" | "0x80 \<le> v" "v < 0x800" | "0x800 \<le> v" "v < 0x10000" | "0x10000 \<le> v" by linarith
  then show ?thesis
  proof cases
    case 1
    then show ?thesis by (simp add: utf8_of_cases utf8_iterate_def utf8_check_first_def Let_def code_chr)
  next
    case 2
    define a b where "a = v div 64" and "b = v mod 64"
    have ab: "v = 64 * a + b" "b < 64" "2 \<le> a" "a < 32" using 2 by (simp_all add: a_def b_def div_less_iff_less_mult less_eq_div_iff_mult_less_eq)
    have "utf8_of v = [chr (192 + a), chr (128 + b)]" using 2 by (simp add: utf8_of_cases a_def b_def)
    then show ?thesis using 2 ab
      by (simp add: utf8_iterate_def utf8_check_first_def utf8_check_full_def Let_def push_bit_eq_mult and_masks first_byte_bits)
  next
    case 3
    define a b d where "a = v div 4096" and "b = v div 64 mod 64" and "d = v mod 64"
    have ab: "v = 4096 * a + 64 * b + d" "d < 64" "b < 64" "a < 16"
      using 3 base64_split [of v] by (simp_all add: a_def b_def d_def div_less_iff_less_mult)
    have "utf8_of v = [chr (224 + a), chr (128 + b), chr (128 + d)]" using 3 by (simp add: utf8_of_cases a_def b_def d_def)
    then show ?thesis using 3 ab assms
      by (simp add: utf8_iterate_def utf8_check_first_def utf8_check_full_def Let_def push_bit_eq_mult and_masks first_byte_bits scalar_value_def)
        (simp add: mult.commute)
  next
    case 4
    define a b d e where "a = v div 262144" and "b = v div 4096 mod 64" and "d = v div 64 mod 64" and "e = v mod 64"
    have ab: "v = 262144 * a + 4096 * b + 64 * d + e" "e < 64" "d < 64" "b < 64" "a < 5"
      using v base64_split [of v] by (simp_all add: a_def b_def d_def e_def div_less_iff_less_mult)
    have "utf8_of v = [chr (240 + a), chr (128 + b), chr (128 + d), chr (128 + e)]" using 4 v by (simp add: utf8_of_cases a_def b_def d_def e_def)
    then show ?thesis using 4 v ab
      by (simp add: utf8_iterate_def utf8_check_first_def utf8_check_full_def Let_def push_bit_eq_mult and_masks first_byte_bits)
  qed
qed

lemma cont_byte:
  assumes "128 \<le> code ch" "code ch \<le> 191"
  shows "\<exists>d. ch = chr (128 + d) \<and> d < 64"
  using assms by (intro exI [of _ "code ch - 128"]) auto

lemma utf8_check_first_cases:
  "utf8_check_first ch = 1 \<Longrightarrow> code ch < 128"
  "utf8_check_first ch = 2 \<Longrightarrow> \<exists>a. ch = chr (192 + a) \<and> a < 32"
  "utf8_check_first ch = 3 \<Longrightarrow> \<exists>a. ch = chr (224 + a) \<and> a < 16"
  "utf8_check_first ch = 4 \<Longrightarrow> \<exists>a. ch = chr (240 + a) \<and> a < 5"
  "utf8_check_first ch \<le> 4"
proof -
  show "utf8_check_first ch = 1 \<Longrightarrow> code ch < 128" "utf8_check_first ch \<le> 4"
    by (simp_all add: utf8_check_first_def Let_def split: if_splits)
  show "utf8_check_first ch = 2 \<Longrightarrow> \<exists>a. ch = chr (192 + a) \<and> a < 32"
    by (intro exI [of _ "code ch - 192"]) (auto simp: utf8_check_first_def Let_def split: if_splits)
  show "utf8_check_first ch = 3 \<Longrightarrow> \<exists>a. ch = chr (224 + a) \<and> a < 16"
    by (intro exI [of _ "code ch - 224"]) (auto simp: utf8_check_first_def Let_def split: if_splits)
  show "utf8_check_first ch = 4 \<Longrightarrow> \<exists>a. ch = chr (240 + a) \<and> a < 5"
    by (intro exI [of _ "code ch - 240"]) (auto simp: utf8_check_first_def Let_def split: if_splits)
qed

lemma utf8_full_2:
  assumes "utf8_check_full (ch # s) 2 = Some v" "utf8_check_first ch = 2" "1 \<le> length s"
  shows "scalar_value v \<and> take 2 (ch # s) = utf8_of v"
proof -
  obtain x s' where s: "s = x # s'" using assms(3) by (cases s) auto
  obtain a where a: "ch = chr (192 + a)" "a < 32" using utf8_check_first_cases(2) assms(2) by blast
  have "128 \<le> code x" "code x \<le> 191" using assms(1) by (auto simp: utf8_check_full_def s Let_def split: if_splits)
  then obtain b where b: "x = chr (128 + b)" "b < 64" using cont_byte by blast
  have "v = 64 * a + b" "128 \<le> v"
    using assms(1) a b by (simp_all add: utf8_check_full_def s Let_def push_bit_eq_mult and_masks first_byte_bits split: if_splits)
  then show ?thesis using a b by (simp add: scalar_value_def utf8_of_cases s)
qed

lemma utf8_full_3:
  assumes "utf8_check_full (ch # s) 3 = Some v" "utf8_check_first ch = 3" "2 \<le> length s"
  shows "scalar_value v \<and> take 3 (ch # s) = utf8_of v"
proof -
  obtain x y s' where s: "s = x # y # s'" using assms(3) by (cases s; cases "tl s") auto
  obtain a where a: "ch = chr (224 + a)" "a < 16" using utf8_check_first_cases(3) assms(2) by blast
  have "128 \<le> code x" "code x \<le> 191" "128 \<le> code y" "code y \<le> 191"
    using assms(1) by (auto simp: utf8_check_full_def s Let_def split: if_splits)
  then obtain b d where b: "x = chr (128 + b)" "b < 64" "y = chr (128 + d)" "d < 64" using cont_byte by metis
  have v: "v = 4096 * a + 64 * b + d" "2048 \<le> v" "scalar_value v"
    using assms(1) a b
    by (auto simp: utf8_check_full_def s Let_def push_bit_eq_mult and_masks first_byte_bits scalar_value_def split: if_splits)
  have "v mod 64 = d" "v div 64 mod 64 = b" using a b base64_join [of a b d 0] by (simp_all add: v(1))
  moreover have "v div 4096 = a" using b by (simp add: v(1))
  ultimately show ?thesis using a b v by (simp add: utf8_of_cases s)
qed

lemma utf8_full_4:
  assumes "utf8_check_full (ch # s) 4 = Some v" "utf8_check_first ch = 4" "3 \<le> length s"
  shows "scalar_value v \<and> take 4 (ch # s) = utf8_of v"
proof -
  obtain x y z s' where s: "s = x # y # z # s'" using assms(3) by (cases s; cases "tl s"; cases "tl (tl s)") auto
  obtain a where a: "ch = chr (240 + a)" "a < 5" using utf8_check_first_cases(4) assms(2) by blast
  have "128 \<le> code x" "code x \<le> 191" "128 \<le> code y" "code y \<le> 191" "128 \<le> code z" "code z \<le> 191"
    using assms(1) by (auto simp: utf8_check_full_def s Let_def split: if_splits)
  then obtain b d e where b: "x = chr (128 + b)" "b < 64" "y = chr (128 + d)" "d < 64" "z = chr (128 + e)" "e < 64" using cont_byte by metis
  have v: "v = 262144 * a + 4096 * b + 64 * d + e" "65536 \<le> v" "v \<le> 0x10FFFF"
    using assms(1) a b
    by (auto simp: utf8_check_full_def s Let_def push_bit_eq_mult and_masks first_byte_bits split: if_splits)
  have "v mod 64 = e" "v div 64 mod 64 = d" "v div 4096 mod 64 = b" using base64_join [of b d e a] b by (simp_all add: v(1))
  moreover have "v div 262144 = a" using b by (simp add: v(1))
  ultimately show ?thesis using a b v by (simp add: utf8_of_cases s scalar_value_def)
qed

lemma utf8_iterate_long:
  assumes "utf8_iterate (ch # s) = Some (r, v)" "utf8_check_first ch = k" "1 < k"
  shows "\<exists>u. v = Some u \<and> utf8_check_full (ch # s) k = Some u \<and> k \<le> length (ch # s) \<and> r = drop k (ch # s)"
  using assms by (auto simp: utf8_iterate_def Let_def split: if_splits option.splits) metis

lemma utf8_iterate_decoded:
  assumes "utf8_iterate (ch # s) = Some (r, v)"
  shows "\<exists>u. v = Some u \<and> scalar_value u \<and> ch # s = utf8_of u @ r"
proof -
  consider "utf8_check_first ch = 0" | "utf8_check_first ch = 1" | "utf8_check_first ch = 2" | "utf8_check_first ch = 3" | "utf8_check_first ch = 4"
    using utf8_check_first_cases(5) [of ch] by linarith
  then show ?thesis
  proof cases
    case 1
    then show ?thesis using assms by (simp add: utf8_iterate_def)
  next
    case 2
    then show ?thesis using assms utf8_check_first_cases(1) [OF 2] by (auto simp: utf8_iterate_def scalar_value_def utf8_of_cases)
  next
    case 3
    from utf8_iterate_long [OF assms 3] obtain u where u: "v = Some u" "utf8_check_full (ch # s) 2 = Some u" "2 \<le> length (ch # s)" "r = drop 2 (ch # s)" by auto
    then show ?thesis using utf8_full_2 [OF u(2) 3] by (metis Suc_1 Suc_le_mono One_nat_def append_take_drop_id length_Cons)
  next
    case 4
    from utf8_iterate_long [OF assms 4] obtain u where u: "v = Some u" "utf8_check_full (ch # s) 3 = Some u" "2 \<le> length s" "r = drop 3 (ch # s)" by auto
    then show ?thesis using utf8_full_3 [OF u(2) 4 u(3)] by (metis append_take_drop_id)
  next
    case 5
    from utf8_iterate_long [OF assms 5] obtain u where u: "v = Some u" "utf8_check_full (ch # s) 4 = Some u" "3 \<le> length s" "r = drop 4 (ch # s)" by auto
    then show ?thesis using utf8_full_4 [OF u(2) 5 u(3)] by (metis append_take_drop_id)
  qed
qed

lemma utf8_check_string_step:
  "utf8_check_string (ch # s) = (case utf8_iterate (ch # s) of None \<Rightarrow> False | Some (r, _) \<Rightarrow> utf8_check_string r)"
  by (subst utf8_check_string.simps) (auto simp: utf8_iterate_def Let_def split: option.split)

lemma utf8_of_nonempty: "v \<le> 0x10FFFF \<Longrightarrow> utf8_of v \<noteq> []"
  by (simp add: utf8_of_cases)

lemma utf8_iterate_shorter: "utf8_iterate (ch # s) = Some (r, v) \<Longrightarrow> length r \<le> length s"
  by (auto simp: utf8_iterate_def Let_def split: if_splits option.splits)

section \<open>The accepted texts\<close>

lemma utf8_check_string_scalars:
  "utf8_check_string s \<longleftrightarrow> (\<exists>vs. list_all scalar_value vs \<and> s = concat (map utf8_of vs))"
proof
  show "utf8_check_string s \<Longrightarrow> \<exists>vs. list_all scalar_value vs \<and> s = concat (map utf8_of vs)"
  proof (induction "length s" arbitrary: s rule: less_induct)
    case less
    show ?case
    proof (cases s)
      case (Cons ch t)
      with less.prems obtain r v where r: "utf8_iterate (ch # t) = Some (r, v)" "utf8_check_string r"
        by (auto simp: utf8_check_string_step split: option.splits)
      obtain u where u: "scalar_value u" "ch # t = utf8_of u @ r" using utf8_iterate_decoded [OF r(1)] by blast
      obtain vs where "list_all scalar_value vs" "r = concat (map utf8_of vs)"
        using less.hyps [OF _ r(2)] utf8_iterate_shorter [OF r(1)] by (auto simp: Cons)
      then show ?thesis using u by (intro exI [of _ "u # vs"]) (simp add: Cons)
    qed (auto intro: exI [of _ "[]"])
  qed
  assume "\<exists>vs. list_all scalar_value vs \<and> s = concat (map utf8_of vs)"
  then obtain vs where "list_all scalar_value vs" "s = concat (map utf8_of vs)" by blast
  then show "utf8_check_string s"
  proof (induction vs arbitrary: s)
    case (Cons v vs)
    obtain ch t where ct: "utf8_of v = ch # t"
      using utf8_of_nonempty [of v] Cons.prems(1) by (cases "utf8_of v") (auto simp: scalar_value_def)
    have "utf8_iterate (utf8_of v @ concat (map utf8_of vs)) = Some (concat (map utf8_of vs), Some v)"
      using Cons.prems(1) by (intro utf8_iterate_encoded) simp
    then show ?case using Cons ct by (simp add: utf8_check_string_step)
  qed (simp add: utf8_check_string.simps)
qed

section \<open>Properties\<close>

text \<open>C40: the check accepts exactly the texts that encode a sequence of Unicode scalar values: no overlong form, no
  surrogate, nothing above the Unicode range, no truncated sequence.\<close>

theorem utf8_check_string_iff:
  "utf8_check_string s \<longleftrightarrow> (\<exists>vs. list_all scalar_value vs \<and> s = concat (map utf8_of vs))"
  by (rule utf8_check_string_scalars)

end
