(* ===== verification/Http.thy ===== *)
theory Http
  imports Upstream_Inv Utf8
begin

text \<open>
  The HTTP client of \<^verbatim>\<open>util.c\<close>: the callbacks that feed the request to the transfer library and collect
  headers and body, and \<^verbatim>\<open>json_rpc_call\<close>. The library itself is the argument \<open>curl\<close>: from the request
  headers and the upload buffer it gives its result code, the HTTP status, the header lines and the
  pieces of the body. Allocations succeed, except where an argument says otherwise.
\<close>

section \<open>Callbacks\<close>

text \<open>The first part of a byte buffer that is read as a C string.\<close>

definition cstr :: "string \<Rightarrow> string" where
  "cstr s = takeWhile (\<lambda>ch. ch \<noteq> CHR 0x00) s"

record data_buffer =
  db_buf :: "string option"
  db_len :: nat

definition databuf_free :: "data_buffer option \<Rightarrow> data_buffer option" where
  "databuf_free db = (case db of None \<Rightarrow> None | Some db \<Rightarrow> Some \<lparr>db_buf = None, db_len = 0\<rparr>)"

definition all_data_cb :: "bool \<Rightarrow> string \<Rightarrow> data_buffer \<Rightarrow> nat \<times> data_buffer" where
  "all_data_cb mem ptr db =
    (let len = length ptr; oldlen = db_len db; newlen = oldlen + len in
     if \<not> mem then (0, db)
     else (len, \<lparr>db_buf = Some (take oldlen (case db_buf db of None \<Rightarrow> [] | Some b \<Rightarrow> b) @ ptr @ [CHR 0x00]), db_len = newlen\<rparr>))"

record upload_buffer =
  ub_buf :: string
  ub_len :: u64
  ub_pos :: u64

text \<open>\<open>None\<close> is a copy from behind the end of the request.\<close>

definition upload_data_cb :: "u64 \<Rightarrow> upload_buffer \<Rightarrow> (string \<times> u64 \<times> upload_buffer) option" where
  "upload_data_cb len ub =
    (let len = (if len > ub_len ub - ub_pos ub then ub_len ub - ub_pos ub else len) in
     if len = 0 then Some ([], 0, ub)
     else if unat (ub_pos ub) + unat len > length (ub_buf ub) then None
     else Some (take (unat len) (drop (unat (ub_pos ub)) (ub_buf ub)), len, ub\<lparr>ub_pos := ub_pos ub + len\<rparr>))"

definition seek_data_cb :: "u64 \<Rightarrow> int \<Rightarrow> upload_buffer \<Rightarrow> int \<times> upload_buffer" where
  "seek_data_cb offset origin ub =
    (if origin = 0 then (0, ub\<lparr>ub_pos := offset\<rparr>)
     else if origin = 1 then (0, ub\<lparr>ub_pos := ub_pos ub + offset\<rparr>)
     else if origin = 2 then (0, ub\<lparr>ub_pos := ub_len ub + offset\<rparr>)
     else (1, ub))"

record header_info =
  hi_lp_path :: "string option"
  hi_reason :: "string option"
  hi_stratum_url :: "string option"

text \<open>A header line: the key before the first colon and the value without surrounding white space. Lines without
  a colon, with an empty key or with nothing after the colon are skipped.\<close>

definition hdr_split :: "string \<Rightarrow> (string \<times> string) option" where
  "hdr_split ptr =
    (let slen = length (takeWhile (\<lambda>ch. ch \<noteq> CHR '':'') ptr) in
     if slen = length ptr \<or> slen = 0 then None
     else if slen + 1 = length ptr then None
     else
       let rm = dropWhile isspace (drop (slen + 1) ptr)
       in Some (cstr (take slen ptr), rev (dropWhile isspace (rev (cstr rm)))))"

definition resp_hdr_cb :: "string \<Rightarrow> header_info \<Rightarrow> header_info" where
  "resp_hdr_cb ptr hi =
    (case hdr_split ptr of
       None \<Rightarrow> hi
     | Some (key, val) \<Rightarrow>
         let hi = (if strcasecmp_eq ''X-Long-Polling'' key then hi\<lparr>hi_lp_path := Some val\<rparr> else hi);
             hi = (if strcasecmp_eq ''X-Reject-Reason'' key then hi\<lparr>hi_reason := Some val\<rparr> else hi)
         in if strcasecmp_eq ''X-Stratum'' key then hi\<lparr>hi_stratum_url := Some val\<rparr> else hi)"

section \<open>Calls\<close>

type_synonym transfer = "string list \<Rightarrow> upload_buffer \<Rightarrow> int \<times> int \<times> string list \<times> string list"

definition rpc_headers :: "string \<Rightarrow> string list" where
  "rpc_headers req = [''Content-Type: application/json'', ''Content-Length: '' @ dec_nat (length req),
     ''User-Agent: '' @ USER_AGENT, ''X-Mining-Extensions: longpoll reject-reason'']"

text \<open>A server may move the miner to stratum or to long polling.\<close>

definition rpc_activate :: "config \<Rightarrow> header_info \<Rightarrow> miner \<Rightarrow> miner" where
  "rpc_activate c hi m =
    (let m = (case hi_stratum_url hi of
                Some url \<Rightarrow> if cf_want_stratum c \<and> strncasecmp_eq url ''stratum+tcp://'' 14
                  then m\<lparr>m_have_stratum := True, m_stratum_queue := m_stratum_queue m @ [url]\<rparr> else m
              | None \<Rightarrow> m)
     in case hi_lp_path hi of
          Some path \<Rightarrow>
            if \<not> m_have_longpoll m \<and> cf_want_longpoll c \<and> \<not> m_have_gbt m \<and> cf_allow_getwork c \<and> \<not> m_have_stratum m
            then m\<lparr>m_have_longpoll := True, m_lp_queue := m_lp_queue m @ [path]\<rparr> else m
        | None \<Rightarrow> m)"

text \<open>The error code of a refused call is the one of the server, when it has one.\<close>

definition rpc_result :: "u32 \<Rightarrow> header_info \<Rightarrow> json \<Rightarrow> json option \<times> int" where
  "rpc_result flags hi val =
    (let res_val = json_object_get (Some val) ''result'';
         err_val = json_object_get (Some val) ''error''
     in if res_val = None \<or> (err_val \<noteq> None \<and> \<not> json_is_null err_val \<and> flags AND JSON_RPC_IGNOREERR = 0)
        then (None, let err_code = json_integer_value (json_object_get err_val ''code'') in if err_code \<noteq> 0 then to_int32 err_code else 0)
        else (Some (case json_string (hi_reason hi) of None \<Rightarrow> val | Some r \<Rightarrow> json_object_set val ''reject-reason'' r), 0))"

definition json_rpc_call :: "config \<Rightarrow> (string \<Rightarrow> json option) \<Rightarrow> transfer \<Rightarrow> http" where
  "json_rpc_call c loads curl flags req m =
    (let ub = \<lparr>ub_buf = req, ub_len = of_nat (length req), ub_pos = 0\<rparr> in
     case curl (rpc_headers req) ub of (rc, http_rc, hdrs, chunks) \<Rightarrow>
       let hi = fold resp_hdr_cb hdrs \<lparr>hi_lp_path = None, hi_reason = None, hi_stratum_url = None\<rparr>;
           db = fold (\<lambda>ptr db. snd (all_data_cb True ptr db)) chunks \<lparr>db_buf = None, db_len = 0\<rparr>
       in if rc \<noteq> 0 then (None, if flags AND JSON_RPC_QUIET_404 \<noteq> 0 \<and> http_rc = 404 then 0 else rc, m)
          else
            let m = rpc_activate c hi m in
            case db_buf db of
              None \<Rightarrow> (None, 0, m)
            | Some buf \<Rightarrow>
                (case loads (hack_json_numbers (cstr buf)) of
                   None \<Rightarrow> (None, 0, m)
                 | Some val \<Rightarrow> (case rpc_result flags hi val of (v, e) \<Rightarrow> (v, e, m))))"

section \<open>The callbacks together\<close>

lemma all_data_chunks:
  assumes "chunks \<noteq> []"
  shows "fold (\<lambda>ptr db. snd (all_data_cb True ptr db)) chunks \<lparr>db_buf = None, db_len = 0\<rparr> =
    \<lparr>db_buf = Some (concat chunks @ [CHR 0x00]), db_len = length (concat chunks)\<rparr>"
  using assms
proof (induction chunks rule: rev_induct)
  case (snoc x xs)
  then show ?case by (cases "xs = []") (simp_all add: all_data_cb_def Let_def)
qed simp

text \<open>The request as the library reads it, with buffers of the given sizes.\<close>

fun upload_reads :: "u64 list \<Rightarrow> upload_buffer \<Rightarrow> (string \<times> upload_buffer) option" where
  "upload_reads [] ub = Some ([], ub)"
| "upload_reads (n # ns) ub =
    (case upload_data_cb n ub of
       None \<Rightarrow> None
     | Some (s, _, ub) \<Rightarrow> map_option (\<lambda>(t, ub). (s @ t, ub)) (upload_reads ns ub))"

definition upload_at :: "string \<Rightarrow> nat \<Rightarrow> upload_buffer" where
  "upload_at req pos = \<lparr>ub_buf = req, ub_len = of_nat (length req), ub_pos = of_nat pos\<rparr>"

lemma upload_data_cb_at:
  assumes "length req < 2 ^ 64" "pos \<le> length req"
  shows "\<exists>k. k = min (unat n) (length req - pos) \<and>
    upload_data_cb n (upload_at req pos) = Some (take k (drop pos req), of_nat k, upload_at req (pos + k))"
proof -
  have u: "unat (of_nat (length req) - of_nat pos :: u64) = length req - pos" "unat (of_nat pos :: u64) = pos"
    using assms by (simp_all add: unsigned_of_nat take_bit_eq_mod flip: of_nat_diff)
  define k where "k = min (unat n) (length req - pos)"
  define l where "l = (if n > of_nat (length req) - of_nat pos then of_nat (length req) - of_nat pos else n :: u64)"
  have l: "unat l = k" by (simp add: k_def l_def u word_less_nat_alt)
  then have lk: "l = of_nat k" unfolding l [symmetric] by simp
  have l0: "l = 0 \<longleftrightarrow> k = 0" using l by (auto simp: unsigned_eq_0_iff)
  have "upload_data_cb n (upload_at req pos) =
      (if l = 0 then Some ([], 0, upload_at req pos)
       else if unat (of_nat pos :: u64) + unat l > length req then None
       else Some (take (unat l) (drop (unat (of_nat pos :: u64)) req), l, upload_at req pos\<lparr>ub_pos := of_nat pos + l\<rparr>))"
    by (simp add: upload_data_cb_def upload_at_def Let_def l_def)
  also have "\<dots> = Some (take k (drop pos req), of_nat k, upload_at req (pos + k))"
    unfolding l u(2) l0 using assms(2) by (auto simp: lk upload_at_def k_def)
  finally have "upload_data_cb n (upload_at req pos) = Some (take k (drop pos req), of_nat k, upload_at req (pos + k))" .
  then show ?thesis using k_def by blast
qed

lemma upload_reads_prefix:
  assumes "length req < 2 ^ 64" "pos \<le> length req"
  shows "upload_reads ns (upload_at req pos) =
    Some (take (sum_list (map unat ns)) (drop pos req), upload_at req (min (length req) (pos + sum_list (map unat ns))))"
  using assms(2)
proof (induction ns arbitrary: pos)
  case (Cons n ns)
  define k where "k = min (unat n) (length req - pos)"
  have step: "upload_data_cb n (upload_at req pos) = Some (take k (drop pos req), of_nat k, upload_at req (pos + k))"
    using upload_data_cb_at [OF assms(1) Cons.prems, of n] by (simp add: k_def)
  have "pos + k \<le> length req" using Cons.prems by (simp add: k_def)
  note IH = Cons.IH [OF this]
  let ?s = "sum_list (map unat ns)"
  have "take k (drop pos req) @ take ?s (drop (pos + k) req) = take (unat n + ?s) (drop pos req)"
  proof (cases "unat n \<le> length req - pos")
    case True
    then show ?thesis by (simp add: k_def take_add add.commute)
  next
    case False
    then show ?thesis using Cons.prems by (simp add: k_def)
  qed
  moreover have "min (length req) (pos + k + ?s) = min (length req) (pos + (unat n + ?s))" using Cons.prems by (simp add: k_def)
  ultimately show ?case by (simp add: step IH)
qed simp

section \<open>The client keeps its contract\<close>

lemma rpc_activate_keeps: "m_st (rpc_activate c hi m) = m_st m" "m_have_gbt (rpc_activate c hi m) = m_have_gbt m"
  by (simp_all add: rpc_activate_def Let_def split: option.split)

interpretation http: http_client "json_rpc_call c loads curl" for c loads curl
  by unfold_locales (simp_all add: json_rpc_call_def Let_def rpc_activate_keeps split: prod.split option.split)

end
