(* ===== verification/Pool_Inv.thy ===== *)
theory Pool_Inv
  imports Http
begin

text \<open>
  What a pool can do through the stratum thread: whatever it sends, a round of the thread keeps the state
  well formed, and without JSON-RPC 2.0 the global work changes only when work is generated from a job.
\<close>

section \<open>The connection\<close>

lemma recv_loop_wf: "recv_loop evs sctx = (ok, sctx', evs') \<Longrightarrow> stratum_wf sctx' = stratum_wf sctx"
proof (induction evs sctx rule: recv_loop.induct)
  case (5 s in_time evs sctx)
  have "stratum_wf (stratum_buffer_append x sctx) = stratum_wf sctx" for x
    by (simp add: stratum_buffer_append_def Let_def stratum_wf_def)
  with 5 show ?case by (auto simp: Let_def split: if_splits)
qed (auto split: if_splits)

lemma stratum_wf_sockbuf [simp]: "stratum_wf (s\<lparr>s_sockbuf := b\<rparr>) = stratum_wf s"
  by (simp add: stratum_wf_def)

lemma recv_line_wf: "recv_line sctx io = (line, sctx', io') \<Longrightarrow> stratum_wf sctx' = stratum_wf sctx"
  by (auto simp: recv_line_def stratum_recv_line_def split: prod.splits if_splits option.splits dest: recv_loop_wf)

lemma stratum_connect_wf: "stratum_connect i p url sctx = Some (ok, sctx') \<Longrightarrow> stratum_wf sctx' = stratum_wf sctx"
  by (auto simp: stratum_connect_def Let_def stratum_wf_def split: if_splits option.splits)

lemma subscribe_attempt_wf:
  assumes "subscribe_attempt loads again sctx io = (ok, answered, sctx', io')" "stratum_wf sctx"
  shows "stratum_wf sctx'"
proof -
  have *: "stratum_wf s'" if "stratum_parse_extranonce (s\<lparr>s_session_id := x, s_next_diff := y\<rparr>) p 1 = (b, s')" "stratum_wf s" for s s' x y p b
  proof -
    have "stratum_wf (s\<lparr>s_session_id := x, s_next_diff := y\<rparr>)" using that(2) by (simp add: stratum_wf_def)
    from stratum_parse_extranonce_wf [OF this, of p 1] show ?thesis using that(1) by (metis snd_conv)
  qed
  obtain sent io1 where 1: "stratum_send_line (subscribe_request again (s_session_id sctx)) io = (sent, io1)" by (metis surj_pair)
  obtain ready io2 where 2: "socket_full io1 = (ready, io2)" by (metis surj_pair)
  obtain line sctx1 io3 where 3: "recv_line sctx io2 = (line, sctx1, io3)" by (metis surj_pair)
  have "stratum_wf sctx1" using recv_line_wf [OF 3] assms(2) by simp
  then show ?thesis
    using assms by (auto simp: subscribe_attempt_def 1 2 3 Let_def split: prod.splits if_splits option.splits dest: * [simplified])
qed

lemma stratum_subscribe_wf:
  assumes "stratum_subscribe loads opts sctx io = (ok, sctx', io')" "stratum_wf sctx" shows "stratum_wf sctx'"
proof -
  obtain ok1 a1 s1 io1 where 1: "subscribe_attempt loads False sctx io = (ok1, a1, s1, io1)" by (metis surj_pair)
  obtain ok2 a2 s2 io2 where 2: "subscribe_attempt loads True s1 io1 = (ok2, a2, s2, io2)" by (metis surj_pair)
  have "stratum_wf s1" using subscribe_attempt_wf [OF 1 assms(2)] .
  moreover have "stratum_wf s2" using subscribe_attempt_wf [OF 2 calculation] .
  ultimately show ?thesis using assms by (auto simp: stratum_subscribe_def 1 2 split: if_splits)
qed

section \<open>Messages\<close>

text \<open>The relation between the states before and after an operation: the layout is kept, and without JSON-RPC 2.0 the
  global work is the same.\<close>

definition st_keeps :: "stratum_opts \<Rightarrow> stratum_state \<Rightarrow> stratum_state \<Rightarrow> bool" where
  "st_keeps opts st st' \<longleftrightarrow> (state_wf st \<longrightarrow> state_wf st') \<and> (\<not> so_jsonrpc_2 opts \<longrightarrow> st_g_work st' = st_g_work st)"

lemma st_keeps_refl [simp]: "st_keeps opts st st"
  by (simp add: st_keeps_def)

lemma st_keeps_trans [trans]: "st_keeps opts a b \<Longrightarrow> st_keeps opts b d \<Longrightarrow> st_keeps opts a d"
  by (simp add: st_keeps_def)

lemma st_keeps_io [simp]: "st_keeps opts st (st\<lparr>st_io := io\<rparr>)"
  by (simp add: st_keeps_def state_wf_def)

lemma st_keeps_ctx: "stratum_wf s = stratum_wf (st_sctx st) \<Longrightarrow> st_keeps opts st (st\<lparr>st_sctx := s, st_io := io\<rparr>)"
  by (simp add: st_keeps_def state_wf_def)

lemma handle_method_keeps:
  assumes "stratum_handle_method loads dumps junk opts s st = Some (ok, st')"
  shows "st_keeps opts st st'"
proof -
  have "st_g_work st' = st_g_work st" if "\<not> so_jsonrpc_2 opts"
    using assms by (cases rule: handle_method_cases) (use that in auto)
  then show ?thesis using handle_method_state_wf [OF _ assms] by (simp add: st_keeps_def)
qed

lemma authorize_wait_keeps:
  "authorize_wait fuel loads dumps junk opts st = Some (line, st') \<Longrightarrow> st_keeps opts st st'"
proof (induction fuel arbitrary: st)
  case (Suc fuel)
  obtain l s io where r: "recv_line (st_sctx st) (st_io st) = (l, s, io)" by (metis surj_pair)
  let ?st = "st\<lparr>st_sctx := s, st_io := io\<rparr>"
  have k: "st_keeps opts st ?st" using recv_line_wf [OF r] by (rule st_keeps_ctx)
  show ?case
  proof (cases l)
    case None
    then show ?thesis using Suc.prems k by (simp add: r)
  next
    case (Some sret)
    then obtain b st1 where h: "stratum_handle_method loads dumps junk opts sret ?st = Some (b, st1)"
      using Suc.prems by (auto simp: r split: option.splits)
    have "st_keeps opts st1 st'" using Suc.prems Suc.IH [of st1] by (cases b) (auto simp: r Some h)
    then show ?thesis using k handle_method_keeps [OF h] st_keeps_trans by blast
  qed
qed simp

lemma extranonce_subscribe_keeps:
  assumes "extranonce_subscribe loads dumps junk opts st = Some st'" shows "st_keeps opts st st'"
proof -
  obtain sent io1 where 1: "stratum_send_line (''{'' @ quoted ''id'' @ '': 3, '' @ quoted ''method'' @ '': '' @
        quoted ''mining.extranonce.subscribe'' @ '', '' @ quoted ''params'' @ '': []}'') (st_io st) = (sent, io1)" by (metis surj_pair)
  obtain ready io2 where 2: "socket_full io1 = (ready, io2)" by (metis surj_pair)
  obtain line s io3 where 3: "recv_line (st_sctx st) io2 = (line, s, io3)" by (metis surj_pair)
  let ?st = "st\<lparr>st_sctx := s, st_io := io3\<rparr>"
  have k: "st_keeps opts st ?st" using recv_line_wf [OF 3] by (rule st_keeps_ctx)
  have h: "st_keeps opts st st'" if "stratum_handle_method loads dumps junk opts sret ?st = Some (b, st')" for sret b
    using k handle_method_keeps [OF that] st_keeps_trans by blast
  show ?thesis
    using assms k h unfolding extranonce_subscribe_def 1
    by (auto simp: 2 3 Let_def split: if_splits option.splits)
qed

lemma authorize_login_wf:
  assumes "authorize_login val st = Some st'" "state_wf st" shows "state_wf st'"
proof -
  have l: "rpc2_wf (snd (rpc2_login_decode val (st_rpc2 st)))"
    using assms(2) by (auto simp: state_wf_def rpc2_login_decode_def rpc2_wf_def Let_def split: option.splits)
  have w: "work_wf (s_work (st_sctx st))" using assms(2) by (simp add: state_wf_def stratum_wf_def)
  show ?thesis
    using assms l rpc2_job_decode_layout [OF l w]
    by (fastforce simp: authorize_login_def Let_def state_wf_def stratum_wf_def split: if_splits option.splits)
qed

lemma stratum_authorize_keeps:
  assumes "stratum_authorize fuel loads dumps junk opts user pass st = Some (ok, st')" shows "st_keeps opts st st'"
proof -
  obtain sent io where s: "stratum_send_line (authorize_request (so_jsonrpc_2 opts) user pass) (st_io st) = (sent, io)" by (metis surj_pair)
  let ?st = "st\<lparr>st_io := io\<rparr>"
  show ?thesis
  proof (cases "sent")
    case True
    then obtain l st1 where w: "authorize_wait fuel loads dumps junk opts ?st = Some (l, st1)"
      using assms by (auto simp: stratum_authorize_def s split: option.splits)
    have k: "st_keeps opts st st1" using st_keeps_trans [OF st_keeps_io authorize_wait_keeps [OF w]] .
    have l: "st_keeps opts st1 st2" if "(if so_jsonrpc_2 opts then authorize_login v st1 else Some st1) = Some st2" for v st2
      using that authorize_login_wf by (auto simp: st_keeps_def split: if_splits)
    have "st_keeps opts st1 st'"
    proof (cases "l = None \<or> loads (the l) = None \<or> authorize_refused (loads (the l))")
      case True
      then show ?thesis using assms \<open>sent\<close> by (cases l) (auto simp: stratum_authorize_def s w Let_def split: if_splits option.splits)
    next
      case False
      then obtain st2 where "(if so_jsonrpc_2 opts then authorize_login (loads (the l)) st1 else Some st1) = Some st2"
          "st' = st2 \<or> extranonce_subscribe loads dumps junk opts st2 = Some st'"
        using assms \<open>sent\<close> by (auto simp: stratum_authorize_def s w Let_def split: option.splits if_splits)
      then show ?thesis using l extranonce_subscribe_keeps st_keeps_trans by blast
    qed
    then show ?thesis using k st_keeps_trans by blast
  qed (use assms in \<open>auto simp: stratum_authorize_def s\<close>)
qed

section \<open>Rounds of the stratum thread\<close>

text \<open>The same relation on the state of the threads; the choice of the protocol is kept as well.\<close>

definition keeps :: "config \<Rightarrow> miner \<Rightarrow> miner \<Rightarrow> bool" where
  "keeps c m m' \<longleftrightarrow> st_keeps (cf_stratum c) (m_st m) (m_st m') \<and> m_have_stratum m' = m_have_stratum m"

lemma keeps_refl [simp]: "keeps c m m"
  by (simp add: keeps_def)

lemma keeps_trans [trans]: "keeps c a b \<Longrightarrow> keeps c b d \<Longrightarrow> keeps c a d"
  by (auto simp: keeps_def intro: st_keeps_trans)

lemma keeps_set [simp]:
  "keeps c m (set_io io m)" "keeps c m (set_g_work_time t m)" "keeps c m (restart_threads c m)"
  "keeps c m (set_stratum_diff d m)"
  by (simp_all add: keeps_def miner_set_defs restart_threads_def st_keeps_def state_wf_def rpc2_wf_def)

lemma keeps_ctx: "stratum_wf s = stratum_wf (m_sctx m) \<Longrightarrow> keeps c m (set_sctx s m)"
  by (simp add: keeps_def set_sctx_def st_keeps_def state_wf_def)

lemma keeps_ctx_imp: "(stratum_wf (m_sctx m) \<Longrightarrow> stratum_wf s) \<Longrightarrow> keeps c m (set_sctx s m)"
  by (simp add: keeps_def set_sctx_def st_keeps_def state_wf_def)

lemma keeps_st: "st_keeps (cf_stratum c) (m_st m) st \<Longrightarrow> keeps c m (m\<lparr>m_st := st\<rparr>)"
  by (simp add: keeps_def)

lemma keeps_same: "m_st m' = m_st m \<Longrightarrow> m_have_stratum m' = m_have_stratum m \<Longrightarrow> keeps c m m'"
  by (simp add: keeps_def)

lemma keeps_wf: "keeps c m m' \<Longrightarrow> miner_wf m \<Longrightarrow> miner_wf m'"
  by (simp add: keeps_def st_keeps_def miner_wf_def)

lemma keeps_g_work: "keeps c m m' \<Longrightarrow> \<not> jsonrpc_2 c \<Longrightarrow> m_g_work m' = m_g_work m"
  by (simp add: keeps_def st_keeps_def)

lemma share_result_keeps:
  assumes "share_result c ok w m = Some m'" shows "keeps c m m'"
proof -
  have "m_have_stratum m' = m_have_stratum m" using assms by (auto simp: share_result_def Let_def split: option.splits if_splits)
  then show ?thesis using share_result_st [OF assms] by (rule keeps_same [rotated])
qed

lemma handle_response_keeps: "stratum_handle_response c loads buf m = Some (ok, m') \<Longrightarrow> keeps c m m'"
  by (auto simp: stratum_handle_response_def Let_def split: if_splits option.splits dest: share_result_keeps)

lemma stratum_reset_keeps: "keeps c m (stratum_reset c m)"
proof -
  have d: "keeps c m (set_sctx (stratum_disconnect (m_sctx m)) (m\<lparr>m_need_reset := False\<rparr>))" (is "keeps c m ?m")
  proof -
    have "keeps c (m\<lparr>m_need_reset := False\<rparr>) ?m" by (rule keeps_ctx) (simp add: stratum_disconnect_wf)
    then show ?thesis using keeps_trans [OF keeps_same [of "m\<lparr>m_need_reset := False\<rparr>" m]] by simp
  qed
  have "keeps c ?m (set_sctx ((m_sctx ?m)\<lparr>s_url := u\<rparr>) ?m)" for u by (rule keeps_ctx) (simp add: stratum_wf_def)
  then show ?thesis using d keeps_trans by (auto simp: stratum_reset_def Let_def)
qed

lemma stratum_attempt_keeps:
  assumes "stratum_attempt fuel c loads dumps junk conn m = Some (ok, m')" shows "keeps c m m'"
proof -
  obtain url cok s1 where 1: "s_url (m_sctx m) = Some url" "stratum_connect (fst conn) (snd conn) url (m_sctx m) = Some (cok, s1)"
    using assms by (auto simp: stratum_attempt_def split: option.splits)
  let ?m1 = "set_sctx s1 m"
  have k1: "keeps c m ?m1" using stratum_connect_wf [OF 1(2)] by (rule keeps_ctx)
  obtain sub s2 io where 2: "stratum_subscribe loads (cf_stratum c) s1 (st_io (m_st ?m1)) = (sub, s2, io)" by (metis surj_pair)
  then have 2: "stratum_subscribe loads (cf_stratum c) s1 (st_io (m_st ?m1)) = (sub, s2, io)"
      "stratum_subscribe loads (cf_stratum c) (m_sctx ?m1) (st_io (m_st ?m1)) = (sub, s2, io)" by simp_all
  let ?m2 = "set_io io (set_sctx s2 ?m1)"
  have "keeps c ?m1 (set_sctx s2 ?m1)" using stratum_subscribe_wf [OF 2(1)] by (intro keeps_ctx_imp) simp
  then have k2: "keeps c m ?m2" using k1 keeps_trans keeps_set(1) by blast
  show ?thesis
  proof (cases "cok \<and> sub")
    case True
    then obtain st where a: "stratum_authorize fuel loads dumps junk (cf_stratum c) (cf_rpc_user c) (cf_rpc_pass c) (m_st ?m2) = Some (ok, st)"
        "m' = ?m2\<lparr>m_st := st\<rparr>"
      using assms by (auto simp: stratum_attempt_def 1 2 Let_def split: option.splits)
    then show ?thesis using k2 keeps_st [OF stratum_authorize_keeps [OF a(1)]] keeps_trans by blast
  next
    case False
    then show ?thesis using assms k1 k2 by (auto simp: stratum_attempt_def 1 2 Let_def split: if_splits)
  qed
qed

lemma connect_loop_keeps:
  "stratum_connect_loop fuel c loads dumps junk failures conns m = Some (res, m') \<Longrightarrow> keeps c m m'"
proof (induction conns arbitrary: failures m)
  case (Cons conn conns)
  let ?m0 = "restart_threads c (set_g_work_time 0 m)"
  have k0: "keeps c m ?m0" using keeps_trans keeps_set(2,3) by blast
  show ?case
  proof (cases "s_curl (m_sctx m)")
    case False
    then obtain ok m1 where a: "stratum_attempt fuel c loads dumps junk conn ?m0 = Some (ok, m1)"
      using Cons.prems by (auto split: option.splits)
    define m2 where "m2 = (if ok then m1 else set_sctx (stratum_disconnect (m_sctx m1)) m1)"
    define m3 where "m3 = (if jsonrpc_2 c then set_g_work (work_copy (s_work (m_sctx m2))) m2 else m2)"
    have "keeps c m1 m2" by (simp add: m2_def keeps_ctx stratum_disconnect_wf)
    moreover have "keeps c m2 m3"
      by (simp add: m3_def keeps_def set_g_work_def st_keeps_def state_wf_def stratum_wf_def)
    ultimately have k: "keeps c m m2" "keeps c m m3" using k0 stratum_attempt_keeps [OF a] keeps_trans by blast+
    have "(res, m') = (S_exit, m2) \<or> (\<exists>f. stratum_connect_loop fuel c loads dumps junk f conns m3 = Some (res, m'))"
      using Cons.prems False a by (auto simp: Let_def m3_def m2_def split: if_splits)
    then show ?thesis using k Cons.IH keeps_trans by blast
  qed (use Cons.prems in auto)
qed auto

lemma stratum_receive_keeps:
  assumes "stratum_receive c loads dumps junk m = Some m'" shows "keeps c m m'"
proof -
  obtain full io1 where 1: "(if s_sockbuf (m_sctx m) \<noteq> [] then (True, st_io (m_st m)) else socket_full (st_io (m_st m))) = (full, io1)" by (metis surj_pair)
  let ?m1 = "set_io io1 m"
  obtain line s io2 where 2: "(if full then recv_line (m_sctx ?m1) (st_io (m_st ?m1)) else (None, m_sctx ?m1, st_io (m_st ?m1))) = (line, s, io2)" by (metis surj_pair)
  let ?m2 = "set_io io2 (set_sctx s ?m1)"
  have "stratum_wf s = stratum_wf (m_sctx ?m1)" using 2 recv_line_wf by (auto split: if_splits)
  then have "keeps c ?m1 (set_sctx s ?m1)" by (rule keeps_ctx)
  then have k2: "keeps c m ?m2" using keeps_trans keeps_set(1) by blast
  note rec = assms [unfolded stratum_receive_def 1 prod.case Let_def 2]
  have "m' = set_sctx (stratum_disconnect (m_sctx ?m2)) ?m2 \<or>
      (\<exists>b l st. stratum_handle_method loads dumps junk (cf_stratum c) l (m_st ?m2) = Some (b, st) \<and>
        (m' = ?m2\<lparr>m_st := st\<rparr> \<or> (\<exists>ok. stratum_handle_response c loads l (?m2\<lparr>m_st := st\<rparr>) = Some (ok, m'))))"
  proof (cases line)
    case (Some l)
    then obtain b st where h: "stratum_handle_method loads dumps junk (cf_stratum c) l (m_st ?m2) = Some (b, st)"
      using rec by (auto split: option.splits)
    then have "m' = ?m2\<lparr>m_st := st\<rparr> \<or> (\<exists>ok. stratum_handle_response c loads l (?m2\<lparr>m_st := st\<rparr>) = Some (ok, m'))"
      using rec Some by (cases b) auto
    then show ?thesis using h by blast
  qed (use rec in simp)
  then show ?thesis
  proof (elim disjE exE conjE)
    assume "m' = set_sctx (stratum_disconnect (m_sctx ?m2)) ?m2"
    moreover have "keeps c ?m2 (set_sctx (stratum_disconnect (m_sctx ?m2)) ?m2)" by (rule keeps_ctx) (simp add: stratum_disconnect_wf)
    ultimately show ?thesis using k2 keeps_trans by blast
  next
    fix b l st assume "stratum_handle_method loads dumps junk (cf_stratum c) l (m_st ?m2) = Some (b, st)"
    from keeps_trans [OF k2 keeps_st [OF handle_method_keeps [OF this]]]
    have k3: "keeps c m (?m2\<lparr>m_st := st\<rparr>)" .
    show "m' = ?m2\<lparr>m_st := st\<rparr> \<Longrightarrow> ?thesis" using k3 by simp
    show "keeps c m m'" if "stratum_handle_response c loads l (?m2\<lparr>m_st := st\<rparr>) = Some (ok, m')" for ok
      using k3 handle_response_keeps [OF that] keeps_trans by blast
  qed
qed

end
