(* ===== verification/System.thy ===== *)
theory System
  imports Pool_Inv
begin

text \<open>
  The miner against a stratum pool: the stratum thread, the miner threads and the workio thread as one step
  relation on the state they share. The pool, the clock and the scheduling are arbitrary. A miner thread
  whose round ends it may still be scheduled, which only adds behaviour.
\<close>

section \<open>The system\<close>

record sys =
  sy_miner :: miner
  sy_threads :: "thread list"
  sy_submits :: "work list"

text \<open>What stays the same: the processor, the options and the functions of the libraries.\<close>

record setting =
  se_cpu :: cpu
  se_config :: config
  se_loads :: "string \<Rightarrow> json option"
  se_dumps :: "json \<Rightarrow> string"
  se_curl :: transfer

inductive sys_step :: "setting \<Rightarrow> sys \<Rightarrow> sys \<Rightarrow> bool" for S where
  pool: "stratum_round fuel (se_config S) (se_loads S) (se_dumps S) junk now conns (sy_miner s) = Some (r, m) \<Longrightarrow>
    sys_step S s (s\<lparr>sy_miner := m\<rparr>)"
| mine: "i < length (sy_threads s) \<Longrightarrow>
    miner_round (se_cpu S) (se_config S) e (sy_threads s ! i) (sy_miner s) = Some (out, th, ws, m) \<Longrightarrow>
    sys_step S s \<lparr>sy_miner = m, sy_threads = (sy_threads s)[i := th], sy_submits = sy_submits s @ ws\<rparr>"
| submit: "sy_submits s = w # ws \<Longrightarrow>
    workio_submit_work fuel (se_config S) (se_loads S) (se_dumps S) (json_rpc_call (se_config S) (se_loads S) (se_curl S)) junk wheight w
      \<lparr>wi_miner = sy_miner s, wi_out = [], wi_frozen = []\<rparr> = Some (rc, wi) \<Longrightarrow>
    sys_step S s (s\<lparr>sy_miner := wi_miner wi, sy_submits := ws\<rparr>)"

text \<open>The assumptions on the installation: the vector kernels compute what the portable one does, each lane
  for itself, and every thread has a share of nonces.\<close>

definition setting_ok :: "setting \<Rightarrow> bool" where
  "setting_ok S \<longleftrightarrow> ms_kernel 8 (cpu_ms8 (se_cpu S)) \<and> ms_kernel 4 (cpu_ms4 (se_cpu S)) \<and> \<not> jsonrpc_2 (se_config S) \<and> \<not> cf_benchmark (se_config S) \<and>
     0 < cf_n_threads (se_config S) \<and> 64 * cf_n_threads (se_config S) \<le> 4294967295"

section \<open>Shares\<close>

text \<open>A work belongs to a job when a pool that knows the job, the extra nonce and the nonce can rebuild its
  header.\<close>

definition share_of :: "stratum_job \<Rightarrow> work \<Rightarrow> bool" where
  "share_of job w \<longleftrightarrow> job_wf job \<and> padded_work w \<and> work_wf w \<and> j_job_id job \<noteq> None \<and> w_job_id w = j_job_id job \<and>
     j_xnonce2 job + w_xnonce2_len w \<le> length (j_coinbase job) \<and>
     w_xnonce2 w = Some (take (w_xnonce2_len w) (drop (j_xnonce2 job) (j_coinbase job))) \<and>
     (8 * length (j_coinbase job) < 4294967296 \<longrightarrow>
       concat (map be32enc (take 19 (w_data w))) = take 76 (share_header job))"

definition mineable :: "work \<Rightarrow> bool" where
  "mineable w \<longleftrightarrow> work_wf w \<and> (w_data w ! 0 = 0 \<or> (\<exists>job. share_of job w))"

definition solved :: "work \<Rightarrow> bool" where
  "solved w \<longleftrightarrow> (\<exists>job. share_of job w) \<and> header_value (w_data w) \<le> le32_val (w_target w)"

text \<open>The miner starts without work or with work of a job, and the threads with none.\<close>

definition sys_init :: "setting \<Rightarrow> sys \<Rightarrow> bool" where
  "sys_init S s \<longleftrightarrow> miner_wf (sy_miner s) \<and> m_have_stratum (sy_miner s) \<and> mineable (m_g_work (sy_miner s)) \<and>
     sy_threads s = map (\<lambda>i. \<lparr>th_id = i, th_work = work0, th_first = 0\<rparr>) [0..<cf_n_threads (se_config S)] \<and> sy_submits s = []"

inductive sys_reach :: "setting \<Rightarrow> sys \<Rightarrow> bool" for S where
  start: "sys_init S s \<Longrightarrow> sys_reach S s"
| step: "sys_reach S s \<Longrightarrow> sys_step S s t \<Longrightarrow> sys_reach S t"

definition sys_inv :: "setting \<Rightarrow> sys \<Rightarrow> bool" where
  "sys_inv S s \<longleftrightarrow> miner_wf (sy_miner s) \<and> m_have_stratum (sy_miner s) \<and> mineable (m_g_work (sy_miner s)) \<and>
     (\<forall>th \<in> set (sy_threads s). mineable (th_work th) \<and> th_id th < cf_n_threads (se_config S)) \<and>
     (\<forall>w \<in> set (sy_submits s). solved w)"

section \<open>Work keeps its job\<close>

lemma share_of_nonce:
  assumes "share_of job w" shows "share_of job (w\<lparr>w_data := (w_data w)[19 := n]\<rparr>)"
proof -
  have "length (w_data w) = 48" using assms by (simp add: share_of_def padded_work_def)
  then show ?thesis
    using assms by (simp add: share_of_def padded_work_def take_update_cancel drop_update_cancel)
qed

lemma share_of_copy: "share_of job w \<Longrightarrow> share_of job (work_copy w)"
  by (auto simp: share_of_def padded_work_def work_copy_def Let_def work_wf_def split: option.split)

lemma work_copy_data [simp]: "w_data (work_copy w) = w_data w" "w_target (work_copy w) = w_target w"
  by (simp_all add: work_copy_def Let_def split: option.split)

lemma mineable_nonce: "mineable w \<Longrightarrow> mineable (w\<lparr>w_data := (w_data w)[19 := n]\<rparr>)"
  using share_of_nonce by (auto simp: mineable_def work_wf_lengths)

lemma mineable_copy: "mineable w \<Longrightarrow> mineable (work_copy w)"
  using share_of_copy by (auto simp: mineable_def)

lemma solved_copy: "solved w \<Longrightarrow> solved (work_copy w)"
  using share_of_copy by (auto simp: solved_def)

lemma miner_adopt_mineable:
  assumes "\<not> jsonrpc_2 c" "mineable w" "mineable g" shows "mineable (miner_adopt c e thr_id w g)"
proof -
  have "length (w_data w) = 48" "length (w_data g) = 48" using assms(2,3) by (simp_all add: mineable_def work_wf_def)
  then show ?thesis
    using assms mineable_nonce [OF assms(2)] mineable_nonce [OF mineable_copy [OF assms(3)]] by (simp add: miner_adopt_def Let_def set_nonce_header)
qed

lemma keeps_gen:
  assumes "stratum_wf s = stratum_wf (m_sctx m)"
  shows "keeps c m (set_sctx s m)" "keeps c m (set_sctx s m\<lparr>m_net_diff := d\<rparr>)"
    "keeps c m (set_stratum_diff e (set_sctx s m))" "keeps c m (set_stratum_diff e (set_sctx s m\<lparr>m_net_diff := d\<rparr>))"
proof -
  show k: "keeps c m (set_sctx s m)" using assms by (rule keeps_ctx)
  have "keeps c (set_sctx s m) (set_sctx s m\<lparr>m_net_diff := d\<rparr>)" by (rule keeps_same) simp_all
  then show k2: "keeps c m (set_sctx s m\<lparr>m_net_diff := d\<rparr>)" using k keeps_trans by blast
  show "keeps c m (set_stratum_diff e (set_sctx s m))" "keeps c m (set_stratum_diff e (set_sctx s m\<lparr>m_net_diff := d\<rparr>))"
    using k k2 keeps_trans keeps_set(4) by blast+
qed

lemma generated_share:
  assumes "stratum_gen_work c w m = Some (w', m')" "\<not> jsonrpc_2 c" "miner_wf m" "work_wf w"
  shows "share_of (s_job (m_sctx m)) w'" "keeps c m m'"
proof -
  let ?job = "s_job (m_sctx m)"
  have wf: "job_wf ?job" "length (w_data w) = 48"
    using assms(3,4) by (simp_all add: miner_wf_def state_wf_def stratum_wf_def work_wf_def)
  have len: "length (header_words ?job rt) = 20" for rt by (simp add: header_words_def del: upt_rec_numeral)
  have pad: "length header_padding = 12" by (simp add: header_padding_def)
  from assms(1,2) have lay: "padded_work w' \<and> work_wf w'"
    by (cases rule: gen_work_cases)
      (simp add: padded_work_def work_wf_def gen_header_layout wf(2) len pad diff_to_target_length)
  have hdr: "concat (map be32enc (take 19 (w_data w'))) = take 76 (share_header ?job)" if "8 * length (j_coinbase ?job) < 4294967296"
  proof -
    have split: "concat (map be32enc (take 19 ws)) = take 76 (concat (map be32enc ws))" if "length ws = 20" for ws :: "u32 list"
    proof -
      have "ws = take 19 ws @ drop 19 ws" by simp
      moreover have "length (concat (map be32enc (take 19 ws))) = 76" using that by (simp add: length_concat comp_def sum_list_triv)
      ultimately show ?thesis by (metis append_eq_conv_conj concat_append map_append)
    qed
    have "take 19 (w_data w') = take 19 (take 20 (w_data w'))" by simp
    moreover have "length (take 20 (w_data w')) = 20" using lay by (simp add: padded_work_def)
    ultimately show ?thesis using split gen_work_header(1) [OF assms(1-4) that] by metis
  qed
  from assms(1,2) show "share_of ?job w'"
    by (cases rule: gen_work_cases) (use wf(1) lay hdr in \<open>simp add: share_of_def\<close>)
  have "stratum_wf ((m_sctx m)\<lparr>s_job := ?job\<lparr>j_coinbase := X\<rparr>\<rparr>) = stratum_wf (m_sctx m)" for X
    by (simp add: stratum_wf_def job_wf_def)
  note keeps_gen [OF this]
  then show "keeps c m m'"
    using assms(1,2) unfolding stratum_gen_work_def Let_def
    by (clarsimp split: option.splits if_splits)
qed

section \<open>Every step keeps the invariant\<close>

definition pool_ok :: "miner \<Rightarrow> bool" where
  "pool_ok m \<longleftrightarrow> miner_wf m \<and> m_have_stratum m \<and> mineable (m_g_work m)"

lemma pool_ok_keeps: "keeps c m m' \<Longrightarrow> \<not> jsonrpc_2 c \<Longrightarrow> pool_ok m \<Longrightarrow> pool_ok m'"
  using keeps_wf [of c m m'] keeps_g_work [of c m m'] by (auto simp: pool_ok_def keeps_def)

lemma pool_ok_g_work: "pool_ok m \<Longrightarrow> mineable g \<Longrightarrow> pool_ok (set_g_work g m)"
  by (simp add: pool_ok_def mineable_def set_g_work_def miner_wf_def state_wf_def)

lemma generated_ok:
  assumes "stratum_gen_work c (m_g_work m) m = Some (g, m')" "\<not> jsonrpc_2 c" "pool_ok m"
  shows "pool_ok (set_g_work g m')"
proof -
  have wf: "miner_wf m" "work_wf (m_g_work m)" using assms(3) by (simp_all add: pool_ok_def miner_wf_def state_wf_def)
  note g = generated_share [OF assms(1,2) wf]
  have "mineable g" using g(1) by (auto simp: mineable_def share_of_def)
  then show ?thesis using pool_ok_keeps [OF g(2) assms(2,3)] by (rule pool_ok_g_work [rotated])
qed

lemma new_job_ok:
  assumes "stratum_new_job c now m = Some m'" "\<not> jsonrpc_2 c" "pool_ok m"
  shows "pool_ok m'"
proof -
  have *: "pool_ok (set_g_work_time now (set_g_work g m1))" "pool_ok (restart_threads c (set_g_work_time now (set_g_work g m1)))"
    if "stratum_gen_work c (m_g_work m) m = Some (g, m1)" for g m1
    using pool_ok_keeps [OF keeps_set(2) assms(2) generated_ok [OF that assms(2,3)], of now]
      pool_ok_keeps [OF keeps_set(3) assms(2)] by blast+
  then show ?thesis
    using assms by (auto simp: stratum_new_job_def Let_def split: option.splits bool.splits if_splits)
qed

lemma stratum_round_ok:
  assumes "stratum_round fuel c loads dumps junk now conns m = Some (r, m')" "\<not> jsonrpc_2 c" "pool_ok m"
  shows "pool_ok m'"
proof -
  obtain res m1 where l: "stratum_connect_loop fuel c loads dumps junk 0 conns (stratum_reset c m) = Some (res, m1)"
    using assms(1) by (auto simp: stratum_round_def split: option.splits)
  have m1: "pool_ok m1" using pool_ok_keeps [OF keeps_trans [OF stratum_reset_keeps connect_loop_keeps [OF l]] assms(2,3)] .
  show ?thesis
  proof (cases res)
    case S_next
    then obtain m2 where "stratum_new_job c now m1 = Some m2" "stratum_receive c loads dumps junk m2 = Some m'"
      using assms(1) by (auto simp: stratum_round_def l split: option.splits)
    then show ?thesis using new_job_ok [OF _ assms(2) m1] pool_ok_keeps [OF stratum_receive_keeps assms(2)] by blast
  qed (use assms(1) m1 in \<open>simp_all add: stratum_round_def l\<close>)
qed

lemma miner_fetch_ok:
  assumes "miner_fetch c e th m = Some (out, m')" "\<not> jsonrpc_2 c" "pool_ok m"
  shows "pool_ok m' \<and> (out = Go \<or> out = Again)"
proof -
  have "m_have_stratum m" using assms(3) by (simp add: pool_ok_def)
  then show ?thesis
    using assms generated_ok by (auto simp: miner_fetch_def Let_def split: if_splits option.splits)
qed

lemma scan_share:
  assumes "ms_kernel 8 ms8" "ms_kernel 4 ms4" "share_of job w" "unat max_nonce + 8 \<le> 4294967296"
    "scanhash_sha256d use8 use4 ms8 ms4 sd restart w max_nonce = Some (rc, w', hashes)"
  shows "share_of job w'" "rc \<Longrightarrow> solved w'"
proof -
  have p: "padded_work w" using assms(3) by (simp add: share_of_def)
  have o: "scan_outcome (if use8 then 8 else if use4 then 4 else 1) sd restart w max_nonce (rc, w', hashes)"
    using scanhash_outcome [OF assms(1,2) padded_header_ok [OF p] assms(4), of use8 use4 sd restart] assms(5) by auto
  have found: "share_of job (found_work sd w m)" for m
    using share_of_nonce [OF assms(3), of m]
    by (auto simp: found_work_def work_set_target_ratio_def Let_def share_of_def padded_work_def work_wf_def)
  have "(\<exists>m. w' = found_work sd w m) \<or> (\<exists>m. w' = w\<lparr>w_data := (w_data w)[19 := m]\<rparr>)"
    using o by (auto simp: scan_outcome_def Let_def split: option.splits)
  then show s: "share_of job w'" using found share_of_nonce [OF assms(3)] by blast
  show "solved w'" if rc
  proof -
    have "scan_outcome (if use8 then 8 else if use4 then 4 else 1) sd restart w max_nonce (True, w', hashes)" using o that by simp
    from scan_outcome_found [OF this] obtain m where "meets w m" "w' = found_work sd w m" by blast
    then show ?thesis using s meets_value [OF p, of m] by (auto simp: solved_def found_work_fields)
  qed
qed

lemma end_nonce_margin:
  assumes "0 < n" "64 * n \<le> 4294967295" "thr_id < n" "k \<le> end_nonce n thr_id"
  shows "unat k + 8 \<le> 4294967296"
  using unat_end_nonce [OF assms(1-3)] quota_bounds [OF assms(1,3)] assms(4) by (simp add: word_le_nat_alt)

lemma miner_stats_keeps: "miner_stats c e i h m = Some m' \<Longrightarrow> keeps c m m'"
  by (intro keeps_same) (auto simp: miner_stats_def Let_def split: if_splits option.splits)

lemma miner_scan_ok:
  assumes "miner_scan cpu c e th max64 m = Some (out, th', ws, m')" "share_of job (th_work th)" "pool_ok m"
    "ms_kernel 8 (cpu_ms8 cpu)" "ms_kernel 4 (cpu_ms4 cpu)" "\<not> jsonrpc_2 c"
    "0 < cf_n_threads c" "64 * cf_n_threads c \<le> 4294967295" "th_id th < cf_n_threads c"
  shows "pool_ok m' \<and> mineable (th_work th') \<and> th_id th' = th_id th \<and> (\<forall>w \<in> set ws. solved w)"
proof -
  obtain rate where r: "dbl_to_i64 (m_hashrates m ! th_id th) = Some rate" using assms(1) by (auto simp: miner_scan_def split: option.splits)
  define max_nonce where "max_nonce = scan_limit (end_nonce (cf_n_threads c) (th_id th)) (get_nonce (jsonrpc_2 c) (w_data (th_work th))) (max64 * sint rate)"
  define th1 where "th1 = (if th_first th = 0 then th\<lparr>th_first := e_now e\<rparr> else th)"
  have th1: "th_work th1 = th_work th" "th_id th1 = th_id th" by (simp_all add: th1_def)
  note scan = assms(1) [unfolded miner_scan_def r option.case Let_def, folded max_nonce_def th1_def, unfolded th1]
  obtain rc w h where s: "scanhash_sha256d (cpu_8way cpu) (cpu_4way cpu) (cpu_ms8 cpu) (cpu_ms4 cpu) (cf_showdiff c) (e_restart e) (th_work th) max_nonce
      = Some (rc, w, h)" using scan by (auto split: option.splits)
  obtain m1 where m1: "miner_stats c e (th_id th) h m = Some m1" using scan by (auto simp: s split: option.splits)
  have "unat max_nonce + 8 \<le> 4294967296" unfolding max_nonce_def using end_nonce_margin [OF assms(7-9) scan_limit_bounds] .
  note w = scan_share [OF assms(4,5,2) this s]
  have ok: "pool_ok m1" using pool_ok_keeps [OF miner_stats_keeps [OF m1] assms(6,3)] .
  then have st: "m_have_stratum m1" by (simp add: pool_ok_def)
  have mw: "mineable w" using w(1) by (auto simp: mineable_def share_of_def)
  have "(out, th', ws, m') = (Go, th1\<lparr>th_work := w\<rparr>, [], m1) \<or> (out, th', ws, m') = (Stop, th1\<lparr>th_work := w\<rparr>, [], m1) \<or>
      rc \<and> (out, th', ws, m') = (Go, th1\<lparr>th_work := w\<rparr>, [work_copy w], m1)"
    using scan by (auto simp: s m1 st submit_work_def split: if_splits option.splits)
  then show ?thesis using ok mw th1 w(2) solved_copy by auto
qed

lemma miner_round_ok:
  assumes "miner_round cpu c e th m = Some (out, th', ws, m')" "mineable (th_work th)" "pool_ok m"
    "ms_kernel 8 (cpu_ms8 cpu)" "ms_kernel 4 (cpu_ms4 cpu)" "\<not> jsonrpc_2 c"
    "0 < cf_n_threads c" "64 * cf_n_threads c \<le> 4294967295" "th_id th < cf_n_threads c" "\<not> cf_benchmark c"
  shows "pool_ok m' \<and> mineable (th_work th') \<and> th_id th' = th_id th \<and> (\<forall>w \<in> set ws. solved w)"
proof -
  obtain o1 m1 where f: "miner_fetch c e th m = Some (o1, m1)" using assms(1) by (auto simp: miner_round_def split: option.splits)
  note ok = miner_fetch_ok [OF f assms(6,3)]
  show ?thesis
  proof (cases "o1 = Go")
    case False
    then have "o1 = Again" using ok by blast
    then show ?thesis using assms(1,2) ok by (simp add: miner_round_def f)
  next
    case True
    define th1 where "th1 = th\<lparr>th_work := miner_adopt c e (th_id th) (th_work th) (m_g_work m1)\<rparr>"
    define m2 where "m2 = m1\<lparr>m_restart := (m_restart m1)[th_id th1 := False]\<rparr>"
    have "keeps c m1 m2" by (rule keeps_same) (simp_all add: m2_def)
    then have ok2: "pool_ok m2" using pool_ok_keeps assms(6) ok by blast
    have th1: "mineable (th_work th1)" "th_id th1 = th_id th"
      using miner_adopt_mineable [OF assms(6,2)] ok by (simp_all add: th1_def pool_ok_def)
    obtain wanted m3 where w: "wanna_mine c (e_temp e) (th_id th) m2 = (wanted, m3)" by (metis surj_pair)
    have "keeps c m2 m3" using w by (intro keeps_same) (auto simp: wanna_mine_def Let_def split: if_splits)
    then have ok3: "pool_ok m3" using pool_ok_keeps assms(6) ok2 by blast
    obtain o2 max64 where x: "miner_max64 c e th1 m3 = (o2, max64)" by (metis surj_pair)
    note round = assms(1) [unfolded miner_round_def f option.case prod.case True outcome.case Let_def, folded th1_def m2_def, unfolded th1(2) w prod.case x]
    have "m_have_stratum m2" using ok2 by (simp add: pool_ok_def)
    show ?thesis
    proof (cases "w_data (th_work th1) ! 0 = 0")
      case True
      then show ?thesis using round \<open>m_have_stratum m2\<close> assms(10) th1 ok2 by simp
    next
      case nz: False
      then obtain job where job: "share_of job (th_work th1)" using th1(1) by (auto simp: mineable_def)
      show ?thesis
      proof (cases "wanted \<and> o2 = Go")
        case True
        then have "miner_scan cpu c e th1 max64 m3 = Some (out, th', ws, m')" using round nz by simp
        then show ?thesis using miner_scan_ok [OF _ job ok3 assms(4-8)] th1 assms(9) by simp
      next
        case False
        then have "(out, th', ws, m') = (Again, th1, [], m3) \<or> (out, th', ws, m') = (o2, th1, [], m3)" using round nz by (auto split: if_splits)
        then show ?thesis using th1 ok3 by auto
      qed
    qed
  qed
qed

lemma submit_stratum_ok:
  assumes "submit_stratum c junk w m = Some (rc, w', m')" "\<not> jsonrpc_2 c" "pool_ok m"
  shows "pool_ok m' \<and> w' = w"
proof -
  obtain line where l: "(w', m') = (w, set_io (snd (stratum_send_line line (st_io (m_st (set_sctx ((m_sctx m)\<lparr>s_sharediff := w_sharediff w\<rparr>) m)))))
      (set_sctx ((m_sctx m)\<lparr>s_sharediff := w_sharediff w\<rparr>) m))"
    using assms(1,2) by (auto simp: submit_stratum_def Let_def split: option.splits prod.splits if_splits) (metis snd_conv)+
  have "keeps c m (set_sctx ((m_sctx m)\<lparr>s_sharediff := w_sharediff w\<rparr>) m)" by (rule keeps_ctx) (simp add: stratum_wf_def)
  then have "keeps c m m'" using l keeps_trans keeps_set(1) by blast
  then show ?thesis using pool_ok_keeps assms(2,3) l by blast
qed

lemma submit_upstream_ok:
  assumes "submit_upstream_work c loads dumps call junk wheight w m = Some (rc, w', m')" "\<not> jsonrpc_2 c" "pool_ok m"
  shows "pool_ok m' \<and> w' = w"
proof -
  have "m_have_stratum m" using assms(3) by (simp add: pool_ok_def)
  then show ?thesis using assms submit_stratum_ok by (auto simp: submit_upstream_work_def Let_def split: if_splits)
qed

lemma workio_submit_ok:
  assumes "workio_submit_work fuel c loads dumps call junk wheight w wi = Some (rc, wi')" "\<not> jsonrpc_2 c" "pool_ok (wi_miner wi)"
  shows "pool_ok (wi_miner wi')"
proof -
  let ?f = "\<lambda>(w, m). map_option (\<lambda>(rc, w, m). (rc, (w, m))) (submit_upstream_work c loads dumps call junk wheight w m)"
  obtain b w' m where r: "retry fuel (cf_retries c) 0 ?f (w, wi_miner wi) = Some (b, (w', m))" "wi' = wi\<lparr>wi_miner := m\<rparr>"
    using assms(1) by (auto simp: workio_submit_work_def)
  have "pool_ok (snd s')" if "?f s = Some (b, s')" "pool_ok (snd s)" for s b s'
    using that submit_upstream_ok [OF _ assms(2), of loads dumps call junk wheight "fst s" "snd s"] by (auto simp: case_prod_beta)
  from retry_inv [where P = "\<lambda>s. pool_ok (snd s)", OF r(1) _ this] show ?thesis using assms(3) r(2) by simp
qed

lemma sys_inv_step:
  assumes "sys_step S s t" "setting_ok S" "sys_inv S s" shows "sys_inv S t"
proof -
  have inv: "pool_ok (sy_miner s)" using assms(3) by (simp add: sys_inv_def pool_ok_def)
  have jr: "\<not> jsonrpc_2 (se_config S)" using assms(2) by (simp add: setting_ok_def)
  show ?thesis
    using assms(1)
  proof (cases rule: sys_step.cases)
    case (pool fuel junk now conns r m)
    then show ?thesis using stratum_round_ok [OF pool(2) jr inv] assms(3) by (simp add: sys_inv_def pool_ok_def)
  next
    case (mine i e out th ws m)
    have th: "mineable (th_work (sy_threads s ! i))" "th_id (sy_threads s ! i) < cf_n_threads (se_config S)"
      using assms(3) mine(2) by (auto simp: sys_inv_def)
    have "pool_ok m \<and> mineable (th_work th) \<and> th_id th = th_id (sy_threads s ! i) \<and> (\<forall>w \<in> set ws. solved w)"
      using miner_round_ok [OF mine(3) th(1) inv] assms(2) th(2) by (simp add: setting_ok_def)
    then show ?thesis
      using assms(3) th(2) mine(1) set_update_subset_insert [of "sy_threads s" i th] by (auto simp: sys_inv_def pool_ok_def)
  next
    case (submit w ws fuel junk wheight rc wi)
    then show ?thesis using workio_submit_ok [OF submit(3) jr] inv assms(3) by (simp add: sys_inv_def pool_ok_def)
  qed
qed

lemma sys_inv_init: "sys_init S s \<Longrightarrow> sys_inv S s"
  using work0_wf by (auto simp: sys_init_def sys_inv_def mineable_def work0_def)

lemma sys_reach_inv: "sys_reach S s \<Longrightarrow> setting_ok S \<Longrightarrow> sys_inv S s"
  by (induction rule: sys_reach.induct) (auto intro: sys_inv_init sys_inv_step)

section \<open>A run that submits a share\<close>

definition sample_job :: stratum_job where
  "sample_job = job0\<lparr>j_job_id := Some ''a1'', j_coinbase := [1, 0, 0, 2], j_xnonce2 := 1, j_diff := dbl_one,
     j_version := [1, 0, 0, 0], j_ntime := [1, 0, 0, 0]\<rparr>"

definition sample_pool :: miner where
  "sample_pool = set_sctx (stratum0\<lparr>s_xnonce2_size := 2, s_job := sample_job\<rparr>) miner0"

definition sample_setting :: setting where
  "sample_setting = \<lparr>se_cpu = \<lparr>cpu_8way = False, cpu_4way = False, cpu_ms8 = ms_lanes 8, cpu_ms4 = ms_lanes 4\<rparr>,
     se_config = config0, se_loads = (\<lambda>_. None), se_dumps = (\<lambda>_. []), se_curl = (\<lambda>_ _. (7, 0, [], []))\<rparr>"

definition sample_env :: env where
  "sample_env = \<lparr>e_now = 0, e_rand = 0, e_temp = dbl_zero, e_reply = None, e_stratum = False, e_push = True,
     e_restart = (\<lambda>_. False), e_sec = 0, e_usec = 0\<rparr>"

definition easy :: "work \<Rightarrow> work" where
  "easy w = w\<lparr>w_target := replicate 8 (-1)\<rparr>"

definition sample_start :: "work \<Rightarrow> sys" where
  "sample_start w = \<lparr>sy_miner = set_g_work (easy w) sample_pool,
     sy_threads = map (\<lambda>i. \<lparr>th_id = i, th_work = work0, th_first = 0\<rparr>) [0..<2], sy_submits = []\<rparr>"

lemma sample_setting_ok: "setting_ok sample_setting"
  using lanes8.ms_kernel_axioms lanes4.ms_kernel_axioms
  by (simp add: setting_ok_def sample_setting_def config0_def opts0_def)

lemma sample_pool_wf: "miner_wf sample_pool" "m_have_stratum sample_pool"
  using miner_wf0 by (simp_all add: sample_pool_def miner_wf_def state_wf_def stratum_wf_def set_sctx_def miner0_def
      stratum_state0_def stratum0_def job_wf_def job0_def work_wf_def work0_def sample_job_def)

lemma sample_generated:
  obtains w m' where "stratum_gen_work config0 work0 sample_pool = Some (w, m')"
proof -
  have "diff_to_target (ddiv dbl_one dbl_one) \<noteq> None" by code_simp
  then have "gen_ready config0 (m_sctx sample_pool)" by (simp add: gen_ready_def sample_pool_def sample_job_def config0_def)
  then show thesis using gen_sample_ready(2) that by (rule gen_work_defined)
qed

lemma sample_work:
  assumes "stratum_gen_work config0 work0 sample_pool = Some (w, m')"
  shows "share_of sample_job (easy w)" "w_data w ! 0 = 1" "w_data w ! 17 = 1" "length (w_data w) = 48" "padded_work (easy w)"
proof -
  have "share_of (s_job (m_sctx sample_pool)) w"
    using generated_share(1) [OF assms gen_sample_ready(2) sample_pool_wf(1) work0_wf] .
  then have s: "share_of sample_job w" by (simp add: sample_pool_def)
  then show "share_of sample_job (easy w)" "padded_work (easy w)"
    by (auto simp: share_of_def easy_def padded_work_def work_wf_def split: option.splits)
  show "length (w_data w) = 48" using s by (simp add: share_of_def padded_work_def)
  have "length (w_data work0) = 48" by (simp add: work0_def)
  note layout = gen_header_layout [OF this]
  from assms gen_sample_ready(2) have "w_data w ! 0 = le32dec (j_version sample_job) \<and> w_data w ! 17 = le32dec (j_ntime sample_job)"
    by (cases rule: gen_work_cases) (simp add: layout sample_pool_def header_words_def nth_append nth_Cons' del: upt_rec_numeral)
  then show "w_data w ! 0 = 1" "w_data w ! 17 = 1" by (simp_all add: sample_job_def le32dec_def)
qed

lemma sample_differs: "length data = 48 \<Longrightarrow> data ! 17 = 1 \<Longrightarrow> work_differs False (w_data work0) data"
proof -
  assume d: "length data = 48" "data ! 17 = 1"
  let ?a = "bytes_of_words (w_data work0)" and ?b = "bytes_of_words data"
  have ne: "take 4 (drop (4 * 17) ?a) \<noteq> take 4 (drop (4 * 17) ?b)"
    using d by (subst (1 2) take4_bytes_of_words) (simp_all add: work0_def le32enc_def)
  have "take 33 (drop 43 ?a) \<noteq> take 33 (drop 43 ?b)"
  proof
    assume "take 33 (drop 43 ?a) = take 33 (drop 43 ?b)"
    then have "take 4 (drop 25 (take 33 (drop 43 ?a))) = take 4 (drop 25 (take 33 (drop 43 ?b)))" by simp
    then show False using ne by (simp add: drop_take min_def)
  qed
  moreover have "take 76 ?a \<noteq> take 76 ?b"
  proof
    assume "take 76 ?a = take 76 ?b"
    then have "take 4 (drop 68 (take 76 ?a)) = take 4 (drop 68 (take 76 ?b))" by simp
    then show False using ne by (simp add: drop_take min_def)
  qed
  ultimately show "work_differs False (w_data work0) data" by (simp add: work_differs_def nonce_oft_def Let_def)
qed

lemma sample_round:
  assumes "stratum_gen_work config0 work0 sample_pool = Some (w, m')"
  shows "\<exists>th ws m1. miner_round (se_cpu sample_setting) config0 sample_env \<lparr>th_id = 0, th_work = work0, th_first = 0\<rparr>
    (set_g_work (easy w) sample_pool) = Some (Go, th, ws, m1) \<and> ws \<noteq> []"
proof -
  note sw = sample_work [OF assms]
  let ?th = "\<lparr>th_id = 0, th_work = work0, th_first = 0\<rparr>" and ?m = "set_g_work (easy w) sample_pool"
  have data: "w_data (easy w) = w_data w" by (simp add: easy_def)
  have m: "m_have_stratum ?m" "st_g_work_time (m_st ?m) = 0" "m_g_work ?m = easy w" "m_hashrates ?m = [dbl_zero, dbl_zero]"
    "m_net_diff ?m = dbl_zero" "m_net_hashrate ?m = dbl_zero"
    by (simp_all add: set_g_work_def sample_pool_def set_sctx_def miner0_def stratum_state0_def)
  have c: "\<not> jsonrpc_2 config0" "cf_n_threads config0 = 2" "\<not> cf_randomize config0" "\<not> cf_benchmark config0" "cf_time_limit config0 = 0"
    "cf_max_temp config0 = dbl_zero" "cf_max_diff config0 = dbl_zero" "cf_max_rate config0 = dbl_zero"
    by (simp_all add: config0_def opts0_def)
  have "get_nonce False (w_data work0) = 0" by (subst get_nonce_header) (simp_all add: work0_def)
  then have fetch: "miner_fetch config0 sample_env ?th ?m = Some (Go, ?m)"
    by (simp add: miner_fetch_def c m Let_def sample_env_def end_nonce_def)
  define w1 where "w1 = miner_adopt config0 sample_env 0 work0 (easy w)"
  have w1: "w_data w1 = (w_data w)[19 := 0]" "w_target w1 = replicate 8 (-1)"
    using miner_adopt_new [OF c(1,3), of work0 "easy w" sample_env 0] sample_differs [OF sw(4,3)] sw(4)
    by (simp_all add: w1_def data c easy_def start_nonce_def)
  have hdr: "header_ok w1"
  proof -
    have "padded_work w1" using sw(5) w1 by (simp add: padded_work_def data drop_update_cancel)
    then show ?thesis by (rule padded_header_ok)
  qed
  define limit where "limit = scan_limit (end_nonce 2 0) (get_nonce False (w_data w1)) 0"
  have nonce: "get_nonce False (w_data w1) = 0" "w_data w1 ! 19 = 0" using sw(4) by (simp_all add: w1 get_nonce_header)
  have limit: "unat limit + 8 \<le> 4294967296" "w_data w1 ! 19 \<le> 0" "0 \<le> limit"
    by (simp_all add: limit_def nonce scan_limit_def end_nonce_def)
  have meets: "meets w1 0" unfolding meets_def w1(2) by (rule fulltest_full_target) (rule length_nonce_hash)
  have free: "\<forall>t. \<not> (\<lambda>_ :: nat. False) t" by simp
  obtain n d where scan: "scanhash_sha256d False False (ms_lanes 8) (ms_lanes 4) (cf_showdiff config0) (\<lambda>_. False) w1 limit
      = Some (True, found_work (cf_showdiff config0) w1 n, d)"
    using scanhash_reaches_solution [OF lanes8.ms_kernel_axioms lanes4.ms_kernel_axioms hdr limit(1) free limit(2,3) meets,
        of False False "cf_showdiff config0"] by (elim exE conjE)
  have rate: "dbl_to_i64 dbl_zero = Some 0" by code_simp
  have zero: "\<not> dlt dbl_zero dbl_zero" by code_simp
  let ?m2 = "?m\<lparr>m_restart := (m_restart ?m)[0 := False]\<rparr>"
  have m2: "m_have_stratum ?m2" "m_hashrates ?m2 = [dbl_zero, dbl_zero]" "m_net_diff ?m2 = dbl_zero" "m_net_hashrate ?m2 = dbl_zero"
    using m by simp_all
  obtain m3 where mine: "wanna_mine config0 (e_temp sample_env) 0 ?m2 = (True, m3)" "m_have_stratum m3" "m_hashrates m3 = [dbl_zero, dbl_zero]"
    by (simp add: wanna_mine_def c zero m Let_def MAX_CPUS_def)
  let ?th1 = "\<lparr>th_id = 0, th_work = w1, th_first = 0\<rparr>"
  have max64: "miner_max64 config0 sample_env ?th1 m3 = (Go, LP_SCANTIME)" by (simp add: miner_max64_def c mine(2))
  have "\<exists>th ws m1. miner_scan (se_cpu sample_setting) config0 sample_env ?th1 LP_SCANTIME m3 = Some (Go, th, ws, m1) \<and> ws \<noteq> []"
    using scan by (simp add: miner_scan_def mine rate c Let_def sample_setting_def sample_env_def miner_stats_def submit_work_def limit_def)
  then show ?thesis
    using sw(2,4) by (simp add: miner_round_def fetch m(3) flip: w1_def) (simp add: w1 m2 mine max64 Let_def)
qed

lemma sample_reaches:
  "\<exists>s w. sys_reach sample_setting s \<and> w \<in> set (sy_submits s)"
proof -
  obtain w m' where g: "stratum_gen_work config0 work0 sample_pool = Some (w, m')" by (rule sample_generated)
  have "mineable (easy w)" using sample_work(1) [OF g] by (auto simp: mineable_def share_of_def)
  then have "sys_init sample_setting (sample_start w)"
    using sample_pool_wf by (simp add: sys_init_def sample_start_def sample_setting_def config0_def miner_wf_def state_wf_def
        set_g_work_def mineable_def)
  then have "sys_reach sample_setting (sample_start w)" by (rule sys_reach.start)
  moreover obtain th ws m1 where "miner_round (se_cpu sample_setting) config0 sample_env (sy_threads (sample_start w) ! 0)
      (sy_miner (sample_start w)) = Some (Go, th, ws, m1)" "ws \<noteq> []"
    using sample_round [OF g] by (auto simp: sample_start_def)
  then have "sys_step sample_setting (sample_start w)
      \<lparr>sy_miner = m1, sy_threads = (sy_threads (sample_start w))[0 := th], sy_submits = sy_submits (sample_start w) @ ws\<rparr>"
    by (intro sys_step.mine) (simp_all add: sample_start_def sample_setting_def)
  ultimately have "sys_reach sample_setting
      \<lparr>sy_miner = m1, sy_threads = (sy_threads (sample_start w))[0 := th], sy_submits = sy_submits (sample_start w) @ ws\<rparr>"
    by (rule sys_reach.step)
  moreover obtain x where "x \<in> set ws" using \<open>ws \<noteq> []\<close> by (cases ws) auto
  ultimately show ?thesis by (intro exI [where x = x] exI conjI) (assumption, simp)
qed

section \<open>Properties\<close>

text \<open>C2: in every state that the stratum thread, the miner threads and the workio thread can reach together, whatever
  the pool sends and however they interleave, the connection, the job and the works are well formed and
  every thread and the global work hold either no work or a work that belongs to a job.\<close>

theorem reachable_state_wf:
  assumes "setting_ok S" and "sys_reach S s"
  shows "miner_wf (sy_miner s) \<and> m_have_stratum (sy_miner s) \<and> mineable (m_g_work (sy_miner s)) \<and>
    (\<forall>th \<in> set (sy_threads s). mineable (th_work th) \<and> th_id th < cf_n_threads (se_config S))"
  using sys_reach_inv [OF assms(2,1)] by (simp add: sys_inv_def)

theorem reachable_state_wf_witness:
  "\<exists>s. sys_reach sample_setting s \<and> sy_submits s \<noteq> [] \<and> miner_wf (sy_miner s) \<and> mineable (m_g_work (sy_miner s))"
proof -
  obtain s w where s: "sys_reach sample_setting s" "w \<in> set (sy_submits s)" using sample_reaches by blast
  from reachable_state_wf [OF sample_setting_ok s(1)] s show ?thesis by auto
qed



end
