(* ===== verification/Cfloat.thy ===== *)
theory Cfloat
  imports Cstring Double
begin

text \<open>
  The functions of the C library between text and binary64: \<^verbatim>\<open>strtod\<close> (through \<^verbatim>\<open>atof\<close>) and the format
  \<^verbatim>\<open>%f\<close>, both correctly rounded, and the conversions of integers that do not fit. Nothing here models
  code of the program itself.
\<close>

section \<open>Reading\<close>

text \<open>The digits before and after the point, and what follows them.\<close>

definition float_digits :: "nat \<Rightarrow> string \<Rightarrow> string \<times> string \<times> string" where
  "float_digits base s =
    (let ds = takeWhile (is_digit_of base) s; r = drop (length ds) s in
     case r of
       c # t \<Rightarrow>
         if c = CHR ''.'' then
           let fs = takeWhile (is_digit_of base) t
           in if ds = [] \<and> fs = [] then ([], [], r) else (ds, fs, drop (length fs) t)
         else (ds, [], r)
     | [] \<Rightarrow> (ds, [], r))"

text \<open>The exponent after its letter, zero when no digit follows.\<close>

definition float_exponent :: "char \<Rightarrow> string \<Rightarrow> int" where
  "float_exponent e s =
    (case s of
       c # t \<Rightarrow>
         if tolower c = e then
           (case strto_sign t of (neg, u) \<Rightarrow>
              let n = int (digits_val 10 (takeWhile isdigit u)) in if neg then - n else n)
         else 0
     | [] \<Rightarrow> 0)"

definition scale :: "int \<Rightarrow> int \<Rightarrow> rat" where
  "scale b e = (if 0 \<le> e then of_int b ^ nat e else 1 / of_int b ^ nat (- e))"

definition strtod :: "string \<Rightarrow> double" where
  "strtod s =
    (case strto_sign (dropWhile isspace s) of (neg, s) \<Rightarrow>
      let sgn = (\<lambda>x :: rat. dbl_round neg (if neg then - x else x)) in
      if strncasecmp_eq s ''inf'' 3 then DInf neg
      else if strncasecmp_eq s ''nan'' 3 then DNaN
      else
        case float_digits 16 (drop 2 s) of (hds, hfs, hr) \<Rightarrow>
          if strncasecmp_eq s ''0x'' 2 \<and> hds @ hfs \<noteq> [] then
            sgn (of_nat (digits_val 16 (hds @ hfs)) * scale 2 (float_exponent CHR ''p'' hr - 4 * int (length hfs)))
          else
            case float_digits 10 s of (ds, fs, r) \<Rightarrow>
              if ds @ fs = [] then dbl_zero
              else sgn (of_nat (digits_val 10 (ds @ fs)) * scale 10 (float_exponent CHR ''e'' r - int (length fs))))"

definition atof :: "string \<Rightarrow> double" where
  "atof s = strtod s"

definition atol :: "string \<Rightarrow> int" where
  "atol s = fst (strtol 10 s)"

text \<open>\<^verbatim>\<open>strtoul\<close>: a minus sign negates in the unsigned type; a magnitude that does not fit gives the
  largest value.\<close>

definition strtoul :: "nat \<Rightarrow> string \<Rightarrow> u64" where
  "strtoul base s =
    (let v = fst (strto_int base s) in if \<bar>v\<bar> > 18446744073709551615 then -1 else word_of_int v)"

section \<open>Printing\<close>

definition pad_zeros :: "nat \<Rightarrow> string \<Rightarrow> string" where
  "pad_zeros n s = replicate (n - length s) (CHR ''0'') @ s"

text \<open>The format \<^verbatim>\<open>%.pf\<close>; \<^verbatim>\<open>%f\<close> has six decimals.\<close>

fun fmt_fixed :: "nat \<Rightarrow> double \<Rightarrow> string" where
  "fmt_fixed p (DZero neg) = (if neg then ''-0'' else ''0'') @ (if p = 0 then [] else ''.'' @ pad_zeros p [])"
| "fmt_fixed p (DFin x) =
    (let n = nat (round_even (\<bar>x\<bar> * 10 ^ p))
     in (if x < 0 then ''-'' else []) @ dec_nat (n div 10 ^ p) @
        (if p = 0 then [] else ''.'' @ pad_zeros p (dec_nat (n mod 10 ^ p))))"
| "fmt_fixed p (DInf neg) = (if neg then ''-inf'' else ''inf'')"
| "fmt_fixed p DNaN = ''nan''"

definition fmt_f :: "double \<Rightarrow> string" where
  "fmt_f = fmt_fixed 6"

end
