(* ===== verification/Options.thy ===== *)
theory Options
  imports Http Hexcodec Cfloat
begin

text \<open>
  The options of \<^verbatim>\<open>cpu-miner.c\<close>: the record \<open>opts\<close> has the global variables that \<^verbatim>\<open>parse_arg\<close> sets, with
  their initial values in \<open>opts_default\<close>; \<^verbatim>\<open>parse_arg\<close> itself in the order of its cases, the configuration file,
  and the command line. The processors, the command line as \<^verbatim>\<open>getopt_long\<close> splits it, the files and the transfers are
  the record \<open>host\<close>. Texts are C strings; the argument, which \<^verbatim>\<open>parse_arg\<close> changes to hide passwords, is returned as
  the bytes of its buffer before the terminating zero. Log lines and messages are left out.
\<close>

section \<open>Outcomes\<close>

text \<open>The end of the process with its status, undefined behaviour, and configuration files nested deeper than the
  fuel.\<close>

datatype 'a run = Done 'a | Exits int | Undefined | Deep

fun run_bind :: "'a run \<Rightarrow> ('a \<Rightarrow> 'b run) \<Rightarrow> 'b run" where
  "run_bind (Done x) f = f x"
| "run_bind (Exits n) f = Exits n"
| "run_bind Undefined f = Undefined"
| "run_bind Deep f = Deep"

section \<open>State\<close>

datatype algos = ALGO_SHA256D

record opts =
  o_algo :: algos
  o_scrypt_n :: int
  o_debug :: bool
  o_protocol :: bool
  o_benchmark :: bool
  o_redirect :: bool
  o_showdiff :: bool
  o_extranonce :: bool
  o_want_longpoll :: bool
  o_have_gbt :: bool
  o_allow_getwork :: bool
  o_want_stratum :: bool
  o_have_stratum :: bool
  o_use_syslog :: bool
  o_use_colors :: bool
  o_background :: bool
  o_quiet :: bool
  o_randomize :: bool
  o_maxlograte :: int
  o_retries :: int
  o_fail_pause :: int
  o_time_limit :: int
  o_timeout :: int
  o_scantime :: int
  o_n_threads :: int
  o_priority :: int
  o_affinity :: u64
  o_diff_factor :: double
  o_max_temp :: double
  o_max_diff :: double
  o_max_rate :: double
  o_rpc_url :: "string option"
  o_short_url :: "string option"
  o_rpc_userpass :: "string option"
  o_rpc_user :: string
  o_rpc_pass :: string
  o_pk_script :: "u8 list"
  o_pk_script_size :: nat
  o_coinbase_sig :: string
  o_cert :: "string option"
  o_proxy :: "string option"
  o_proxy_type :: nat
  o_api_allow :: "string option"
  o_api_listen :: int
  o_api_remote :: bool

text \<open>\<^verbatim>\<open>main\<close> sets \<^verbatim>\<open>rpc_user\<close>, \<^verbatim>\<open>rpc_pass\<close> and \<^verbatim>\<open>opt_api_allow\<close> before it reads the options.\<close>

definition opts_default :: opts where
  "opts_default = \<lparr>o_algo = ALGO_SHA256D, o_scrypt_n = 1024, o_debug = False, o_protocol = False, o_benchmark = False,
     o_redirect = True, o_showdiff = True, o_extranonce = True, o_want_longpoll = True, o_have_gbt = True,
     o_allow_getwork = True, o_want_stratum = True, o_have_stratum = False, o_use_syslog = False, o_use_colors = True,
     o_background = False, o_quiet = False, o_randomize = False, o_maxlograte = 5, o_retries = - 1, o_fail_pause = 30,
     o_time_limit = 0, o_timeout = 300, o_scantime = 5, o_n_threads = 0, o_priority = 0, o_affinity = -1,
     o_diff_factor = dbl_one, o_max_temp = dbl_zero, o_max_diff = dbl_zero, o_max_rate = dbl_zero, o_rpc_url = None,
     o_short_url = None, o_rpc_userpass = None, o_rpc_user = [], o_rpc_pass = [], o_pk_script = replicate 25 0,
     o_pk_script_size = 0, o_coinbase_sig = [], o_cert = None, o_proxy = None, o_proxy_type = 0,
     o_api_allow = Some ''127.0.0.1'', o_api_listen = 4048, o_api_remote = False\<rparr>"

text \<open>What the options depend on: the number of processors, the parser for JSON texts, files and transfers
  with their proxy.\<close>

record host =
  ho_cpus :: int
  ho_loads :: "string \<Rightarrow> json option"
  ho_load_file :: "string \<Rightarrow> json option"
  ho_fetch :: "string \<Rightarrow> string option \<Rightarrow> nat \<Rightarrow> int \<times> string list"

section \<open>The table of long options\<close>

text \<open>Name, whether an argument follows, key.\<close>

definition options :: "(string \<times> bool \<times> nat) list" where
  "options = [(''algo'', True, code CHR ''a''), (''api-bind'', True, code CHR ''b''), (''api-remote'', False, 1030),
     (''background'', False, code CHR ''B''), (''benchmark'', False, 1005), (''cputest'', False, 1006),
     (''cert'', True, 1001), (''coinbase-addr'', True, 1016), (''coinbase-sig'', True, 1015),
     (''config'', True, code CHR ''c''), (''cpu-affinity'', True, 1020), (''cpu-priority'', True, 1021),
     (''no-color'', False, 1002), (''debug'', False, code CHR ''D''), (''diff-factor'', True, code CHR ''f''),
     (''diff'', True, code CHR ''f''), (''diff-multiplier'', True, code CHR ''m''), (''help'', False, code CHR ''h''),
     (''nfactor'', True, code CHR ''n''), (''no-gbt'', False, 1011), (''no-getwork'', False, 1010),
     (''no-longpoll'', False, 1003), (''no-redirect'', False, 1009), (''no-stratum'', False, 1007),
     (''no-extranonce'', False, 1012), (''max-temp'', True, 1060), (''max-diff'', True, 1061),
     (''max-rate'', True, 1062), (''pass'', True, code CHR ''p''), (''protocol'', False, code CHR ''P''),
     (''protocol-dump'', False, code CHR ''P''), (''proxy'', True, code CHR ''x''), (''quiet'', False, code CHR ''q''),
     (''retries'', True, code CHR ''r''), (''retry-pause'', True, code CHR ''R''), (''randomize'', False, 1024),
     (''scantime'', True, code CHR ''s''), (''show-diff'', False, 1013), (''hide-diff'', False, 1014),
     (''max-log-rate'', True, 1019), (''syslog'', False, code CHR ''S''), (''time-limit'', True, 1008),
     (''threads'', True, code CHR ''t''), (''timeout'', True, code CHR ''T''), (''url'', True, code CHR ''o''),
     (''user'', True, code CHR ''u''), (''userpass'', True, code CHR ''O''), (''version'', False, code CHR ''V'')]"

section \<open>Cases of parse_arg\<close>

text \<open>The first character of a secret becomes an x, the others are cleared.\<close>

definition strhide :: "string \<Rightarrow> string" where
  "strhide s = (case s of [] \<Rightarrow> [] | ch # t \<Rightarrow> CHR ''x'' # replicate (length t) (CHR 0x00))"

text \<open>The loop over the names; an empty name never matches. \<open>None\<close> when no name does.\<close>

definition algo_names :: "(string \<times> algos) list" where
  "algo_names = [(''sha256d'', ALGO_SHA256D)]"

fun algo_search :: "(string \<times> algos) list \<Rightarrow> string \<Rightarrow> opts \<Rightarrow> opts option" where
  "algo_search [] arg ol = None"
| "algo_search ((name, a) # names) arg ol =
    (let v = length name in
     if v \<noteq> 0 \<and> strncasecmp_eq arg name v then
       if length arg = v then Some (ol\<lparr>o_algo := a\<rparr>)
       else if arg ! v = CHR '':'' then
         (case strtol 10 (drop (v + 1) arg) of (n, ep) \<Rightarrow>
            let n = to_int32 n in
            if ep \<noteq> [] \<or> n < 2 then algo_search names arg ol
            else Some (ol\<lparr>o_algo := a, o_scrypt_n := n\<rparr>))
       else algo_search names arg ol
     else algo_search names arg ol)"

text \<open>\<^verbatim>\<open>--api-bind\<close>: address and port, an address or a port.\<close>

definition parse_api_bind :: "string \<Rightarrow> opts \<Rightarrow> opts" where
  "parse_api_bind arg ol =
    (case strstr arg '':'' of
       Some p \<Rightarrow>
         let n = length arg - length p;
             ol = (if n > 0 then ol\<lparr>o_api_allow := Some (take n arg)\<rparr> else ol)
         in ol\<lparr>o_api_listen := atoi (drop 1 p)\<rparr>
     | None \<Rightarrow>
         if strstr arg ''.'' \<noteq> None then ol\<lparr>o_api_allow := Some arg\<rparr>
         else ol\<lparr>o_api_listen := atoi arg\<rparr>)"

text \<open>A number with its sanity check; a value out of range ends the program.\<close>

definition ranged :: "int \<Rightarrow> int \<Rightarrow> string \<Rightarrow> (int \<Rightarrow> opts) \<Rightarrow> opts run" where
  "ranged lo hi arg set_to = (let v = atoi arg in if v < lo \<or> v > hi then Exits 1 else Done (set_to v))"

subsection \<open>The address of the server\<close>

text \<open>A C string inside a buffer.\<close>

definition cstr_at :: "string \<Rightarrow> nat \<Rightarrow> string" where
  "cstr_at mem i = cstr (drop i mem)"

text \<open>The credentials between \<open>ap\<close> and the at sign at \<open>hp\<close>: they are taken over and the password is removed from the
  buffer, the rest of the address moving up behind a single x. The result has the buffer and the
  position behind the at sign. Clearing a negative number of bytes is undefined.\<close>

definition url_credentials :: "string \<Rightarrow> nat \<Rightarrow> nat \<Rightarrow> opts \<Rightarrow> (opts \<times> string \<times> nat) run" where
  "url_credentials mem ap hp ol =
    (let mem = mem[hp := CHR 0x00]; up = cstr_at mem ap in
     case strchr up CHR '':'' of
       None \<Rightarrow> Done (ol\<lparr>o_rpc_user := up\<rparr>, mem[hp := CHR ''@''], hp + 1)
     | Some r \<Rightarrow>
         let p = ap + (length up - length r);
             ol = ol\<lparr>o_rpc_userpass := Some up, o_rpc_user := take (p - ap) up, o_rpc_pass := cstr_at mem (p + 1)\<rparr>;
             p = p + 1;
             (mem, p) = (if mem ! p \<noteq> CHR 0x00 then (mem[p := CHR ''x''], p + 1) else (mem, p));
             v = length (cstr_at mem (hp + 1)) + 1;
             mem' = memcpy_at mem (p + 1) (take v (drop (hp + 1) mem))
         in if hp < p then Undefined
            else
              let mem = memcpy_at mem' (p + v) (replicate (hp - p) (CHR 0x00))
              in Done (ol, mem[p := CHR ''@''], p + 1))"

definition known_protocol :: "string \<Rightarrow> bool" where
  "known_protocol url \<longleftrightarrow> strncasecmp_eq url ''http://'' 7 \<or> strncasecmp_eq url ''https://'' 8 \<or>
     strncasecmp_eq url ''stratum+tcp://'' 14"

definition set_url :: "string \<Rightarrow> string \<Rightarrow> opts \<Rightarrow> opts" where
  "set_url url short ol = ol\<lparr>o_rpc_url := Some url, o_short_url := Some short,
     o_have_stratum := (\<not> o_benchmark ol \<and> strncasecmp_eq url ''stratum'' 7)\<rparr>"

text \<open>\<^verbatim>\<open>--url\<close>: the options and the argument's buffer.\<close>

definition parse_url :: "string \<Rightarrow> opts \<Rightarrow> (opts \<times> string) run" where
  "parse_url arg ol =
    (let mem = arg @ [CHR 0x00];
         ap = (case strstr arg ''://'' of Some r \<Rightarrow> length arg - length r + 3 | None \<Rightarrow> 0)
     in run_bind (case strrchr arg CHR ''@'' of
                    Some r \<Rightarrow> url_credentials mem ap (length arg - length r) ol
                  | None \<Rightarrow> Done (ol, mem, ap))
          (\<lambda>(ol, mem, hp).
             if ap \<noteq> 0 then
               (if \<not> known_protocol (cstr mem) then Exits 1
                else if length (cstr_at mem hp) > length (cstr mem) - ap then Undefined
                else Done (set_url (take ap (cstr mem) @ cstr_at mem hp) (cstr_at mem hp) ol, butlast mem))
             else if cstr_at mem hp = [] \<or> hd (cstr_at mem hp) = CHR ''/'' then Exits 1
             else Done (set_url (''http://'' @ cstr_at mem hp) (cstr_at mem hp) ol, butlast mem)))"

text \<open>\<^verbatim>\<open>--userpass\<close>: user and password, the password hidden.\<close>

definition parse_userpass :: "string \<Rightarrow> opts \<Rightarrow> (opts \<times> string) run" where
  "parse_userpass arg ol =
    (case strchr arg CHR '':'' of
       None \<Rightarrow> Exits 1
     | Some r \<Rightarrow>
         let n = length arg - length r
         in Done (ol\<lparr>o_rpc_userpass := Some arg, o_rpc_user := take n arg, o_rpc_pass := drop 1 r\<rparr>,
              take (n + 1) arg @ strhide (drop 1 r)))"

subsection \<open>Other options with an argument\<close>

text \<open>The constants of libcurl.\<close>

definition CURLPROXY_HTTP :: nat where "CURLPROXY_HTTP = 0"
definition CURLPROXY_SOCKS4 :: nat where "CURLPROXY_SOCKS4 = 4"
definition CURLPROXY_SOCKS5 :: nat where "CURLPROXY_SOCKS5 = 5"
definition CURLPROXY_SOCKS4A :: nat where "CURLPROXY_SOCKS4A = 6"
definition CURLPROXY_SOCKS5_HOSTNAME :: nat where "CURLPROXY_SOCKS5_HOSTNAME = 7"

definition parse_proxy :: "string \<Rightarrow> opts \<Rightarrow> opts" where
  "parse_proxy arg ol =
    ol\<lparr>o_proxy_type :=
         (if strncasecmp_eq arg ''socks4://'' 9 then CURLPROXY_SOCKS4
          else if strncasecmp_eq arg ''socks5://'' 9 then CURLPROXY_SOCKS5
          else if strncasecmp_eq arg ''socks4a://'' 10 then CURLPROXY_SOCKS4A
          else if strncasecmp_eq arg ''socks5h://'' 10 then CURLPROXY_SOCKS5_HOSTNAME
          else CURLPROXY_HTTP),
       o_proxy := Some arg\<rparr>"

text \<open>\<^verbatim>\<open>--coinbase-addr\<close>: the script is written into the 25 bytes of \<^verbatim>\<open>pk_script\<close>.\<close>

definition parse_coinbase_addr :: "string \<Rightarrow> opts \<Rightarrow> opts run" where
  "parse_coinbase_addr arg ol =
    (case address_to_script (length (o_pk_script ol)) arg of
       None \<Rightarrow> Undefined
     | Some (n, s) \<Rightarrow>
         if n = 0 then Exits 1
         else Done (ol\<lparr>o_pk_script := memcpy_at (o_pk_script ol) 0 s, o_pk_script_size := n\<rparr>))"

definition parse_coinbase_sig :: "string \<Rightarrow> opts \<Rightarrow> opts run" where
  "parse_coinbase_sig arg ol =
    (if length arg + 1 > 101 then Exits 1 else Done (ol\<lparr>o_coinbase_sig := arg\<rparr>))"

text \<open>\<^verbatim>\<open>--cpu-affinity\<close>: a mask that names more processors than there are becomes the mask of all. Shifting a word by
  its width is undefined.\<close>

definition parse_affinity :: "host \<Rightarrow> string \<Rightarrow> opts \<Rightarrow> opts run" where
  "parse_affinity h arg ol =
    (let ul = (case strstr arg ''0x'' of Some p \<Rightarrow> strtoul 16 p | None \<Rightarrow> word_of_int (atol arg)) in
     if ho_cpus h \<ge> 64 then Undefined
     else Done (ol\<lparr>o_affinity := (if ul > push_bit (nat (ho_cpus h)) 1 - 1 then -1 else ul)\<rparr>))"

definition parse_max_rate :: "string \<Rightarrow> double" where
  "parse_max_rate arg =
    (let d = atof arg;
         d = (if strstr arg ''K'' \<noteq> None then dmul d (DFin 1000) else d);
         d = (if strstr arg ''M'' \<noteq> None then dmul d (DFin 1000000) else d)
     in if strstr arg ''G'' \<noteq> None then dmul d (DFin 1000000000) else d)"

section \<open>The switch\<close>

text \<open>The options that take no argument and change one or a few variables; \<open>None\<close> for other keys.\<close>

definition parse_flag :: "nat \<Rightarrow> opts \<Rightarrow> opts option" where
  "parse_flag key ol =
    (if key = 1030 then Some (ol\<lparr>o_api_remote := True\<rparr>)
     else if key = code CHR ''B'' then Some (ol\<lparr>o_background := True, o_use_colors := False\<rparr>)
     else if key = code CHR ''C'' then Some ol
     else if key = code CHR ''q'' then Some (ol\<lparr>o_quiet := True\<rparr>)
     else if key = code CHR ''D'' then Some (ol\<lparr>o_debug := True\<rparr>)
     else if key = code CHR ''P'' then Some (ol\<lparr>o_protocol := True\<rparr>)
     else if key = 1002 then Some (ol\<lparr>o_use_colors := False\<rparr>)
     else if key = 1003 then Some (ol\<lparr>o_want_longpoll := False\<rparr>)
     else if key = 1005 then Some (ol\<lparr>o_benchmark := True, o_want_longpoll := False, o_want_stratum := False, o_have_stratum := False\<rparr>)
     else if key = 1007 then Some (ol\<lparr>o_want_stratum := False, o_extranonce := False\<rparr>)
     else if key = 1009 then Some (ol\<lparr>o_redirect := False\<rparr>)
     else if key = 1010 then Some (ol\<lparr>o_allow_getwork := False\<rparr>)
     else if key = 1011 then Some (ol\<lparr>o_have_gbt := False\<rparr>)
     else if key = 1012 then Some (ol\<lparr>o_extranonce := False\<rparr>)
     else if key = 1013 then Some (ol\<lparr>o_showdiff := True\<rparr>)
     else if key = 1014 then Some (ol\<lparr>o_showdiff := False\<rparr>)
     else if key = code CHR ''S'' then Some (ol\<lparr>o_use_syslog := True, o_use_colors := False\<rparr>)
     else if key = 1024 then Some (ol\<lparr>o_randomize := True\<rparr>)
     else None)"

text \<open>The options whose argument is a number.\<close>

definition parse_number :: "host \<Rightarrow> nat \<Rightarrow> string \<Rightarrow> opts \<Rightarrow> opts run option" where
  "parse_number h key arg ol =
    (if key = code CHR ''r'' then Some (ranged (-1) 9999 arg (\<lambda>v. ol\<lparr>o_retries := v\<rparr>))
     else if key = code CHR ''R'' then Some (ranged 1 9999 arg (\<lambda>v. ol\<lparr>o_fail_pause := v\<rparr>))
     else if key = code CHR ''s'' then Some (ranged 1 9999 arg (\<lambda>v. ol\<lparr>o_scantime := v\<rparr>))
     else if key = code CHR ''T'' then Some (ranged 1 99999 arg (\<lambda>v. ol\<lparr>o_timeout := v\<rparr>))
     else if key = code CHR ''t'' then Some (ranged 0 9999 arg (\<lambda>v. ol\<lparr>o_n_threads := v\<rparr>))
     else if key = 1008 then Some (Done (ol\<lparr>o_time_limit := atoi arg\<rparr>))
     else if key = code CHR ''f'' then
       Some (let d = atof arg in if deq d dbl_zero then Exits 1 else Done (ol\<lparr>o_diff_factor := d\<rparr>))
     else if key = code CHR ''m'' then
       Some (let d = atof arg in if deq d dbl_zero then Exits 1 else Done (ol\<lparr>o_diff_factor := ddiv dbl_one d\<rparr>))
     else if key = 1019 then Some (Done (ol\<lparr>o_maxlograte := atoi arg\<rparr>))
     else if key = 1020 then Some (parse_affinity h arg ol)
     else if key = 1021 then Some (ranged 0 5 arg (\<lambda>v. ol\<lparr>o_priority := v\<rparr>))
     else if key = 1060 then Some (Done (ol\<lparr>o_max_temp := atof arg\<rparr>))
     else if key = 1061 then Some (Done (ol\<lparr>o_max_diff := atof arg\<rparr>))
     else if key = 1062 then Some (Done (ol\<lparr>o_max_rate := parse_max_rate arg\<rparr>))
     else None)"

text \<open>Everything but the configuration file. The test of the hash functions, the version and the help end the
  program, as does a key that is not known.\<close>

definition parse_option :: "host \<Rightarrow> nat \<Rightarrow> string \<Rightarrow> opts \<Rightarrow> (opts \<times> string) run" where
  "parse_option h key arg ol =
    (case parse_flag key ol of
       Some ol \<Rightarrow> Done (ol, arg)
     | None \<Rightarrow>
         (case parse_number h key arg ol of
            Some r \<Rightarrow> run_bind r (\<lambda>ol. Done (ol, arg))
          | None \<Rightarrow>
              if key = code CHR ''a'' then (case algo_search algo_names arg ol of None \<Rightarrow> Exits 1 | Some ol \<Rightarrow> Done (ol, arg))
              else if key = code CHR ''b'' then Done (parse_api_bind arg ol, arg)
              else if key = code CHR ''n'' then Done (ol, arg)
              else if key = code CHR ''p'' then Done (ol\<lparr>o_rpc_pass := arg\<rparr>, strhide arg)
              else if key = code CHR ''u'' then Done (ol\<lparr>o_rpc_user := arg\<rparr>, arg)
              else if key = code CHR ''o'' then parse_url arg ol
              else if key = code CHR ''O'' then parse_userpass arg ol
              else if key = code CHR ''x'' then Done (parse_proxy arg ol, arg)
              else if key = 1001 then Done (ol\<lparr>o_cert := Some arg\<rparr>, arg)
              else if key = 1006 then Exits 0
              else if key = 1016 then run_bind (parse_coinbase_addr arg ol) (\<lambda>ol. Done (ol, arg))
              else if key = 1015 then run_bind (parse_coinbase_sig arg ol) (\<lambda>ol. Done (ol, arg))
              else if key = code CHR ''V'' \<or> key = code CHR ''h'' then Exits 0
              else Exits 1))"

section \<open>The configuration file\<close>

definition json_load_url :: "host \<Rightarrow> string \<Rightarrow> opts \<Rightarrow> json option" where
  "json_load_url h cfg_url ol =
    (case ho_fetch h cfg_url (o_proxy ol) (o_proxy_type ol) of (rc, chunks) \<Rightarrow>
      let db = fold (\<lambda>ptr db. snd (all_data_cb True ptr db)) chunks \<lparr>db_buf = None, db_len = 0\<rparr>
      in if rc \<noteq> 0 then None
         else case db_buf db of None \<Rightarrow> None | Some buf \<Rightarrow> if db_len db = 0 then None else ho_loads h (cstr buf))"

text \<open>The text of an option in the file: numbers are printed into a buffer of 16 bytes.\<close>

definition config_arg :: "bool \<Rightarrow> json \<Rightarrow> string option run" where
  "config_arg has_arg val =
    (if has_arg then
       (case val of
          JString s \<Rightarrow> Done (Some (cstr s))
        | JInteger i \<Rightarrow> Done (Some (dec_int (to_int32 i)))
        | JReal d \<Rightarrow> if length (fmt_f d) + 1 > 16 then Undefined else Done (Some (fmt_f d))
        | _ \<Rightarrow> Done None)
     else Done (if json_is_true (Some val) then Some [] else None))"

text \<open>\<open>parse_config\<close> goes through the table of options, not through the file; \<open>pa\<close> is \<open>parse_arg\<close>.\<close>

fun parse_config :: "(nat \<Rightarrow> string \<Rightarrow> opts \<Rightarrow> (opts \<times> string) run) \<Rightarrow> (string \<times> bool \<times> nat) list \<Rightarrow> json \<Rightarrow> opts \<Rightarrow> opts run" where
  "parse_config pa [] config ol = Done ol"
| "parse_config pa ((name, has_arg, key) # table) config ol =
    (case json_object_get (Some config) name of
       None \<Rightarrow> parse_config pa table config ol
     | Some val \<Rightarrow>
         run_bind (config_arg has_arg val)
           (\<lambda>arg. case arg of
              None \<Rightarrow> parse_config pa table config ol
            | Some s \<Rightarrow> run_bind (pa key s ol) (\<lambda>(ol, _). parse_config pa table config ol)))"

definition load_config :: "host \<Rightarrow> string \<Rightarrow> opts \<Rightarrow> json option" where
  "load_config h arg ol = (if strstr arg ''://'' \<noteq> None then json_load_url h arg ol else ho_load_file h arg)"

text \<open>A file may name another file; the fuel bounds the nesting.\<close>

fun parse_arg :: "nat \<Rightarrow> host \<Rightarrow> nat \<Rightarrow> string \<Rightarrow> opts \<Rightarrow> (opts \<times> string) run" where
  "parse_arg fuel h key arg ol =
    (if key = code CHR ''c'' then
       (case fuel of
          0 \<Rightarrow> Deep
        | Suc fuel \<Rightarrow>
            (case load_config h arg ol of
               Some (JObject kvs) \<Rightarrow>
                 run_bind (parse_config (parse_arg fuel h) options (JObject kvs) ol) (\<lambda>ol. Done (ol, arg))
             | _ \<Rightarrow> Done (ol, arg)))
     else parse_option h key arg ol)"

declare parse_arg.simps [simp del]

section \<open>The command line\<close>

text \<open>\<^verbatim>\<open>getopt_long\<close> gives the keys with their arguments; \<open>rest\<close> says that other arguments follow. The result has
  the arguments as they stand in memory afterwards.\<close>

fun parse_cmdline :: "nat \<Rightarrow> host \<Rightarrow> (nat \<times> string) list \<Rightarrow> bool \<Rightarrow> opts \<Rightarrow> (opts \<times> string list) run" where
  "parse_cmdline fuel h [] rest ol = (if rest then Exits 1 else Done (ol, []))"
| "parse_cmdline fuel h ((key, arg) # args) rest ol =
    run_bind (parse_arg fuel h key arg ol)
      (\<lambda>(ol, mem). run_bind (parse_cmdline fuel h args rest ol) (\<lambda>(ol, mems). Done (ol, mem # mems)))"

section \<open>Ranges of the options\<close>

definition opts_wf :: "opts \<Rightarrow> bool" where
  "opts_wf ol \<longleftrightarrow> - 1 \<le> o_retries ol \<and> o_retries ol \<le> 9999 \<and> 1 \<le> o_fail_pause ol \<and> o_fail_pause ol \<le> 9999 \<and>
     1 \<le> o_timeout ol \<and> o_timeout ol \<le> 99999 \<and> 1 \<le> o_scantime ol \<and> o_scantime ol \<le> 9999 \<and>
     0 \<le> o_n_threads ol \<and> o_n_threads ol \<le> 9999 \<and> 0 \<le> o_priority ol \<and> o_priority ol \<le> 5 \<and> 2 \<le> o_scrypt_n ol \<and>
     length (o_pk_script ol) = 25 \<and> o_pk_script_size ol \<le> 25 \<and> length (o_coinbase_sig ol) \<le> 100 \<and>
     (o_have_stratum ol \<longrightarrow> \<not> o_benchmark ol \<and>
        (\<exists>url. o_rpc_url ol = Some url \<and> strncasecmp_eq url ''stratum+tcp://'' 14 \<and> strstr url ''://'' \<noteq> None))"

lemma opts_wf_default: "opts_wf opts_default"
  by (simp add: opts_wf_def opts_default_def)

text \<open>Where \<^verbatim>\<open>strstr\<close> stops depends on the text up to there only.\<close>

lemma starts_with_append: "starts_with pat s \<longleftrightarrow> (\<exists>t. s = pat @ t)"
  by (induction pat s rule: starts_with.induct) auto

lemma strstr_here: "strstr (pat @ t) pat = Some (pat @ t)"
proof (cases "pat @ t")
  case (Cons ch s)
  then have "starts_with pat (ch # s)" by (metis starts_with_append)
  with Cons show ?thesis by simp
qed simp

lemma strstr_split:
  assumes "strstr s pat = Some r"
  obtains u t where "s = u @ pat @ t" "r = pat @ t" "\<And>t'. strstr (u @ pat @ t') pat = Some (pat @ t')"
  using assms
proof (induction s arbitrary: thesis)
  case Nil
  then have "pat = []" "r = []" by (simp_all split: if_splits)
  moreover have "strstr t [] = Some t" for t by (cases t) simp_all
  ultimately show ?case using Nil(1) [of "[]" "[]"] by simp
next
  case (Cons ch s)
  show ?case
  proof (cases "starts_with pat (ch # s)")
    case True
    then obtain t where t: "ch # s = pat @ t" by (auto simp: starts_with_append)
    have "strstr (pat @ t') pat = Some (pat @ t')" for t' by (rule strstr_here)
    moreover have "r = ch # s" using Cons(3) True by simp
    ultimately show ?thesis using t Cons(2) [of "[]" t] by simp
  next
    case False
    with Cons(3) have r: "strstr s pat = Some r" by simp
    obtain u t where u: "s = u @ pat @ t" "r = pat @ t" "\<And>t'. strstr (u @ pat @ t') pat = Some (pat @ t')"
      using Cons(1) [OF _ r] by blast
    have "\<not> starts_with pat ((ch # u) @ pat @ t')" for t'
    proof
      assume "starts_with pat ((ch # u) @ pat @ t')"
      then obtain w where "(ch # u) @ pat @ t' = pat @ w" by (auto simp: starts_with_append)
      then have "take (length pat) ((ch # u) @ pat @ t') = pat" by simp
      moreover have "take (length pat) ((ch # u) @ pat @ v) = take (length pat) ((ch # u) @ pat)" for v
        using take_append [of "length pat" "(ch # u) @ pat" v] by simp
      ultimately have "take (length pat) (ch # s) = pat" using u(1) by (metis append_Cons)
      then have "ch # s = pat @ drop (length pat) (ch # s)" by (metis append_take_drop_id)
      with False show False by (auto simp: starts_with_append)
    qed
    then show ?thesis using u by (intro Cons(2) [of "ch # u" t]) (simp_all add: append_Cons)
  qed
qed

text \<open>Reading the credentials changes nothing else, and nothing in front of them.\<close>

definition nul_free :: "string \<Rightarrow> bool" where
  "nul_free s \<longleftrightarrow> CHR 0x00 \<notin> set s"

lemma cstr_nul_free: "nul_free (cstr s)"
  by (auto simp: nul_free_def cstr_def dest: set_takeWhileD)

lemma cstr_append: "nul_free s \<Longrightarrow> cstr (s @ t) = s @ cstr t"
  by (simp add: nul_free_def cstr_def takeWhile_append)

lemma cstr_nul [simp]: "cstr [] = []" "cstr (CHR 0x00 # t) = []"
  by (simp_all add: cstr_def)

lemma strchr_eq: "strchr s ch = Some r \<longleftrightarrow> (\<exists>u t. s = u @ ch # t \<and> ch \<notin> set u \<and> r = ch # t)"
proof (induction s)
  case (Cons d s)
  show ?case
  proof (cases "d = ch")
    case True
    then show ?thesis by (auto simp: Cons_eq_append_conv)
  next
    case False
    with Cons show ?thesis by (auto simp: Cons_eq_append_conv)
  qed
qed simp

lemma strrchr_eq: "strrchr s ch = Some r \<longleftrightarrow> (\<exists>u t. s = u @ ch # t \<and> ch \<notin> set t \<and> r = ch # t)"
proof -
  have none: "strrchr s ch = None \<longleftrightarrow> ch \<notin> set s" for s by (induction s) (auto split: option.splits)
  show ?thesis
  proof (induction s)
    case (Cons d s)
    then show ?case using none [of s] by (cases "strrchr s ch") (auto simp: Cons_eq_append_conv)
  qed simp
qed

lemma take_memcpy_at: "n \<le> i \<Longrightarrow> i \<le> length xs \<Longrightarrow> take n (memcpy_at xs i ys) = take n xs"
  by (simp add: memcpy_at_def)

lemma url_credentials_keeps:
  assumes "url_credentials mem ap hp ol = Done (ol', mem', q)" "mem ! hp = CHR ''@''" "hp + 1 < length mem" "ap < length mem"
  shows "\<exists>up user pass. ol' = ol\<lparr>o_rpc_userpass := up, o_rpc_user := user, o_rpc_pass := pass\<rparr>"
    "take ap mem' = take ap mem" "length mem' = length mem"
proof -
  let ?m = "mem[hp := CHR 0x00]" and ?up = "cstr_at (mem[hp := CHR 0x00]) ap"
  consider (user) "strchr ?up CHR '':'' = None" | (pass) r where "strchr ?up CHR '':'' = Some r" by (cases "strchr ?up CHR '':''") auto
  then have "(\<exists>up user pass. ol' = ol\<lparr>o_rpc_userpass := up, o_rpc_user := user, o_rpc_pass := pass\<rparr>) \<and>
    take ap mem' = take ap mem \<and> length mem' = length mem"
  proof cases
    case user
    then have "ol' = ol\<lparr>o_rpc_userpass := o_rpc_userpass ol, o_rpc_user := ?up, o_rpc_pass := o_rpc_pass ol\<rparr>" "mem' = mem"
      using assms(1) list_update_id [of mem hp] by (auto simp: url_credentials_def Let_def assms(2))
    then show ?thesis by blast
  next
    case pass
    let ?p = "ap + (length ?up - length r) + 1"
    define m1 where "m1 = (if ?m ! ?p \<noteq> CHR 0x00 then ?m[?p := CHR ''x''] else ?m)"
    define p1 where "p1 = (if ?m ! ?p \<noteq> CHR 0x00 then ?p + 1 else ?p)"
    define v where "v = length (cstr_at m1 (hp + 1)) + 1"
    have ok: "\<not> hp < p1" and res: "ol' = ol\<lparr>o_rpc_userpass := Some ?up, o_rpc_user := take (length ?up - length r) ?up,
        o_rpc_pass := cstr_at ?m ?p\<rparr>"
      "mem' = (memcpy_at (memcpy_at m1 (p1 + 1) (take v (drop (hp + 1) m1))) (p1 + v) (replicate (hp - p1) (CHR 0x00)))[p1 := CHR ''@'']"
      using assms(1) pass by (auto simp: url_credentials_def Let_def m1_def p1_def v_def split: if_splits)
    have l1: "length m1 = length mem" "ap < p1" "take ap m1 = take ap ?m" by (auto simp: m1_def p1_def)
    have v: "v \<le> length mem - hp"
    proof -
      have "length (cstr_at m1 (hp + 1)) \<le> length mem - (hp + 1)"
        using length_takeWhile_le [of "\<lambda>ch. ch \<noteq> CHR 0x00" "drop (hp + 1) m1"] l1(1) by (simp add: cstr_at_def cstr_def)
      then show ?thesis using assms(3) by (simp add: v_def)
    qed
    let ?t = "take v (drop (hp + 1) m1)"
    have t: "p1 + 1 + length ?t \<le> length mem" "p1 + v + (hp - p1) \<le> length mem" using ok v l1(1) assms(3) by auto
    have "length (memcpy_at m1 (p1 + 1) ?t) = length mem" using t l1 by (subst length_memcpy_at) auto
    then have "length mem' = length mem" "take ap mem' = take ap ?m"
      using t l1 by (auto simp: res(2) take_memcpy_at)
    moreover have "take ap ?m = take ap mem" using ok l1(2) by simp
    ultimately show ?thesis by - (intro conjI exI, rule res(1), simp_all)
  qed
  then show "\<exists>up user pass. ol' = ol\<lparr>o_rpc_userpass := up, o_rpc_user := user, o_rpc_pass := pass\<rparr>"
    "take ap mem' = take ap mem" "length mem' = length mem" by blast+
qed

lemma tolower_chars [simp]: "tolower CHR '':'' = CHR '':''" "tolower CHR ''/'' = CHR ''/''"
  by (simp_all add: tolower_def code_def)

lemma known_stratum:
  assumes "known_protocol (u @ ''://'' @ x)" "strncasecmp_eq (u @ ''://'' @ s) ''stratum'' 7"
  shows "strncasecmp_eq (u @ ''://'' @ s) ''stratum+tcp://'' 14"
proof -
  obtain w0 ws where w: "u @ ''://'' = w0 # ws" by (cases "u @ ''://''") simp_all
  then have wx: "u @ ''://'' @ y = w0 # ws @ y" for y by (metis append_Cons append_assoc)
  have s: "tolower w0 = CHR ''s''" using assms(2) unfolding wx by (simp add: strncasecmp_eq_def tolower_def code_def eval_nat_numeral)
  have "\<not> strncasecmp_eq (u @ ''://'' @ x) ''http://'' 7" "\<not> strncasecmp_eq (u @ ''://'' @ x) ''https://'' 8"
    unfolding wx using s by (simp_all add: strncasecmp_eq_def tolower_def code_def eval_nat_numeral)
  then have known: "map tolower (take 14 (u @ ''://'' @ x)) = map tolower ''stratum+tcp://''"
    using assms(1) by (simp add: known_protocol_def strncasecmp_eq_def)
  have "11 \<le> length u"
  proof (rule ccontr)
    assume "\<not> 11 \<le> length u"
    then have l: "length u < 11" by simp
    have "map tolower (take 14 (u @ ''://'' @ x)) ! length u = CHR '':''"
      using l by (simp add: nth_append)
    moreover have "map tolower ''stratum+tcp://'' ! i \<noteq> CHR '':''" if "i < 11" for i
    proof -
      have "i \<in> set [0..<11]" using that by simp
      moreover have "\<forall>i \<in> set [0..<11]. map tolower ''stratum+tcp://'' ! i \<noteq> CHR '':''"
        by (simp add: upt_rec tolower_def code_def)
      ultimately show ?thesis by blast
    qed
    ultimately show False using known l by metis
  qed
  then have eq: "take 14 (u @ ''://'' @ y) = take 14 (u @ ''://'')" for y
    using take_append [of 14 "u @ ''://''" y] by simp
  have "map tolower (take 14 (u @ ''://'')) = map tolower ''stratum+tcp://''" using known by (simp only: eq)
  also have "''stratum+tcp://'' = take 14 ''stratum+tcp://''" by simp
  finally show ?thesis by (simp only: strncasecmp_eq_def eq)
qed

lemma strstr_found: "strstr (u @ pat @ t) pat \<noteq> None"
  by (induction u) (simp_all add: strstr_here)

lemma opts_wf_set_url:
  assumes "opts_wf ol" "strncasecmp_eq url ''stratum'' 7 \<longrightarrow> strncasecmp_eq url ''stratum+tcp://'' 14 \<and> strstr url ''://'' \<noteq> None"
  shows "opts_wf (set_url url short (ol\<lparr>o_rpc_userpass := up, o_rpc_user := user, o_rpc_pass := pass\<rparr>))"
  using assms by (auto simp: opts_wf_def set_url_def)

lemma url_plain: "ol = ol\<lparr>o_rpc_userpass := o_rpc_userpass ol, o_rpc_user := o_rpc_user ol, o_rpc_pass := o_rpc_pass ol\<rparr>"
  by simp

lemma run_bind_Done: "run_bind r f = Done y \<longleftrightarrow> (\<exists>x. r = Done x \<and> f x = Done y)"
  by (cases r) simp_all

lemma parse_url_wf:
  assumes "parse_url arg ol = Done (ol', mem')" "nul_free arg" "opts_wf ol"
  shows "opts_wf ol'"
proof -
  let ?mem = "arg @ [CHR 0x00]"
  define ap where "ap = (case strstr arg ''://'' of Some r \<Rightarrow> length arg - length r + 3 | None \<Rightarrow> 0)"
  obtain ol1 mem hp where cred: "(case strrchr arg CHR ''@'' of
        Some r \<Rightarrow> url_credentials ?mem ap (length arg - length r) ol | None \<Rightarrow> Done (ol, ?mem, ap)) = Done (ol1, mem, hp)"
    and tail: "(if ap \<noteq> 0 then (if \<not> known_protocol (cstr mem) then Exits 1
        else if length (cstr_at mem hp) > length (cstr mem) - ap then Undefined
        else Done (set_url (take ap (cstr mem) @ cstr_at mem hp) (cstr_at mem hp) ol1, butlast mem))
      else if cstr_at mem hp = [] \<or> hd (cstr_at mem hp) = CHR ''/'' then Exits 1
      else Done (set_url (''http://'' @ cstr_at mem hp) (cstr_at mem hp) ol1, butlast mem)) = Done (ol', mem')"
    using assms(1) unfolding parse_url_def Let_def run_bind_Done ap_def[symmetric] by auto
  have ap: "ap \<le> length arg" "\<And>r. strstr arg ''://'' = Some r \<Longrightarrow> \<exists>u t. arg = u @ ''://'' @ t \<and> ap = length u + 3"
  proof -
    show "ap \<le> length arg" unfolding ap_def by (auto elim: strstr_split split: option.splits)
    show "\<exists>u t. arg = u @ ''://'' @ t \<and> ap = length u + 3" if s: "strstr arg ''://'' = Some r" for r
    proof -
      obtain u t where "arg = u @ ''://'' @ t" "r = ''://'' @ t" using strstr_split [OF s] by metis
      moreover have "ap = length arg - length r + 3" using s by (simp add: ap_def)
      ultimately show ?thesis by (intro exI [of _ u] exI [of _ t]) simp
    qed
  qed
  have keeps: "(\<exists>up user pass. ol1 = ol\<lparr>o_rpc_userpass := up, o_rpc_user := user, o_rpc_pass := pass\<rparr>) \<and> take ap mem = take ap arg"
  proof (cases "strrchr arg CHR ''@''")
    case None
    then have c: "ol1 = ol" "mem = ?mem" using cred by auto
    then have "take ap mem = take ap arg" using ap(1) by simp
    then show ?thesis unfolding c(1) using url_plain [of ol] by (intro conjI exI)
  next
    case (Some r)
    then obtain u t where r: "arg = u @ CHR ''@'' # t" "r = CHR ''@'' # t" by (auto simp: strrchr_eq)
    then have "length arg - length r = length u" by simp
    with cred Some have c: "url_credentials ?mem ap (length u) ol = Done (ol1, mem, hp)" by simp
    have at: "?mem ! length u = CHR ''@''" "length u + 1 < length ?mem" "ap < length ?mem" using r ap(1) by (simp_all add: nth_append)
    show ?thesis using url_credentials_keeps [OF c at] ap(1) by simp
  qed
  then obtain up user pass where ol1: "ol1 = ol\<lparr>o_rpc_userpass := up, o_rpc_user := user, o_rpc_pass := pass\<rparr>"
    and mem: "take ap mem = take ap arg" by blast
  show ?thesis
  proof (cases "ap = 0")
    case True
    then have ol': "ol' = set_url (''http://'' @ cstr_at mem hp) (cstr_at mem hp) ol1" using tail by (simp split: if_splits)
    have "\<not> strncasecmp_eq (''http://'' @ s) ''stratum'' 7" for s by (simp add: strncasecmp_eq_def tolower_def code_def eval_nat_numeral)
    then show ?thesis unfolding ol' ol1 by (intro opts_wf_set_url [OF assms(3)]) simp
  next
    case False
    then obtain r where "strstr arg ''://'' = Some r" by (auto simp: ap_def split: option.splits)
    then obtain u t where u: "arg = u @ ''://'' @ t" "ap = length u + 3" using ap(2) by blast
    have nf: "nul_free (u @ ''://'')" using assms(2) u(1) by (simp add: nul_free_def)
    have "mem = (u @ ''://'') @ drop ap mem" using mem u append_take_drop_id [of ap mem] by simp
    then have c: "cstr mem = u @ ''://'' @ cstr (drop ap mem)" by (metis cstr_append [OF nf] append_assoc)
    let ?h = "cstr_at mem hp"
    have ol': "ol' = set_url (u @ ''://'' @ ?h) ?h ol1" "known_protocol (u @ ''://'' @ cstr (drop ap mem))"
      using tail False u(2) by (simp_all add: c split: if_splits)
    show ?thesis unfolding ol'(1) ol1 using known_stratum [OF ol'(2)] strstr_found [of u "''://''" ?h] by (intro opts_wf_set_url [OF assms(3)]) simp
  qed
qed

lemma run_bind_inv:
  assumes "run_bind r f = Done y" "\<And>x. r = Done x \<Longrightarrow> P x" "\<And>x. P x \<Longrightarrow> f x = Done y \<Longrightarrow> Q" shows Q
  using assms by (auto simp: run_bind_Done)

text \<open>Most options are not restricted.\<close>

lemma opts_wf_free [simp]:
  "opts_wf (ol\<lparr>o_api_remote := b\<rparr>) = opts_wf ol" "opts_wf (ol\<lparr>o_background := b\<rparr>) = opts_wf ol"
  "opts_wf (ol\<lparr>o_use_colors := b\<rparr>) = opts_wf ol" "opts_wf (ol\<lparr>o_quiet := b\<rparr>) = opts_wf ol"
  "opts_wf (ol\<lparr>o_debug := b\<rparr>) = opts_wf ol" "opts_wf (ol\<lparr>o_protocol := b\<rparr>) = opts_wf ol"
  "opts_wf (ol\<lparr>o_want_longpoll := b\<rparr>) = opts_wf ol" "opts_wf (ol\<lparr>o_want_stratum := b\<rparr>) = opts_wf ol"
  "opts_wf (ol\<lparr>o_extranonce := b\<rparr>) = opts_wf ol" "opts_wf (ol\<lparr>o_redirect := b\<rparr>) = opts_wf ol"
  "opts_wf (ol\<lparr>o_allow_getwork := b\<rparr>) = opts_wf ol" "opts_wf (ol\<lparr>o_have_gbt := b\<rparr>) = opts_wf ol"
  "opts_wf (ol\<lparr>o_showdiff := b\<rparr>) = opts_wf ol" "opts_wf (ol\<lparr>o_use_syslog := b\<rparr>) = opts_wf ol"
  "opts_wf (ol\<lparr>o_randomize := b\<rparr>) = opts_wf ol"
  "opts_wf (ol\<lparr>o_time_limit := v\<rparr>) = opts_wf ol" "opts_wf (ol\<lparr>o_maxlograte := v\<rparr>) = opts_wf ol"
  "opts_wf (ol\<lparr>o_affinity := a\<rparr>) = opts_wf ol" "opts_wf (ol\<lparr>o_diff_factor := d\<rparr>) = opts_wf ol"
  "opts_wf (ol\<lparr>o_max_temp := d\<rparr>) = opts_wf ol" "opts_wf (ol\<lparr>o_max_diff := d\<rparr>) = opts_wf ol"
  "opts_wf (ol\<lparr>o_max_rate := d\<rparr>) = opts_wf ol" "opts_wf (ol\<lparr>o_rpc_pass := s\<rparr>) = opts_wf ol"
  "opts_wf (ol\<lparr>o_rpc_user := s\<rparr>) = opts_wf ol" "opts_wf (ol\<lparr>o_rpc_userpass := t\<rparr>) = opts_wf ol"
  "opts_wf (ol\<lparr>o_cert := t\<rparr>) = opts_wf ol" "opts_wf (ol\<lparr>o_proxy := t\<rparr>) = opts_wf ol"
  "opts_wf (ol\<lparr>o_proxy_type := n\<rparr>) = opts_wf ol" "opts_wf (ol\<lparr>o_api_allow := t\<rparr>) = opts_wf ol"
  "opts_wf (ol\<lparr>o_api_listen := v\<rparr>) = opts_wf ol" "opts_wf (ol\<lparr>o_algo := al\<rparr>) = opts_wf ol"
  by (simp_all add: opts_wf_def)

lemma opts_wf_ranged [simp]:
  assumes "opts_wf ol"
  shows "- 1 \<le> v \<Longrightarrow> v \<le> 9999 \<Longrightarrow> opts_wf (ol\<lparr>o_retries := v\<rparr>)" "1 \<le> v \<Longrightarrow> v \<le> 9999 \<Longrightarrow> opts_wf (ol\<lparr>o_fail_pause := v\<rparr>)"
    "1 \<le> v \<Longrightarrow> v \<le> 9999 \<Longrightarrow> opts_wf (ol\<lparr>o_scantime := v\<rparr>)" "1 \<le> v \<Longrightarrow> v \<le> 99999 \<Longrightarrow> opts_wf (ol\<lparr>o_timeout := v\<rparr>)"
    "0 \<le> v \<Longrightarrow> v \<le> 9999 \<Longrightarrow> opts_wf (ol\<lparr>o_n_threads := v\<rparr>)" "0 \<le> v \<Longrightarrow> v \<le> 5 \<Longrightarrow> opts_wf (ol\<lparr>o_priority := v\<rparr>)"
    "2 \<le> v \<Longrightarrow> opts_wf (ol\<lparr>o_scrypt_n := v\<rparr>)" "length s \<le> 100 \<Longrightarrow> opts_wf (ol\<lparr>o_coinbase_sig := s\<rparr>)"
    "length p = 25 \<Longrightarrow> k \<le> 25 \<Longrightarrow> opts_wf (ol\<lparr>o_pk_script := p, o_pk_script_size := k\<rparr>)"
    "opts_wf (ol\<lparr>o_benchmark := b, o_have_stratum := False\<rparr>)"
  using assms by (simp_all add: opts_wf_def)

lemma opts_wf_benchmark: "opts_wf ol \<Longrightarrow>
    opts_wf (ol\<lparr>o_benchmark := b, o_want_longpoll := lp, o_want_stratum := st, o_have_stratum := False\<rparr>)"
  by (simp add: opts_wf_def)

lemma pred_option_if: "pred_option P (if b then x else y) = (if b then pred_option P x else pred_option P y)"
  by simp

lemma parse_flag_wf: "opts_wf ol \<Longrightarrow> pred_option opts_wf (parse_flag key ol)"
  by (simp only: parse_flag_def pred_option_if option.pred_inject opts_wf_free opts_wf_benchmark if_cancel simp_thms)

definition run_ok :: "('a \<Rightarrow> bool) \<Rightarrow> 'a run \<Rightarrow> bool" where
  "run_ok P r \<longleftrightarrow> (\<forall>x. r = Done x \<longrightarrow> P x)"

lemma run_ok_simps [simp]: "run_ok P (Done x) = P x" "run_ok P (Exits n)" "run_ok P Undefined" "run_ok P Deep"
  "run_ok P (if b then r else s) = (if b then run_ok P r else run_ok P s)"
  by (simp_all add: run_ok_def)

lemma run_ok_ranged: "(\<And>v. lo \<le> v \<Longrightarrow> v \<le> hi \<Longrightarrow> P (f v)) \<Longrightarrow> run_ok P (ranged lo hi arg f)"
  by (simp add: ranged_def Let_def)

lemma parse_number_wf:
  assumes "opts_wf ol" shows "pred_option (run_ok opts_wf) (parse_number h key arg ol)"
proof -
  have r: "run_ok opts_wf (ranged (-1) 9999 arg (\<lambda>v. ol\<lparr>o_retries := v\<rparr>))" "run_ok opts_wf (ranged 1 9999 arg (\<lambda>v. ol\<lparr>o_fail_pause := v\<rparr>))"
    "run_ok opts_wf (ranged 1 9999 arg (\<lambda>v. ol\<lparr>o_scantime := v\<rparr>))" "run_ok opts_wf (ranged 1 99999 arg (\<lambda>v. ol\<lparr>o_timeout := v\<rparr>))"
    "run_ok opts_wf (ranged 0 9999 arg (\<lambda>v. ol\<lparr>o_n_threads := v\<rparr>))" "run_ok opts_wf (ranged 0 5 arg (\<lambda>v. ol\<lparr>o_priority := v\<rparr>))"
    by (rule run_ok_ranged; simp add: assms)+
  have a: "run_ok opts_wf (parse_affinity h arg ol)" using assms by (simp add: parse_affinity_def Let_def)
  show ?thesis
    by (simp only: parse_number_def pred_option_if option.pred_inject run_ok_simps Let_def opts_wf_free assms r a if_cancel simp_thms)
qed

lemma algo_search_wf: "opts_wf ol \<Longrightarrow> pred_option opts_wf (algo_search names arg ol)"
  by (induction names arg ol rule: algo_search.induct) (auto simp: Let_def split: prod.splits)

lemma parse_coinbase_addr_wf:
  assumes "opts_wf ol" shows "run_ok opts_wf (parse_coinbase_addr arg ol)"
proof -
  have l: "length (o_pk_script ol) = 25" using assms by (simp add: opts_wf_def)
  have "n \<le> 25 \<and> length s \<le> 25" if "address_to_script 25 arg = Some (n, s)" for n s
    using that by (auto simp: address_to_script_def split: option.splits if_splits)
  then show ?thesis using assms by (auto simp: parse_coinbase_addr_def l split: option.splits)
qed

lemma run_ok_bind: "run_ok Q (run_bind r f) \<longleftrightarrow> run_ok (\<lambda>x. run_ok Q (f x)) r"
  by (cases r) simp_all

lemma run_ok_url:
  assumes "opts_wf ol" "nul_free arg" shows "run_ok (\<lambda>(ol, mem). opts_wf ol) (parse_url arg ol)"
  using parse_url_wf [of arg ol] assms by (auto simp: run_ok_def)

lemma parse_option_wf:
  assumes "opts_wf ol" "nul_free arg" shows "run_ok (\<lambda>(ol, mem). opts_wf ol) (parse_option h key arg ol)"
proof (cases "parse_flag key ol")
  case (Some f)
  then show ?thesis using parse_flag_wf [OF assms(1), of key] by (simp add: parse_option_def)
next
  case None
  show ?thesis
  proof (cases "parse_number h key arg ol")
    case (Some r)
    then show ?thesis using parse_number_wf [OF assms(1), of h key arg] None by (simp add: parse_option_def run_ok_bind)
  next
    case n: None
    have "opts_wf (parse_api_bind arg ol)" using assms(1) by (simp add: parse_api_bind_def Let_def split: option.split)
    moreover have "opts_wf (parse_proxy arg ol)" using assms(1) by (simp add: parse_proxy_def opts_wf_def)
    moreover have "run_ok (\<lambda>(ol, mem). opts_wf ol) (parse_userpass arg ol)"
      using assms(1) by (simp add: parse_userpass_def Let_def opts_wf_def split: option.split)
    moreover have "run_ok opts_wf (parse_coinbase_sig arg ol)" using assms(1) by (simp add: parse_coinbase_sig_def)
    moreover have "run_ok (\<lambda>(ol, mem). opts_wf ol) (case algo_search algo_names arg ol of None \<Rightarrow> Exits 1 | Some ol \<Rightarrow> Done (ol, arg))"
      using algo_search_wf [OF assms(1), of algo_names arg] by (cases "algo_search algo_names arg ol") simp_all
    ultimately show ?thesis using None n assms(1) run_ok_url [OF assms] parse_coinbase_addr_wf [OF assms(1), of arg]
      by (simp add: parse_option_def run_ok_bind)
  qed
qed

lemma dec_nat_nul_free: "nul_free (dec_nat n)"
  by (auto simp: nul_free_def isdigit_def code_def dest: dec_nat_digits)

lemma dec_int_nul_free: "nul_free (dec_int n)"
  using dec_nat_nul_free by (simp add: dec_int_def nul_free_def)

lemma fmt_f_nul_free: "nul_free (fmt_f d)"
  using dec_nat_nul_free by (cases d) (auto simp: nul_free_def fmt_f_def pad_zeros_def Let_def)

lemma config_arg_nul_free: "config_arg has_arg val = Done (Some s) \<Longrightarrow> nul_free s"
  using cstr_nul_free dec_int_nul_free fmt_f_nul_free
  by (auto simp: config_arg_def nul_free_def split: if_splits json.splits)

lemma parse_config_inv:
  assumes "\<And>key s ol. nul_free s \<Longrightarrow> P ol \<Longrightarrow> run_ok (\<lambda>(ol, mem). P ol) (pa key s ol)" and "P ol"
  shows "run_ok P (parse_config pa table config ol)"
  using assms(2)
proof (induction table arbitrary: ol)
  case (Cons entry table)
  obtain name has_arg key where e: "entry = (name, has_arg, key)" by (metis surj_pair)
  have pa: "run_ok P (run_bind (pa key s ol) (\<lambda>(ol, mem). parse_config pa table config ol))" if "nul_free s" for s
  proof -
    have "run_ok (\<lambda>(ol, mem). P ol) (pa key s ol)" using assms(1) [OF that Cons(2)] .
    then show ?thesis using Cons(1) by (cases "pa key s ol") auto
  qed
  show ?case
  proof (cases "json_object_get (Some config) name")
    case None
    then show ?thesis using Cons by (simp add: e)
  next
    case (Some val)
    then show ?thesis using Cons pa config_arg_nul_free [of has_arg val]
      by (cases "config_arg has_arg val") (auto simp: e split: option.split)
  qed
qed simp

lemma parse_arg_wf:
  assumes "opts_wf ol" "nul_free arg" shows "run_ok (\<lambda>(ol, mem). opts_wf ol) (parse_arg fuel h key arg ol)"
  using assms
proof (induction fuel arbitrary: key arg ol)
  case 0
  then show ?case by (subst parse_arg.simps) (simp add: parse_option_wf)
next
  case (Suc fuel)
  have "run_ok opts_wf (parse_config (parse_arg fuel h) options config ol)" for config
    using Suc by (intro parse_config_inv) auto
  then have "run_ok (\<lambda>(ol, mem). opts_wf ol) (run_bind (parse_config (parse_arg fuel h) options config ol) (\<lambda>ol. Done (ol, arg)))" for config
    by (simp add: run_ok_bind)
  then show ?case using Suc(2,3) by (subst parse_arg.simps) (simp add: parse_option_wf split: option.split json.split)
qed

lemma parse_cmdline_run:
  assumes "opts_wf ol" "\<And>key arg. (key, arg) \<in> set args \<Longrightarrow> nul_free arg"
  shows "run_ok (\<lambda>(ol, mems). opts_wf ol) (parse_cmdline fuel h args rest ol)"
  using assms
proof (induction args arbitrary: ol)
  case (Cons a args)
  obtain key arg where a: "a = (key, arg)" by (metis surj_pair)
  have "run_ok (\<lambda>(ol, mem). opts_wf ol) (parse_arg fuel h key arg ol)" using Cons(2,3) a by (intro parse_arg_wf) auto
  moreover have "run_ok (\<lambda>(ol, mems). opts_wf ol) (run_bind (parse_cmdline fuel h args rest ol') (\<lambda>(ol, mems). Done (ol, mem # mems)))"
    if "opts_wf ol'" for ol' mem
  proof -
    have "run_ok (\<lambda>(ol, mems). opts_wf ol) (parse_cmdline fuel h args rest ol')"
      by (rule Cons(1) [OF that]) (auto intro: Cons(3))
    then show ?thesis by (cases "parse_cmdline fuel h args rest ol'") auto
  qed
  ultimately show ?case unfolding a by (cases "parse_arg fuel h key arg ol") auto
qed simp

text \<open>C23: however the command line and the configuration files set the options, their values are in the ranges
  that the rest of the program relies on: between 0 and 9999 threads, at most 9999 retries, pauses and
  times of at least a second, a script and a text that fit their buffers. Stratum is only in use with a stratum address,
  which names its protocol, and never in benchmark mode.\<close>

theorem parse_cmdline_wf:
  assumes "\<And>key arg. (key, arg) \<in> set args \<Longrightarrow> nul_free arg"
    and "parse_cmdline fuel h args rest opts_default = Done (ol, mems)"
  shows "opts_wf ol"
  using parse_cmdline_run [OF opts_wf_default assms(1), where fuel = fuel and h = h and rest = rest and args = args] assms(2)
  by (simp add: run_ok_def)

section \<open>Credentials in the address\<close>

lemma url_credentials_steps:
  assumes "mem[hp := CHR 0x00] = m0" "cstr_at m0 ap = up" "strchr up CHR '':'' = Some r" "ap + (length up - length r) + 1 = p"
    "cstr_at m0 p = pw" "(if m0 ! p \<noteq> CHR 0x00 then (m0[p := CHR ''x''], p + 1) else (m0, p)) = (m1, p1)" "p1 \<le> hp"
    "cstr_at m1 (hp + 1) = host" "memcpy_at m1 (p1 + 1) (take (length host + 1) (drop (hp + 1) m1)) = m2"
    "memcpy_at m2 (p1 + (length host + 1)) (replicate (hp - p1) (CHR 0x00)) = m3"
  shows "url_credentials mem ap hp ol =
    Done (ol\<lparr>o_rpc_userpass := Some up, o_rpc_user := take (length up - length r) up, o_rpc_pass := pw\<rparr>, m3[p1 := CHR ''@''], p1 + 1)"
proof -
  have "p1 \<le> hp \<longleftrightarrow> \<not> hp < p1" by auto
  with assms(7) have "\<not> hp < p1" by blast
  then show ?thesis unfolding url_credentials_def Let_def assms(1,2,3) option.case assms(4,5,6) prod.case assms(8,9,10) by simp
qed

lemma drop_exact: "n = length xs \<Longrightarrow> drop n (xs @ ys) = ys"
  by simp

lemma cstr_at_mid: "n = length xs \<Longrightarrow> nul_free s \<Longrightarrow> cstr_at (xs @ s @ CHR 0x00 # ys) n = s"
  by (simp add: cstr_at_def cstr_append)

lemma memcpy_at_mid: "n = length xs \<Longrightarrow> length s = length ys \<Longrightarrow> memcpy_at (xs @ ys @ zs) n s = xs @ s @ zs"
  by (simp add: memcpy_at_def)

lemma url_credentials_hides:
  assumes "nul_free (user @ pass @ host)" "CHR '':'' \<notin> set user"
  defines "x \<equiv> (if pass = [] then [] else ''x'')"
  shows "url_credentials (S @ user @ '':'' @ pass @ ''@'' @ host @ [CHR 0x00]) (length S) (length (S @ user @ '':'' @ pass)) ol =
    Done (ol\<lparr>o_rpc_userpass := Some (user @ '':'' @ pass), o_rpc_user := user, o_rpc_pass := pass\<rparr>,
      S @ user @ '':'' @ x @ ''@'' @ host @ replicate (length pass - 1) (CHR 0x00) @ [CHR 0x00],
      length (S @ user @ '':'' @ x) + 1)"
proof -
  let ?hp = "length (S @ user @ '':'' @ pass)" and ?p = "length S + length user + 1"
  let ?up = "user @ '':'' @ pass"
  define m0 where "m0 = S @ ?up @ CHR 0x00 # host @ [CHR 0x00]"
  have m0: "(S @ user @ '':'' @ pass @ ''@'' @ host @ [CHR 0x00])[?hp := CHR 0x00] = m0"
    by (simp add: m0_def list_update_append)
  have nf: "nul_free ?up" "nul_free pass" "nul_free host" using assms(1) by (simp_all add: nul_free_def)
  have up: "cstr_at m0 (length S) = ?up" unfolding m0_def by (rule cstr_at_mid [OF refl nf(1)])
  have colon: "strchr ?up CHR '':'' = Some ('':'' @ pass)" using assms(2) by (auto simp: strchr_eq)
  have p: "length S + (length ?up - length ('':'' @ pass)) + 1 = ?p" by simp
  have m0': "m0 = (S @ user @ '':'') @ pass @ CHR 0x00 # host @ [CHR 0x00]" by (simp add: m0_def)
  have pw: "cstr_at m0 ?p = pass" unfolding m0' by (rule cstr_at_mid [OF _ nf(2)]) simp
  note steps = url_credentials_steps [OF m0 up colon p pw]
  show ?thesis
  proof (cases pass)
    case Nil
    have c0: "(if m0 ! ?p \<noteq> CHR 0x00 then (m0[?p := CHR ''x''], ?p + 1) else (m0, ?p)) = (m0, ?p)"
      by (simp add: m0_def Nil nth_append)
    have m0h: "m0 = (S @ user @ '':'' @ [CHR 0x00]) @ host @ CHR 0x00 # []" by (simp add: m0_def Nil)
    have v: "cstr_at m0 (?hp + 1) = host" unfolding m0h by (rule cstr_at_mid [OF _ nf(3)]) (simp add: Nil)
    have h: "take (length host + 1) (drop (?hp + 1) m0) = host @ [CHR 0x00]" unfolding m0h by (simp add: Nil)
    have c2: "memcpy_at m0 (?p + 1) (take (length host + 1) (drop (?hp + 1) m0)) = m0"
      unfolding h by (subst (1) m0h, subst memcpy_at_def) (simp add: m0_def Nil)
    have c3: "memcpy_at m0 (?p + (length host + 1)) (replicate (?hp - ?p) (CHR 0x00)) = m0"
      by (simp add: memcpy_at_def Nil)
    have "?p \<le> ?hp" by simp
    note steps [OF c0 this v c2 c3]
    moreover have "m0[?p := CHR ''@''] = S @ user @ '':'' @ ''@'' @ host @ [CHR 0x00]"
      by (simp add: m0_def Nil list_update_append)
    ultimately show ?thesis by (simp add: x_def Nil)
  next
    case (Cons ch cs)
    have ch: "ch \<noteq> CHR 0x00" using nf(2) by (auto simp: Cons nul_free_def)
    let ?A = "S @ user @ '':x''" and ?H = "host @ [CHR 0x00]" and ?k = "length cs"
    define m1 where "m1 = ?A @ cs @ CHR 0x00 # ?H"
    have c0: "(if m0 ! ?p \<noteq> CHR 0x00 then (m0[?p := CHR ''x''], ?p + 1) else (m0, ?p)) = (m1, length ?A)"
      using ch by (simp add: m0_def m1_def Cons nth_append list_update_append)
    have le: "length ?A \<le> ?hp" by (simp add: Cons)
    have m1h: "m1 = (?A @ cs @ [CHR 0x00]) @ host @ CHR 0x00 # []" by (simp add: m1_def)
    have v: "cstr_at m1 (?hp + 1) = host" unfolding m1h by (rule cstr_at_mid [OF _ nf(3)]) (simp add: Cons)
    have h: "take (length host + 1) (drop (?hp + 1) m1) = ?H" unfolding m1h by (subst drop_exact) (simp_all add: Cons)
    obtain y ys where y: "cs @ [CHR 0x00] = y # ys" by (cases "cs @ [CHR 0x00]") simp_all
    have k: "length ys = ?k" using arg_cong [OF y, where f = length] by simp
    have "m1 = ?A @ (cs @ [CHR 0x00]) @ ?H" by (simp add: m1_def)
    then have m1y: "m1 = (?A @ [y]) @ ys @ ?H" by (simp add: y)
    obtain Q where Q: "drop (length ?H) (ys @ ?H) = Q" "length Q = ?k" by (simp add: k)
    have split: "ys @ ?H = take (length ?H) (ys @ ?H) @ Q" using Q(1) append_take_drop_id [of "length ?H" "ys @ ?H"] by simp
    define m2 where "m2 = (?A @ [y]) @ ?H @ Q"
    have c2: "memcpy_at m1 (length ?A + 1) (take (length host + 1) (drop (?hp + 1) m1)) = m2"
      unfolding h m2_def unfolding m1y by (subst split, rule memcpy_at_mid) simp_all
    have last: "CHR 0x00 # Q = butlast (CHR 0x00 # Q) @ [CHR 0x00]"
    proof (cases "Q = []")
      case False
      have "last Q = last (ys @ ?H)" using split False by (metis last_appendR)
      then show ?thesis using append_butlast_last_id [OF False] False by simp
    qed simp
    have kk: "?hp - length ?A = ?k" by (simp add: Cons)
    have c3: "memcpy_at m2 (length ?A + (length host + 1)) (replicate (?hp - length ?A) (CHR 0x00)) =
        (?A @ [y] @ host) @ replicate ?k (CHR 0x00) @ [CHR 0x00]"
    proof -
      have "m2 = (?A @ [y] @ host) @ butlast (CHR 0x00 # Q) @ [CHR 0x00]" using last by (simp add: m2_def)
      then show ?thesis using Q(2)
        unfolding kk by (simp only:) (rule memcpy_at_mid, simp, cases Q, auto)
    qed
    note steps [OF c0 le v c2 c3]
    moreover have "((?A @ [y] @ host) @ replicate ?k (CHR 0x00) @ [CHR 0x00])[length ?A := CHR ''@''] =
        ?A @ ''@'' @ host @ replicate ?k (CHR 0x00) @ [CHR 0x00]"
      by (simp add: list_update_append)
    ultimately show ?thesis by (simp add: x_def Cons)
  qed
qed

text \<open>C24: an address with credentials is taken apart at the colon and the last at sign: user, password and their pair
  are stored, the address is stored without them, and the argument in memory, which other processes can see, keeps
  a single x for the password and no longer than the address itself, the bytes behind it being cleared.\<close>

theorem parse_url_credentials:
  assumes "scheme \<in> {''http://'', ''https://'', ''stratum+tcp://''}" and "nul_free (user @ pass @ host)"
    and "CHR '':'' \<notin> set user" and "CHR ''@'' \<notin> set host"
  shows "parse_url (scheme @ user @ '':'' @ pass @ ''@'' @ host) ol =
    Done (set_url (scheme @ host) host (ol\<lparr>o_rpc_userpass := Some (user @ '':'' @ pass), o_rpc_user := user, o_rpc_pass := pass\<rparr>),
      scheme @ user @ '':'' @ (if pass = [] then [] else ''x'') @ ''@'' @ host @ replicate (length pass - 1) (CHR 0x00))"
proof -
  let ?arg = "scheme @ user @ '':'' @ pass @ ''@'' @ host" and ?x = "if pass = [] then [] else ''x''"
  let ?mem = "scheme @ user @ '':'' @ ?x @ ''@'' @ host @ replicate (length pass - 1) (CHR 0x00) @ [CHR 0x00]"
  have ap: "(case strstr ?arg ''://'' of Some r \<Rightarrow> length ?arg - length r + 3 | None \<Rightarrow> 0) = length scheme"
    using assms(1) by auto
  have at: "strrchr ?arg CHR ''@'' = Some (''@'' @ host)"
    using assms(4) by (subst strrchr_eq) (intro exI [of _ "scheme @ user @ '':'' @ pass"] exI [of _ host], simp)
  have hp: "length ?arg - length (''@'' @ host) = length (scheme @ user @ '':'' @ pass)" by simp
  have s: "nul_free scheme" "scheme \<noteq> []" "known_protocol (scheme @ t)" for t
    using assms(1) by (auto simp: nul_free_def known_protocol_def strncasecmp_eq_def)
  have nf: "nul_free (scheme @ user @ '':'' @ ?x @ ''@'' @ host)" "nul_free host"
    using assms(2) s(1) by (auto simp: nul_free_def)
  have c: "cstr ?mem = scheme @ user @ '':'' @ ?x @ ''@'' @ host"
  proof -
    have "cstr ((scheme @ user @ '':'' @ ?x @ ''@'' @ host) @ replicate (length pass - 1) (CHR 0x00) @ [CHR 0x00]) =
        scheme @ user @ '':'' @ ?x @ ''@'' @ host"
      unfolding cstr_append [OF nf(1)] by (cases "length pass - 1") simp_all
    then show ?thesis by simp
  qed
  have h: "cstr_at ?mem (length (scheme @ user @ '':'' @ ?x) + 1) = host"
  proof -
    have "cstr_at ((scheme @ user @ '':'' @ ?x @ ''@'') @ host @ replicate (length pass - 1) (CHR 0x00) @ [CHR 0x00])
        (length (scheme @ user @ '':'' @ ?x) + 1) = host"
      unfolding cstr_at_def by (subst drop_exact, simp, subst cstr_append [OF nf(2)]) (cases "length pass - 1"; simp)
    then show ?thesis by simp
  qed
  have arg: "?arg @ [CHR 0x00] = scheme @ user @ '':'' @ pass @ ''@'' @ host @ [CHR 0x00]" by simp
  have b: "butlast ?mem = scheme @ user @ '':'' @ ?x @ ''@'' @ host @ replicate (length pass - 1) (CHR 0x00)"
    by (simp add: butlast_append)
  have l: "\<not> length host > length (scheme @ user @ '':'' @ ?x @ ''@'' @ host) - length scheme" by simp
  have t: "take (length scheme) (scheme @ user @ '':'' @ ?x @ ''@'' @ host) = scheme" by simp
  have ne: "length scheme \<noteq> 0" using s(2) by simp
  show ?thesis
    unfolding parse_url_def Let_def ap at option.case hp arg url_credentials_hides [OF assms(2,3)] run_bind.simps prod.case c h
    unfolding b t using l ne s(3) by (simp only: if_True if_False simp_thms)
qed

theorem parse_url_credentials_witness:
  "parse_url ''http://me:pw@pool'' opts_default =
    Done (set_url ''http://pool'' ''pool'' (opts_default\<lparr>o_rpc_userpass := Some ''me:pw'', o_rpc_user := ''me'', o_rpc_pass := ''pw''\<rparr>),
      ''http://me:x@pool'' @ [CHR 0x00])"
  using parse_url_credentials [of "''http://''" "''me''" "''pw''" "''pool''" opts_default] by (simp add: nul_free_def)

theorem parse_cmdline_wf_witness:
  "\<exists>ol mems. parse_cmdline 1 \<lparr>ho_cpus = 4, ho_loads = (\<lambda>_. None), ho_load_file = (\<lambda>_. None), ho_fetch = (\<lambda>_ _ _. (7, []))\<rparr>
      [(code CHR ''q'', []), (code CHR ''o'', ''http://me:pw@pool'')] False opts_default = Done (ol, mems) \<and> opts_wf ol"
proof -
  let ?h = "\<lparr>ho_cpus = 4, ho_loads = (\<lambda>_. None), ho_load_file = (\<lambda>_. None), ho_fetch = (\<lambda>_ _ _. (7, []))\<rparr>"
  let ?args = "[(code CHR ''q'', []), (code CHR ''o'', ''http://me:pw@pool'')]"
  have url: "\<exists>ol mem. parse_url ''http://me:pw@pool'' (opts_default\<lparr>o_quiet := True\<rparr>) = Done (ol, mem)"
    by (simp add: parse_url_def url_credentials_def cstr_at_def cstr_def known_protocol_def strncasecmp_eq_def Let_def memcpy_at_def)
  have "\<exists>ol mems. parse_cmdline 1 ?h ?args False opts_default = Done (ol, mems)"
    using url by (auto simp: parse_arg.simps parse_option_def parse_flag_def parse_number_def code_def)
  then obtain ol mems where run: "parse_cmdline 1 ?h ?args False opts_default = Done (ol, mems)" by blast
  have "nul_free arg" if "(key, arg) \<in> set ?args" for key arg using that by (auto simp: nul_free_def)
  then have "opts_wf ol" using parse_cmdline_wf [OF _ run] by blast
  with run show ?thesis by blast
qed

section \<open>Nested configuration files\<close>

definition keys_known :: "(string \<times> bool \<times> nat) list \<Rightarrow> bool" where
  "keys_known table \<longleftrightarrow> (\<forall>(name, has_arg, key) \<in> set table. key = code CHR ''c'' \<longleftrightarrow> name = ''config'')"

lemma options_keys: "keys_known options"
  by (simp add: keys_known_def options_def code_def)

definition flat :: "'a run \<Rightarrow> bool" where
  "flat r \<longleftrightarrow> r \<noteq> Deep"

lemma flat_simps [simp]: "flat (Done x)" "flat (Exits n)" "flat Undefined" "\<not> flat Deep"
  "flat (if b then r else s) = (if b then flat r else flat s)"
  by (simp_all add: flat_def)

lemma flat_bind: "flat r \<Longrightarrow> (\<And>x. flat (f x)) \<Longrightarrow> flat (run_bind r f)"
  by (cases r) simp_all

lemma parse_option_flat: "flat (parse_option h key arg ol)"
proof -
  have r: "flat (ranged lo hi arg f)" for lo hi f by (simp add: ranged_def Let_def)
  have a: "flat (parse_affinity h arg ol)" by (simp add: parse_affinity_def Let_def)
  have n: "pred_option flat (parse_number h key arg ol)"
    by (simp only: parse_number_def pred_option_if option.pred_inject flat_simps Let_def r a if_cancel simp_thms)
  have c: "flat (url_credentials mem ap hp ol)" for mem ap hp
    unfolding url_credentials_def Let_def by (simp only: flat_simps if_cancel split: option.split prod.split) simp
  have u: "flat (parse_url arg ol)"
    unfolding parse_url_def Let_def by (rule flat_bind) (simp_all add: c split: option.split prod.split)
  have s: "flat (parse_userpass arg ol)" "flat (parse_coinbase_addr arg ol)" "flat (parse_coinbase_sig arg ol)"
    by (simp_all add: parse_userpass_def parse_coinbase_addr_def parse_coinbase_sig_def Let_def split: option.split)
  have l: "flat (case algo_search algo_names arg ol of None \<Rightarrow> Exits 1 | Some ol \<Rightarrow> Done (ol, arg))"
    by (simp split: option.split)
  have m: "flat (run_bind x (\<lambda>ol. Done (ol, arg)))" if "flat x" for x :: "opts run" using that by (rule flat_bind) simp
  show ?thesis
  proof (cases "parse_flag key ol")
    case None
    show ?thesis
    proof (cases "parse_number h key arg ol")
      case n': None
      show ?thesis unfolding parse_option_def None n' option.case
        by (simp only: flat_simps u s(1) l m [OF s(2)] m [OF s(3)] if_cancel simp_thms)
    next
      case (Some r)
      then show ?thesis using n m [of r] None by (simp add: parse_option_def)
    qed
  qed (simp add: parse_option_def)
qed

lemma parse_config_flat:
  assumes "keys_known table"
    and "\<And>key s ol. key \<noteq> code CHR ''c'' \<or> config_arg True (the (json_object_get (Some config) ''config'')) = Done (Some s) \<and>
      json_object_get (Some config) ''config'' \<noteq> None \<Longrightarrow> flat (pa key s ol)"
    and "\<And>name a key. (name, a, key) \<in> set table \<Longrightarrow> name = ''config'' \<Longrightarrow> a"
  shows "flat (parse_config pa table config ol)"
  using assms(1,3)
proof (induction table arbitrary: ol)
  case (Cons entry table)
  obtain name a key where e: "entry = (name, a, key)" by (metis surj_pair)
  have IH: "flat (parse_config pa table config ol)" for ol
    using Cons(1) [of ol] Cons(2) Cons(3) by (auto simp: keys_known_def)
  have k: "key = code CHR ''c'' \<longleftrightarrow> name = ''config''" using Cons(2) by (simp add: keys_known_def e)
  show ?case
  proof (cases "json_object_get (Some config) name")
    case None
    with IH show ?thesis by (simp add: e)
  next
    case (Some val)
    have "flat (config_arg a val)" by (auto simp: config_arg_def split: json.split)
    moreover have "flat (run_bind (pa key s ol) (\<lambda>(ol, mem). parse_config pa table config ol))"
      if "config_arg a val = Done (Some s)" for s
    proof (rule flat_bind)
      have a: a if "name = ''config''" using Cons(3) [of name a key] that by (simp add: e)
      show "flat (pa key s ol)"
      proof (cases "name = ''config''")
        case True
        then show ?thesis using a that Some by (intro assms(2)) simp
      next
        case False
        with k show ?thesis by (intro assms(2)) simp
      qed
    qed (simp add: IH split: prod.split)
    ultimately show ?thesis using IH Some
      by (cases "config_arg a val") (auto simp: e split: option.split)
  qed
qed simp

lemma options_config: "(''config'', a, key) \<in> set options \<Longrightarrow> a"
  by (auto simp: options_def)

text \<open>When configuration files only name files of a smaller rank, reading the options ends: as much fuel as the rank
  of the file is enough for all files below it.\<close>

theorem parse_arg_ends:
  assumes "\<And>f ol kvs val g. load_config h f ol = Some (JObject kvs) \<Longrightarrow> map_of kvs ''config'' = Some val \<Longrightarrow>
      config_arg True val = Done (Some g) \<Longrightarrow> rank g < rank f"
    and "rank arg < fuel"
  shows "parse_arg fuel h key arg ol \<noteq> Deep"
proof -
  have "flat (parse_arg fuel h key arg ol)" using assms(2)
  proof (induction fuel arbitrary: key arg ol)
    case (Suc fuel)
    have sub: "flat (parse_arg fuel h key s ol)" if "key \<noteq> code CHR ''c'' \<or> rank s < fuel" for key s ol
    proof (cases "key = code CHR ''c''")
      case True
      with that Suc(1) show ?thesis by simp
    next
      case False
      then show ?thesis by (subst parse_arg.simps) (simp add: parse_option_flat)
    qed
    have "flat (parse_config (parse_arg fuel h) options (JObject kvs) ol)" if l: "load_config h arg ol = Some (JObject kvs)" for kvs
    proof (rule parse_config_flat [OF options_keys])
      show "flat (parse_arg fuel h key s ol')" if k: "key \<noteq> code CHR ''c'' \<or>
          config_arg True (the (json_object_get (Some (JObject kvs)) ''config'')) = Done (Some s) \<and>
          json_object_get (Some (JObject kvs)) ''config'' \<noteq> None" for key s ol'
      proof (rule sub)
        show "key \<noteq> code CHR ''c'' \<or> rank s < fuel" using k assms(1) [OF l, of _ s] Suc(2) by fastforce
      qed
      show "a" if "(name, a, key) \<in> set options" "name = ''config''" for name a key using that options_config by blast
    qed
    then have "flat (run_bind (parse_config (parse_arg fuel h) options (JObject kvs) ol) (\<lambda>ol. Done (ol, arg)))"
      if "load_config h arg ol = Some (JObject kvs)" for kvs
      using that by (intro flat_bind) simp_all
    then show ?case by (subst parse_arg.simps) (auto simp: parse_option_flat split: option.split json.split)
  qed simp
  then show ?thesis by (simp add: flat_def)
qed

definition sample_host :: "(string \<Rightarrow> json option) \<Rightarrow> host" where
  "sample_host file = \<lparr>ho_cpus = 4, ho_loads = (\<lambda>_. None), ho_load_file = file, ho_fetch = (\<lambda>_ _ _. (7, []))\<rparr>"

theorem parse_arg_ends_witness:
  "parse_arg 2 (sample_host (\<lambda>f. if f = ''a'' then Some (JObject [(''config'', JString ''b'')]) else None))
    (code CHR ''c'') ''a'' opts_default \<noteq> Deep"
proof (rule parse_arg_ends [where rank = "\<lambda>f. if f = ''a'' then 1 else 0"])
  let ?h = "sample_host (\<lambda>f. if f = ''a'' then Some (JObject [(''config'', JString ''b'')]) else None)"
  fix f ol kvs val g
  assume "load_config ?h f ol = Some (JObject kvs)" "map_of kvs ''config'' = Some val" "config_arg True val = Done (Some g)"
  moreover from this(1) have "f = ''a'' \<and> kvs = [(''config'', JString ''b'')]"
    by (auto simp: load_config_def json_load_url_def sample_host_def split: if_splits)
  ultimately show "(if g = ''a'' then 1 else 0) < (if f = ''a'' then 1 else (0 :: nat))"
    by (auto simp: config_arg_def cstr_def)
qed simp

lemma self_config_table:
  assumes "nul_free f"
  shows "parse_config pa options (JObject [(''config'', JString f)]) ol = run_bind (pa (code CHR ''c'') f ol) (\<lambda>(ol, mem). Done ol)"
proof -
  have "cstr f = f" using cstr_append [OF assms, of "[]"] by simp
  then show ?thesis by (simp add: options_def config_arg_def)
qed

text \<open>C25: a configuration file that names itself is read again and again: no amount of fuel is enough, so that the
  program does not end its start-up but exhausts its stack.\<close>

theorem parse_arg_self_config:
  assumes "\<And>ol. load_config h f ol = Some (JObject [(''config'', JString f)])" and "nul_free f"
  shows "parse_arg fuel h (code CHR ''c'') f ol = Deep"
proof (induction fuel arbitrary: ol)
  case 0
  show ?case by (subst parse_arg.simps) simp
next
  case (Suc fuel)
  show ?case by (subst parse_arg.simps) (simp add: assms(1) self_config_table [OF assms(2)] Suc)
qed

theorem parse_arg_self_config_witness:
  "parse_arg 3 (sample_host (\<lambda>_. Some (JObject [(''config'', JString ''me'')]))) (code CHR ''c'') ''me'' opts_default = Deep"
  by (rule parse_arg_self_config) (simp_all add: load_config_def sample_host_def nul_free_def)

end
