(* ===== verification/Startup.thy ===== *)
theory Startup
  imports System Options
begin

text \<open>
  The start of the program: \<^verbatim>\<open>main\<close> of \<^verbatim>\<open>cpu-miner.c\<close> from the command line to the threads, with the search for
  the default configuration file of \<^verbatim>\<open>util.c\<close>. The operating system is the record \<open>machine\<close>. The state that the
  threads find is the one that \<open>System\<close> starts from.
\<close>

section \<open>The options in force\<close>

record machine =
  ma_host :: host
  ma_sysconf :: int
  ma_args :: "(nat \<times> string) list"
  ma_rest :: bool
  ma_dirname :: string
  ma_home :: string
  ma_exists :: "string \<Rightarrow> bool"
  ma_curl_init :: bool
  ma_fork :: int
  ma_queue :: "nat \<Rightarrow> bool"
  ma_create :: "nat \<Rightarrow> bool"

text \<open>The file in the home directory, else the one beside the program, else the empty path; texts are cut to the
  buffer.\<close>

definition get_defconfig_path :: "(string \<Rightarrow> bool) \<Rightarrow> string \<Rightarrow> string \<Rightarrow> nat \<Rightarrow> string" where
  "get_defconfig_path exists home dir bufsize =
    (let sep = (if strstr dir [backslash] \<noteq> None then [backslash] else ''/'');
         out = take (bufsize - 1) (home @ [backslash] @ ''.cpuminer'' @ [backslash] @ ''cpuminer-conf.json'');
         out = (if \<not> exists out then take (bufsize - 1) (dir @ sep @ ''cpuminer-conf.json'') else out)
     in if \<not> exists out then [] else out)"

definition MAX_PATH :: nat where "MAX_PATH = 4096"

definition num_cpus :: "machine \<Rightarrow> int" where
  "num_cpus M = (let n = to_int32 (ma_sysconf M) in if n < 1 then 1 else n)"

text \<open>After the default file \<^verbatim>\<open>main\<close> reads the command line again, but \<^verbatim>\<open>getopt_long\<close> is at its end already.\<close>

definition default_config :: "nat \<Rightarrow> machine \<Rightarrow> host \<Rightarrow> opts \<Rightarrow> opts run" where
  "default_config fuel M h ol =
    (let defconfig = get_defconfig_path (ma_exists M) (ma_home M) (ma_dirname M) MAX_PATH in
     if defconfig \<noteq> [] then
       run_bind (parse_arg fuel h (code CHR ''c'') defconfig ol)
         (\<lambda>(ol, _). run_bind (parse_cmdline fuel h [] False ol) (\<lambda>(ol, _). Done ol))
     else Done ol)"

definition no_url :: "opts \<Rightarrow> bool" where
  "no_url ol \<longleftrightarrow> \<not> o_benchmark ol \<and> o_rpc_url ol = None"

definition main_defaults :: "machine \<Rightarrow> opts \<Rightarrow> opts run" where
  "main_defaults M ol =
    (let ol = (if o_n_threads ol = 0 then ol\<lparr>o_n_threads := num_cpus M\<rparr> else ol);
         ol = (if o_n_threads ol = 0 then ol\<lparr>o_n_threads := 1\<rparr> else ol)
     in if no_url ol then Exits 1
        else Done (if o_rpc_userpass ol = None
                   then ol\<lparr>o_rpc_userpass := Some (o_rpc_user ol @ '':'' @ o_rpc_pass ol)\<rparr> else ol))"

definition main_options :: "nat \<Rightarrow> machine \<Rightarrow> (opts \<times> string list) run" where
  "main_options fuel M =
    (let h = (ma_host M)\<lparr>ho_cpus := num_cpus M\<rparr> in
     run_bind (parse_cmdline fuel h (ma_args M) (ma_rest M) opts_default)
       (\<lambda>(ol, argv). run_bind (if no_url ol then default_config fuel M h ol else Done ol)
          (\<lambda>ol. run_bind (main_defaults M ol) (\<lambda>ol. Done (ol, argv)))))"

section \<open>The threads\<close>

datatype thread_kind = T_workio | T_longpoll | T_stratum | T_api | T_miner

definition n_threads :: "opts \<Rightarrow> nat" where
  "n_threads ol = nat (o_n_threads ol)"

text \<open>The threads with their places in \<^verbatim>\<open>thr_info\<close>, in the order in which they are started.\<close>

definition thread_plan :: "opts \<Rightarrow> (nat \<times> thread_kind) list" where
  "thread_plan ol =
    (let n = n_threads ol in
     [(n, T_workio)] @
     (if o_want_longpoll ol \<and> \<not> o_have_stratum ol then [(n + 1, T_longpoll)] else []) @
     (if o_want_stratum ol then [(n + 2, T_stratum)] else []) @
     (if o_api_listen ol \<noteq> 0 then [(n + 3, T_api)] else []) @
     map (\<lambda>i. (i, T_miner)) [0..<n])"

text \<open>Each thread gets its queue and is created; a failure ends the program.\<close>

fun start_threads :: "(nat \<Rightarrow> bool) \<Rightarrow> (nat \<Rightarrow> bool) \<Rightarrow> (nat \<times> thread_kind) list \<Rightarrow> unit run" where
  "start_threads tq create [] = Done ()"
| "start_threads tq create ((i, kind) # ts) = (if \<not> tq i \<or> \<not> create i then Exits 1 else start_threads tq create ts)"

definition main_start :: "nat \<Rightarrow> machine \<Rightarrow> (opts \<times> (nat \<times> thread_kind) list) run" where
  "main_start fuel M =
    run_bind (main_options fuel M)
      (\<lambda>(ol, argv).
         if \<not> ma_curl_init M then Exits 1
         else if o_background ol \<and> ma_fork M < 0 then Exits 1
         else if o_background ol \<and> ma_fork M > 0 then Exits 0
         else run_bind (start_threads (ma_queue M) (ma_create M) (thread_plan ol)) (\<lambda>_. Done (ol, thread_plan ol)))"

section \<open>The state that the threads find\<close>

definition opt_stratum_stats :: "opts \<Rightarrow> bool" where
  "opt_stratum_stats ol \<longleftrightarrow> strstr (o_rpc_pass ol) ''stats'' \<noteq> None \<or> o_rpc_user ol = ''benchmark''"

definition main_config :: "json \<Rightarrow> opts \<Rightarrow> config" where
  "main_config bench ol =
    \<lparr>cf_stratum = \<lparr>so_jsonrpc_2 = False, so_redirect = o_redirect ol, so_extranonce = o_extranonce ol,
       so_bench = (if opt_stratum_stats ol then Some bench else None)\<rparr>,
     cf_use_roots = False, cf_allow_getwork = o_allow_getwork ol, cf_want_longpoll = o_want_longpoll ol,
     cf_want_stratum = o_want_stratum ol, cf_benchmark = o_benchmark ol, cf_showdiff = o_showdiff ol,
     cf_randomize = o_randomize ol, cf_max_temp = o_max_temp ol, cf_max_diff = o_max_diff ol,
     cf_max_rate = o_max_rate ol, cf_diff_factor = o_diff_factor ol, cf_n_threads = n_threads ol,
     cf_retries = o_retries ol, cf_scantime = o_scantime ol, cf_time_limit = o_time_limit ol,
     cf_rpc_url = (case o_rpc_url ol of Some u \<Rightarrow> u | None \<Rightarrow> []), cf_rpc_user = o_rpc_user ol,
     cf_rpc_pass = o_rpc_pass ol, cf_pk_script = take (o_pk_script_size ol) (o_pk_script ol),
     cf_coinbase_sig = o_coinbase_sig ol\<rparr>"

text \<open>The address is queued for the stratum thread when stratum is in use and has a thread.\<close>

definition main_miner :: "io \<Rightarrow> opts \<Rightarrow> miner" where
  "main_miner io ol =
    \<lparr>m_st = \<lparr>st_sctx = stratum0, st_io = io,
       st_rpc2 = \<lparr>r_id = [], r_blob = None, r_target = 0, r_job_id = None, r_stratum_diff = dbl_zero\<rparr>,
       st_g_work = work0, st_g_work_time = 0\<rparr>,
     m_have_stratum = o_have_stratum ol, m_have_longpoll = False, m_have_gbt = o_have_gbt ol,
     m_allow_mininginfo = True, m_submit_old = False, m_need_reset = False, m_net_diff = dbl_zero,
     m_net_hashrate = dbl_zero, m_net_blocks = 0, m_accepted = 0, m_rejected = 0, m_solved = 0,
     m_hashrates = replicate (n_threads ol) dbl_zero, m_global_hashrate = 0,
     m_restart = replicate (n_threads ol) False, m_conditional = replicate MAX_CPUS False, m_lp_id = None,
     m_lp_queue = [],
     m_stratum_queue = (if o_want_stratum ol \<and> o_have_stratum ol then (case o_rpc_url ol of Some u \<Rightarrow> [u] | None \<Rightarrow> []) else []),
     m_calls = []\<rparr>"

text \<open>The stratum thread waits for an address before its first round.\<close>

definition stratum_begin :: "miner \<Rightarrow> miner option" where
  "stratum_begin m =
    (case m_stratum_queue m of
       [] \<Rightarrow> None
     | u # us \<Rightarrow> Some (set_sctx ((m_sctx m)\<lparr>s_url := Some u\<rparr>) (m\<lparr>m_stratum_queue := us\<rparr>)))"

definition main_sys :: "miner \<Rightarrow> opts \<Rightarrow> sys" where
  "main_sys m ol = \<lparr>sy_miner = m, sy_threads = map (\<lambda>i. \<lparr>th_id = i, th_work = work0, th_first = 0\<rparr>) [0..<n_threads ol],
     sy_submits = []\<rparr>"

section \<open>The options at the start\<close>

lemma get_defconfig_path_nul_free:
  "nul_free home \<Longrightarrow> nul_free dir \<Longrightarrow> nul_free (get_defconfig_path exists home dir n)"
  by (auto simp: get_defconfig_path_def nul_free_def backslash_def Let_def dest: in_set_takeD)

definition machine_ok :: "machine \<Rightarrow> bool" where
  "machine_ok M \<longleftrightarrow> (\<forall>(key, arg) \<in> set (ma_args M). nul_free arg) \<and> nul_free (ma_home M) \<and> nul_free (ma_dirname M)"

lemma default_config_wf:
  assumes "machine_ok M" "opts_wf ol" shows "run_ok opts_wf (default_config fuel M h ol)"
proof -
  have "nul_free (get_defconfig_path (ma_exists M) (ma_home M) (ma_dirname M) MAX_PATH)"
    using assms(1) by (intro get_defconfig_path_nul_free) (simp_all add: machine_ok_def)
  from parse_arg_wf [OF assms(2) this, of fuel h "code CHR ''c''"] show ?thesis
    using assms(2) unfolding default_config_def Let_def run_ok_simps run_ok_bind
    by (cases "parse_arg fuel h (code CHR ''c'') (get_defconfig_path (ma_exists M) (ma_home M) (ma_dirname M) MAX_PATH) ol") auto
qed

lemma num_cpus_pos: "1 \<le> num_cpus M"
  by (simp add: num_cpus_def Let_def)

lemma main_options_wf:
  assumes "main_options fuel M = Done (ol, argv)" "machine_ok M"
  obtains ol0 n up where "opts_wf ol0" "ol = ol0\<lparr>o_n_threads := n, o_rpc_userpass := up\<rparr>" "1 \<le> n" "n \<le> max 9999 (num_cpus M)"
    "\<not> no_url ol"
proof -
  let ?h = "(ma_host M)\<lparr>ho_cpus := num_cpus M\<rparr>"
  obtain ol1 ol0 where a: "parse_cmdline fuel ?h (ma_args M) (ma_rest M) opts_default = Done (ol1, argv)"
    and b: "(if no_url ol1 then default_config fuel M ?h ol1 else Done ol1) = Done ol0"
    and c: "main_defaults M ol0 = Done ol"
    using assms(1) unfolding main_options_def Let_def by (auto simp: run_bind_Done)
  have "opts_wf ol1" using assms(2) by (intro parse_cmdline_run [OF opts_wf_default, of "ma_args M" fuel ?h "ma_rest M", unfolded run_ok_def, rule_format, OF _ a, simplified])
    (auto simp: machine_ok_def)
  then have wf: "opts_wf ol0" using b default_config_wf [OF assms(2), of ol1 fuel ?h] by (simp add: run_ok_def split: if_splits)
  then have n: "0 \<le> o_n_threads ol0" "o_n_threads ol0 \<le> 9999" by (simp_all add: opts_wf_def)
  define m where "m = (if o_n_threads ol0 = 0 then num_cpus M else o_n_threads ol0)"
  have m: "1 \<le> m" "m \<le> max 9999 (num_cpus M)" using n num_cpus_pos [of M] by (auto simp: m_def)
  define ol2 where "ol2 = ol0\<lparr>o_n_threads := m\<rparr>"
  have "(if o_n_threads ol0 = 0 then ol0\<lparr>o_n_threads := num_cpus M\<rparr> else ol0) = ol2" "o_n_threads ol2 \<noteq> 0"
    using m by (simp_all add: ol2_def m_def)
  then have c2: "(if no_url ol2 then Exits 1 else Done (if o_rpc_userpass ol2 = None
      then ol2\<lparr>o_rpc_userpass := Some (o_rpc_user ol2 @ '':'' @ o_rpc_pass ol2)\<rparr> else ol2)) = Done ol"
    using c by (simp only: main_defaults_def Let_def if_False)
  obtain up where "ol = ol2\<lparr>o_rpc_userpass := up\<rparr>" "\<not> no_url ol"
  proof (cases "o_rpc_userpass ol2 = None")
    case True
    with c2 show thesis by (intro that) (auto simp: no_url_def split: if_splits)
  next
    case False
    with c2 have "ol2 = ol" "\<not> no_url ol" by (auto split: if_splits)
    then show thesis by (intro that [of "o_rpc_userpass ol2"]) simp_all
  qed
  then have "ol = ol0\<lparr>o_n_threads := m, o_rpc_userpass := up\<rparr>" "\<not> no_url ol" by (simp_all add: ol2_def)
  with that wf m show ?thesis by blast
qed

lemma main_start_Done:
  assumes "main_start fuel M = Done (ol, ths)"
  obtains argv where "main_options fuel M = Done (ol, argv)" "ths = thread_plan ol"
  using assms unfolding main_start_def by (auto simp: run_bind_Done split: if_splits)

section \<open>The state at the start\<close>

lemma main_miner_wf: "miner_wf (main_miner io ol)"
  by (simp add: main_miner_def miner_wf_def state_wf_def stratum_wf_def stratum0_def job_wf_def job0_def work_wf_def work0_def rpc2_wf_def)

lemma main_wf_facts:
  assumes "main_start fuel M = Done (ol, ths)" "machine_ok M" "num_cpus M \<le> 67108863"
  shows "1 \<le> n_threads ol" "n_threads ol \<le> 67108863" "ths = thread_plan ol" "\<not> no_url ol"
    "o_have_stratum ol \<Longrightarrow> \<not> o_benchmark ol \<and> (\<exists>url. o_rpc_url ol = Some url \<and> strncasecmp_eq url ''stratum+tcp://'' 14 \<and>
      strstr url ''://'' \<noteq> None)"
proof -
  obtain argv where o: "main_options fuel M = Done (ol, argv)" "ths = thread_plan ol" using main_start_Done [OF assms(1)] .
  obtain ol0 n up where wf: "opts_wf ol0" "ol = ol0\<lparr>o_n_threads := n, o_rpc_userpass := up\<rparr>" "1 \<le> n" "n \<le> max 9999 (num_cpus M)"
    "\<not> no_url ol" using main_options_wf [OF o(1) assms(2)] .
  then show "1 \<le> n_threads ol" "n_threads ol \<le> 67108863" using assms(3) by (auto simp: n_threads_def)
  show "ths = thread_plan ol" "\<not> no_url ol" using o(2) wf(5) .
  show "\<not> o_benchmark ol \<and> (\<exists>url. o_rpc_url ol = Some url \<and> strncasecmp_eq url ''stratum+tcp://'' 14 \<and> strstr url ''://'' \<noteq> None)"
    if "o_have_stratum ol"
    using wf(1) that unfolding wf(2) opts_wf_def by auto
qed

text \<open>C22: when the program starts in stratum mode, the state and the options that its threads find satisfy the
  assumptions under which the step relation of the threads is studied, provided that the vector kernels are correct
  and that there are fewer than 67108864 processors; the stratum thread begins with an address whose
  protocol is stratum. So everything that holds in reachable states holds from the command line on.\<close>

theorem main_starts_system:
  assumes "main_start fuel M = Done (ol, ths)" and "machine_ok M" and "num_cpus M \<le> 67108863"
    and "ms_kernel 8 (cpu_ms8 cpu)" and "ms_kernel 4 (cpu_ms4 cpu)"
    and "o_have_stratum ol" and "o_want_stratum ol"
  shows "\<exists>m url. stratum_begin (main_miner io ol) = Some m \<and> s_url (m_sctx m) = Some url \<and>
    strncasecmp_eq url ''stratum+tcp://'' 14 \<and> strstr url ''://'' \<noteq> None \<and> (n_threads ol + 2, T_stratum) \<in> set ths \<and>
    setting_ok \<lparr>se_cpu = cpu, se_config = main_config bench ol, se_loads = loads, se_dumps = dumps, se_curl = curl\<rparr> \<and>
    sys_init \<lparr>se_cpu = cpu, se_config = main_config bench ol, se_loads = loads, se_dumps = dumps, se_curl = curl\<rparr> (main_sys m ol)"
proof -
  note facts = main_wf_facts [OF assms(1-3)]
  obtain url where url: "o_rpc_url ol = Some url" "strncasecmp_eq url ''stratum+tcp://'' 14" "strstr url ''://'' \<noteq> None"
    and nb: "\<not> o_benchmark ol" using facts(5) [OF assms(6)] by blast
  let ?m0 = "(main_miner io ol)\<lparr>m_stratum_queue := []\<rparr>"
  define m where "m = set_sctx (stratum0\<lparr>s_url := Some url\<rparr>) ?m0"
  have q: "m_stratum_queue (main_miner io ol) = [url]" using assms(6,7) url(1) by (simp add: main_miner_def)
  have "m_sctx (main_miner io ol) = stratum0" by (simp add: main_miner_def)
  with q have b: "stratum_begin (main_miner io ol) = Some m" by (simp add: stratum_begin_def m_def)
  have wf: "miner_wf m" "m_have_stratum m" "m_g_work m = work0" "s_url (m_sctx m) = Some url"
    using assms(6)
    by (simp_all add: m_def set_sctx_def main_miner_def miner_wf_def state_wf_def stratum_wf_def stratum0_def job_wf_def job0_def work_wf_def
        work0_def rpc2_wf_def)
  have "mineable work0" using work0_wf by (simp add: mineable_def work0_def)
  then have i: "sys_init \<lparr>se_cpu = cpu, se_config = main_config bench ol, se_loads = loads, se_dumps = dumps, se_curl = curl\<rparr> (main_sys m ol)"
    using wf by (simp add: sys_init_def main_sys_def main_config_def)
  have s: "setting_ok \<lparr>se_cpu = cpu, se_config = main_config bench ol, se_loads = loads, se_dumps = dumps, se_curl = curl\<rparr>"
    using facts(1,2) nb assms(4,5) by (simp add: setting_ok_def main_config_def)
  have "(n_threads ol + 2, T_stratum) \<in> set ths" using facts(3) assms(7) by (simp add: thread_plan_def Let_def)
  with b i s wf(4) url(2,3) show ?thesis by blast
qed

text \<open>Whatever the options, the threads have different places, all of them within the allocated table, and
  exactly the places below the number of threads belong to miner threads.\<close>

theorem main_thread_places:
  assumes "main_start fuel M = Done (ol, ths)"
  shows "distinct (map fst ths) \<and> (\<forall>(i, kind) \<in> set ths. i < n_threads ol + 4 \<and> (kind = T_miner \<longleftrightarrow> i < n_threads ol)) \<and>
    {i. (i, T_miner) \<in> set ths} = {..<n_threads ol} \<and> (n_threads ol, T_workio) \<in> set ths"
proof -
  obtain argv where "ths = thread_plan ol" using main_start_Done [OF assms] .
  moreover have "map fst (map (\<lambda>i. (i, T_miner)) xs) = xs" for xs :: "nat list" by (induction xs) simp_all
  ultimately show ?thesis by (auto simp: thread_plan_def Let_def)
qed

text \<open>C26: switching stratum off while the address is a stratum address leaves the program without any thread that
  fetches work, but with miner threads that wait for a stratum thread: each of their rounds gives up
  and changes nothing.\<close>

theorem no_stratum_never_mines:
  assumes "main_start fuel M = Done (ol, ths)" and "o_have_stratum ol" and "\<not> o_want_stratum ol" and "120 \<le> e_now e"
  shows "(\<forall>i. (i, T_stratum) \<notin> set ths \<and> (i, T_longpoll) \<notin> set ths) \<and>
    miner_round cpu (main_config bench ol) e th (main_miner io ol) = Some (Again, th, [], main_miner io ol)"
proof -
  obtain argv where t: "ths = thread_plan ol" using main_start_Done [OF assms(1)] .
  have "miner_fetch (main_config bench ol) e th (main_miner io ol) = Some (Again, main_miner io ol)"
    using assms(2,4) by (simp add: miner_fetch_def main_miner_def main_config_def Let_def)
  then show ?thesis using assms(2,3) t by (auto simp: miner_round_def thread_plan_def Let_def)
qed

section \<open>A start\<close>

definition sample_machine :: "(nat \<times> string) list \<Rightarrow> machine" where
  "sample_machine args = \<lparr>ma_host = sample_host (\<lambda>_. None), ma_sysconf = 4, ma_args = args, ma_rest = False, ma_dirname = ''.'',
     ma_home = ''/'', ma_exists = (\<lambda>_. False), ma_curl_init = True, ma_fork = 0, ma_queue = (\<lambda>_. True), ma_create = (\<lambda>_. True)\<rparr>"

definition sample_opts :: opts where
  "sample_opts = (set_url ''stratum+tcp://a:1'' ''a:1'' opts_default)\<lparr>o_n_threads := 4, o_rpc_userpass := Some '':''\<rparr>"

lemma sample_url: "parse_url ''stratum+tcp://a:1'' ol = Done (set_url ''stratum+tcp://a:1'' ''a:1'' ol, ''stratum+tcp://a:1'')"
  by (simp add: parse_url_def cstr_at_def cstr_def known_protocol_def strncasecmp_eq_def Let_def)

lemma start_threads_ok: "start_threads (\<lambda>_. True) (\<lambda>_. True) ts = Done ()"
  by (induction ts) auto

lemma sample_keys:
  "parse_arg fuel h (code CHR ''o'') ''stratum+tcp://a:1'' ol = Done (set_url ''stratum+tcp://a:1'' ''a:1'' ol, ''stratum+tcp://a:1'')"
  "parse_arg fuel h 1007 [] ol = Done (ol\<lparr>o_want_stratum := False, o_extranonce := False\<rparr>, [])"
  by (simp_all add: parse_arg.simps parse_option_def parse_flag_def parse_number_def code_def sample_url)

lemma sample_cpus: "num_cpus (sample_machine args) = 4"
  by (simp add: num_cpus_def sample_machine_def to_int32_def)

lemma sample_start: "main_start 0 (sample_machine [(code CHR ''o'', ''stratum+tcp://a:1'')]) = Done (sample_opts, thread_plan sample_opts)"
proof -
  let ?M = "sample_machine [(code CHR ''o'', ''stratum+tcp://a:1'')]"
  have "main_options 0 ?M = Done (sample_opts, [''stratum+tcp://a:1''])"
    using sample_cpus [of "[(code CHR ''o'', ''stratum+tcp://a:1'')]"]
    by (simp add: main_options_def sample_machine_def sample_keys main_defaults_def no_url_def sample_opts_def set_url_def opts_default_def)
  then show ?thesis by (simp add: main_start_def sample_machine_def start_threads_ok sample_opts_def set_url_def opts_default_def)
qed

theorem main_thread_places_witness:
  "distinct (map fst (thread_plan sample_opts)) \<and> (4, T_workio) \<in> set (thread_plan sample_opts)"
  using main_thread_places [OF sample_start] by (simp add: n_threads_def sample_opts_def)

theorem main_starts_system_witness:
  "\<exists>m url. stratum_begin (main_miner io0 sample_opts) = Some m \<and> s_url (m_sctx m) = Some url \<and>
    sys_init \<lparr>se_cpu = \<lparr>cpu_8way = False, cpu_4way = False, cpu_ms8 = ms_lanes 8, cpu_ms4 = ms_lanes 4\<rparr>,
      se_config = main_config JNull sample_opts, se_loads = (\<lambda>_. None), se_dumps = (\<lambda>_. []), se_curl = (\<lambda>_ _. (7, 0, [], []))\<rparr>
      (main_sys m sample_opts)"
proof -
  let ?cpu = "\<lparr>cpu_8way = False, cpu_4way = False, cpu_ms8 = ms_lanes 8, cpu_ms4 = ms_lanes 4\<rparr>"
  have m: "machine_ok (sample_machine [(code CHR ''o'', ''stratum+tcp://a:1'')])"
    by (simp add: machine_ok_def sample_machine_def nul_free_def)
  have c: "num_cpus (sample_machine [(code CHR ''o'', ''stratum+tcp://a:1'')]) \<le> 67108863" by (simp add: sample_cpus)
  have k: "ms_kernel 8 (cpu_ms8 ?cpu)" "ms_kernel 4 (cpu_ms4 ?cpu)"
    using sample_setting_ok by (simp_all add: setting_ok_def sample_setting_def)
  have o: "o_have_stratum sample_opts" "o_want_stratum sample_opts"
    by (simp_all add: sample_opts_def set_url_def opts_default_def strncasecmp_eq_def)
  from main_starts_system [OF sample_start m c k o, of io0 JNull "\<lambda>_. None" "\<lambda>_. []" "\<lambda>_ _. (7, 0, [], [])"]
  show ?thesis by blast
qed

theorem no_stratum_never_mines_witness:
  "\<exists>ol ths. main_start 0 (sample_machine [(code CHR ''o'', ''stratum+tcp://a:1''), (1007, [])]) = Done (ol, ths) \<and>
    miner_round (se_cpu sample_setting) (main_config JNull ol) (sample_env\<lparr>e_now := 1700000000\<rparr>) \<lparr>th_id = 0, th_work = work0, th_first = 0\<rparr>
      (main_miner io0 ol) = Some (Again, \<lparr>th_id = 0, th_work = work0, th_first = 0\<rparr>, [], main_miner io0 ol)"
proof -
  let ?args = "[(code CHR ''o'', ''stratum+tcp://a:1''), (1007, [])]"
  let ?ol = "sample_opts\<lparr>o_want_stratum := False, o_extranonce := False\<rparr>"
  have "main_options 0 (sample_machine ?args) = Done (?ol, [''stratum+tcp://a:1'', []])"
    using sample_cpus [of ?args]
    by (simp add: main_options_def sample_machine_def sample_keys main_defaults_def no_url_def sample_opts_def set_url_def opts_default_def)
  then have run: "main_start 0 (sample_machine ?args) = Done (?ol, thread_plan ?ol)"
    by (simp add: main_start_def sample_machine_def start_threads_ok sample_opts_def set_url_def opts_default_def)
  have o: "o_have_stratum ?ol" "\<not> o_want_stratum ?ol"
    by (simp_all add: sample_opts_def set_url_def opts_default_def strncasecmp_eq_def)
  have "120 \<le> e_now (sample_env\<lparr>e_now := 1700000000\<rparr>)" by simp
  from no_stratum_never_mines [OF run o this, of "se_cpu sample_setting" JNull "\<lparr>th_id = 0, th_work = work0, th_first = 0\<rparr>" io0]
  show ?thesis using run by blast
qed

end
