(* ===== verification/Api.thy ===== *)
theory Api
  imports Startup "HOL-Library.Signed_Division"
begin

text \<open>
  The monitoring interface, \<^verbatim>\<open>api.c\<close>: the list of addresses that may connect, the commands, the requests of
  browsers over WebSocket, and the loop over the connections. Socket calls, the sensors of the machine and the
  SHA-1 function of a library are arguments. Log lines are left out. \<open>None\<close> is undefined behaviour.
\<close>

unbundle bit_operations_syntax

section \<open>Who may connect\<close>

record access =
  ia_ip :: u32
  ia_mask :: u32
  ia_group :: char

definition isalpha :: "char \<Rightarrow> bool" where
  "isalpha ch \<longleftrightarrow> 65 \<le> code ch \<and> code ch \<le> 90 \<or> 97 \<le> code ch \<and> code ch \<le> 122"

definition toupper :: "char \<Rightarrow> char" where
  "toupper ch = (if 97 \<le> code ch \<and> code ch \<le> 122 then chr (code ch - 32) else ch)"

definition PRIVGROUP :: char where "PRIVGROUP = CHR ''W''"
definition NOPRIVGROUP :: char where "NOPRIVGROUP = CHR ''R''"

text \<open>One pass of the loop over the bits of a mask, for the value of \<^verbatim>\<open>mask\<close> after its decrement. Shifting by a
  negative number is undefined.\<close>

definition mask_pass :: "int \<Rightarrow> u32 \<Rightarrow> u32 option" where
  "mask_pass m acc =
    (if m smod 8 < 0 then None
     else
       let octet = push_bit (nat (m smod 8)) 1
       in Some (acc OR push_bit (nat (24 - 8 * (m div 8))) octet))"

function mask_loop :: "int \<Rightarrow> u32 \<Rightarrow> u32 option" where
  "mask_loop m acc =
    (if m < 0 then Some acc
     else case mask_pass (m - 1) acc of None \<Rightarrow> None | Some acc \<Rightarrow> mask_loop (m - 1) acc)"
  by pat_completeness auto
termination by (relation "measure (\<lambda>(m, acc). nat (m + 1))") auto

declare mask_loop.simps [simp del]

text \<open>The octets of an address; a missing one is zero, one out of range spoils the entry.\<close>

fun ip_octets :: "nat \<Rightarrow> nat \<Rightarrow> string \<Rightarrow> u32 \<Rightarrow> u32 option" where
  "ip_octets 0 i ptr ip = Some ip"
| "ip_octets (Suc k) i ptr ip =
    (let tok = takeWhile (\<lambda>ch. ch \<noteq> CHR ''.'') ptr; octet = atoi tok in
     if octet < 0 \<or> octet > 255 then None
     else
       let ip = ip OR push_bit (24 - i * 8) (word_of_int octet)
       in if length tok = length ptr then Some ip else ip_octets k (i + 1) (drop (length tok + 1) ptr) ip)"

text \<open>One entry; the inner \<open>None\<close> is an entry that is skipped. No group but the privileged one has commands.\<close>

definition ip_entry :: "string \<Rightarrow> access option option" where
  "ip_entry ptr =
    (let (grp, ptr) =
       (case ptr of
          g # sep # t \<Rightarrow>
            if isalpha g \<and> sep = CHR '':'' then (if toupper g = PRIVGROUP then PRIVGROUP else NOPRIVGROUP, t)
            else (NOPRIVGROUP, ptr)
        | _ \<Rightarrow> (NOPRIVGROUP, ptr))
     in if ptr = ''0.0.0.0'' then Some (Some \<lparr>ia_ip = 0, ia_mask = 0, ia_group = grp\<rparr>)
        else
          (case (case strchr ptr CHR ''/'' of
                   None \<Rightarrow> Some (Some (0xffffffff, ptr))
                 | Some r \<Rightarrow>
                     let bits = atoi (drop 1 r) in
                     if bits < 1 \<or> bits > 32 then Some None
                     else (case mask_loop bits 0 of None \<Rightarrow> None
                           | Some m \<Rightarrow> Some (Some (m, take (length ptr - length r) ptr)))) of
             None \<Rightarrow> None
           | Some None \<Rightarrow> Some None
           | Some (Some (msk, ptr)) \<Rightarrow>
               (case ip_octets 4 0 ptr 0 of
                  None \<Rightarrow> Some None
                | Some ip \<Rightarrow> Some (Some \<lparr>ia_ip = ip AND msk, ia_mask = msk, ia_group = grp\<rparr>))))"

definition isblank :: "char \<Rightarrow> bool" where
  "isblank ch \<longleftrightarrow> ch = CHR '' '' \<or> code ch = 9"

function ip_list :: "string \<Rightarrow> access list option" where
  "ip_list ptr =
    (if ptr = [] then Some []
     else
       let ptr' = dropWhile isblank ptr; tok = takeWhile (\<lambda>ch. ch \<noteq> CHR '','') ptr'; rest = drop (length tok + 1) ptr' in
       if ptr' \<noteq> [] \<and> hd ptr' = CHR '','' then ip_list (tl ptr')
       else (case ip_entry tok of
               None \<Rightarrow> None
             | Some entry \<Rightarrow>
                 map_option (\<lambda>xs. (case entry of None \<Rightarrow> xs | Some a \<Rightarrow> a # xs)) (ip_list rest)))"
  by pat_completeness auto
termination
proof (relation "measure length")
  fix ptr :: string
  assume ptr: "ptr \<noteq> []"
  have d: "length (dropWhile isblank ptr) \<le> length ptr" by (rule length_dropWhile_le)
  show "(tl x, ptr) \<in> measure length" if x: "x = dropWhile isblank ptr" "x \<noteq> [] \<and> hd x = CHR '',''" for x
  proof -
    have "length (tl x) < length x" using x(2) by simp
    then show ?thesis using d unfolding x(1) by simp
  qed
  show "(z, ptr) \<in> measure length" if "x = dropWhile isblank ptr" "y = takeWhile (\<lambda>ch. ch \<noteq> CHR '','') x" "z = drop (length y + 1) x" for x y z
  proof -
    have "length z \<le> length ptr - 1" using d that by simp
    then show ?thesis using ptr by (cases ptr) auto
  qed
qed simp

declare ip_list.simps [simp del]

definition setup_ipaccess :: "string \<Rightarrow> access list option" where
  "setup_ipaccess opt_api_allow = ip_list opt_api_allow"

text \<open>The first entry that matches decides; without a list only the local address may connect.\<close>

definition check_connect :: "string option \<Rightarrow> access list \<Rightarrow> u32 \<Rightarrow> bool \<times> char" where
  "check_connect opt_api_allow ipaccess client_ip =
    (if opt_api_allow \<noteq> None then
       (case find (\<lambda>a. client_ip AND ia_mask a = ia_ip a) ipaccess of
          None \<Rightarrow> (False, NOPRIVGROUP)
        | Some a \<Rightarrow> (True, ia_group a))
     else (client_ip = 0x7f000001, NOPRIVGROUP))"

section \<open>Commands\<close>

record api =
  ap_opts :: opts
  ap_miner :: miner
  ap_bye :: bool

text \<open>The clock, the time of the start, and the sensors.\<close>

record api_env =
  ae_now :: int
  ae_startup :: int
  ae_temp :: double
  ae_fan :: int
  ae_clock :: u32

definition MYBUFSIZ :: nat where "MYBUFSIZ = 16384"

text \<open>A reply is built in a buffer of \<^verbatim>\<open>MYBUFSIZ + 1\<close> bytes.\<close>

definition reply_in_buffer :: "string \<Rightarrow> api \<Rightarrow> (string \<times> api) run" where
  "reply_in_buffer s a = (if length s > MYBUFSIZ then Undefined else Done (s, a))"

definition cpustatus :: "api \<Rightarrow> nat \<Rightarrow> string" where
  "cpustatus a thr_id =
    (if thr_id < n_threads (ap_opts a) then
       take 511 (''CPU='' @ dec_nat thr_id @ '';KHS='' @ fmt_fixed 2 (ddiv (m_hashrates (ap_miner a) ! thr_id) (DFin 1000)) @ ''|'')
     else [])"

definition dec_u32 :: "u32 \<Rightarrow> string" where
  "dec_u32 w = dec_int (to_int32 (uint w))"

definition getsummary :: "api_env \<Rightarrow> api \<Rightarrow> (string \<times> api) run" where
  "getsummary e a =
    (let m = ap_miner a;
         uptime = dbl_of_int (ae_now e - ae_startup e);
         accps = ddiv (dmul (DFin 60) (dbl_of_int (uint (m_accepted m)))) (if \<not> deq uptime dbl_zero then uptime else dbl_one)
     in reply_in_buffer
          (''NAME=cpuminer-multi;VER=1.3.7;API=1.1;ALGO='' @ get_currentalgo @ '';CPUS='' @ dec_int (o_n_threads (ap_opts a)) @
           '';KHS='' @ fmt_fixed 2 (ddiv (dbl_of_int (uint (m_global_hashrate m))) (DFin 1000)) @
           '';SOLV='' @ dec_u32 (m_solved m) @ '';ACC='' @ dec_u32 (m_accepted m) @ '';REJ='' @ dec_u32 (m_rejected m) @
           '';ACCMN='' @ fmt_fixed 3 accps @
           '';DIFF='' @ fmt_fixed 6 (if dlt dbl_zero (m_net_diff m) then m_net_diff m else m_stratum_diff m) @
           '';TEMP='' @ fmt_fixed 1 (ae_temp e) @ '';FAN='' @ dec_int (ae_fan e) @ '';FREQ='' @ dec_u32 (ae_clock e) @
           '';UPTIME='' @ fmt_fixed 0 uptime @ '';TS='' @ dec_nat (nat (ae_now e mod 4294967296)) @ ''|'') a)"

definition getthreads :: "api \<Rightarrow> (string \<times> api) run" where
  "getthreads a = reply_in_buffer (concat (map (cpustatus a) [0..<n_threads (ap_opts a)])) a"

text \<open>The parameters of a command are null when the request has none.\<close>

definition remote_seturl :: "string option \<Rightarrow> api \<Rightarrow> (string \<times> api) run" where
  "remote_seturl params a =
    (if \<not> o_api_remote (ap_opts a) then Done ([], a)
     else case params of
       None \<Rightarrow> Undefined
     | Some url \<Rightarrow>
         run_bind (parse_url url (ap_opts a))
           (\<lambda>(ol, _). Done (''ok|'',
              a\<lparr>ap_opts := ol, ap_miner := (ap_miner a)\<lparr>m_have_stratum := o_have_stratum ol, m_need_reset := True\<rparr>\<rparr>)))"

definition remote_quit :: "api \<Rightarrow> (string \<times> api) run" where
  "remote_quit a = (if \<not> o_api_remote (ap_opts a) then Done ([], a) else Done (''bye|'', a\<lparr>ap_bye := True\<rparr>))"

datatype command = C_summary | C_threads | C_seturl | C_quit | C_help

definition cmds :: "(string \<times> command) list" where
  "cmds = [(''summary'', C_summary), (''threads'', C_threads), (''seturl'', C_seturl), (''quit'', C_quit), (''help'', C_help)]"

definition gethelp :: "api \<Rightarrow> (string \<times> api) run" where
  "gethelp a = Done (concat (map (\<lambda>(name, _). name @ [CHR 0x0A]) (butlast cmds)) @ ''|'', a)"

fun run_command :: "command \<Rightarrow> api_env \<Rightarrow> string option \<Rightarrow> api \<Rightarrow> (string \<times> api) run" where
  "run_command C_summary e params a = getsummary e a"
| "run_command C_threads e params a = getthreads a"
| "run_command C_seturl e params a = remote_seturl params a"
| "run_command C_quit e params a = remote_quit a"
| "run_command C_help e params a = gethelp a"

section \<open>WebSocket\<close>

definition table64 :: string where
  "table64 = ''ABCDEFGHIJKLMNOPQRSTUVWXYZabcdefghijklmnopqrstuvwxyz0123456789+/''"

text \<open>Three bytes become four characters; missing bytes are zero and leave padding.\<close>

fun base64_quad :: "u8 list \<Rightarrow> string" where
  "base64_quad (b0 # bs) =
    (let b1 = (case bs of [] \<Rightarrow> 0 | b # _ \<Rightarrow> b); b2 = (case bs of _ # b # _ \<Rightarrow> b | _ \<Rightarrow> 0);
         o0 = drop_bit 2 (b0 AND 0xFC); o1 = push_bit 4 (b0 AND 3) OR drop_bit 4 (b1 AND 0xF0);
         o2 = push_bit 2 (b1 AND 0x0F) OR drop_bit 6 (b2 AND 0xC0); o3 = b2 AND 0x3F;
         ch = (\<lambda>o'. table64 ! unat o')
     in case bs of
          [] \<Rightarrow> [ch o0, ch o1] @ ''==''
        | [_] \<Rightarrow> [ch o0, ch o1, ch o2] @ ''=''
        | _ \<Rightarrow> [ch o0, ch o1, ch o2, ch o3])"
| "base64_quad [] = []"

text \<open>The groups go to a buffer of their own; \<open>len\<close> counts what also fits the result.\<close>

fun base64_loop :: "nat \<Rightarrow> nat \<Rightarrow> u8 list \<Rightarrow> string \<times> nat" where
  "base64_loop outlen len [] = ([], len)"
| "base64_loop outlen len (b # bs) =
    (let quad = base64_quad (take 3 (b # bs)) in
     if len + 4 > outlen then (quad, len)
     else case base64_loop outlen (len + 4) (drop 2 bs) of (s, len) \<Rightarrow> (quad @ s, len))"

text \<open>The result is copied with room for \<open>len\<close> bytes including the terminating zero; then a text of 27
  characters gets a padding character.\<close>

definition base64_encode :: "u8 list \<Rightarrow> nat \<Rightarrow> string" where
  "base64_encode indata outlen =
    (case base64_loop outlen 0 indata of (output, len) \<Rightarrow>
      let outptr = take (len - 1) output
      in if length outptr = 27 then outptr @ ''='' else outptr)"

text \<open>The header of a text frame: the length in one, two or eight bytes.\<close>

definition ws_header :: "u64 \<Rightarrow> u8 list" where
  "ws_header datalen =
    (if datalen \<le> 125 then [129, ucast datalen]
     else if datalen \<le> 65535 then [129, 126, ucast (drop_bit 8 datalen), ucast datalen]
     else [129, 127, ucast (drop_bit 56 datalen), ucast (drop_bit 48 datalen), ucast (drop_bit 40 datalen),
           ucast (drop_bit 32 datalen), ucast (drop_bit 24 datalen), ucast (drop_bit 16 datalen),
           ucast (drop_bit 8 datalen), ucast datalen])"

definition crlf :: string where "crlf = [CHR 0x0D, CHR 0x0A]"

definition bytes_of_string :: "string \<Rightarrow> u8 list" where
  "bytes_of_string s = map (\<lambda>ch. word_of_nat (code ch)) s"

text \<open>The answer to the handshake, the frame and a zero byte. The key of the client is copied with the constant of
  the protocol into 128 bytes.\<close>

definition websocket_handshake :: "(string \<Rightarrow> u8 list) \<Rightarrow> string \<Rightarrow> string \<Rightarrow> u8 list run" where
  "websocket_handshake sha1 result clientkey =
    (let inpkey = clientkey @ ''258EAFA5-E914-47DA-95CA-C5AB0DC85B11'' in
     if length inpkey + 1 > 128 then Undefined
     else
       let seckey = base64_encode (sha1 inpkey) 64;
           answer = ''HTTP/1.1 101 Switching Protocol'' @ crlf @ ''Upgrade: WebSocket'' @ crlf @ ''Connection: Upgrade'' @ crlf @
             ''Sec-WebSocket-Accept: '' @ seckey @ crlf @ ''Sec-WebSocket-Protocol: text'' @ crlf @ crlf
       in Done (bytes_of_string answer @ ws_header (of_nat (length result)) @ bytes_of_string result @ [0]))"

section \<open>Requests\<close>

definition SOCK_REC_BUFSZ :: nat where "SOCK_REC_BUFSZ = 1024"

text \<open>A line end is cut off, and what the client sent is read as a C string.\<close>

definition request_text :: "string \<Rightarrow> string" where
  "request_text data =
    cstr (if data \<noteq> [] \<and> last data = CHR 0x0A then
            (let data = butlast data in if data \<noteq> [] \<and> last data = CHR 0x0D then butlast data else data)
          else data)"

text \<open>The command of a browser's request: the word after the first slash, the next slash separating the
  parameters, which a further one ends. It is scanned into 256 bytes.\<close>

definition get_command :: "string \<Rightarrow> string run" where
  "get_command msg =
    (let cmd = takeWhile (\<lambda>ch. \<not> isspace ch) (dropWhile isspace (drop 5 msg)) in
     if length cmd + 1 > 256 then Undefined
     else
       let name = takeWhile (\<lambda>ch. ch \<noteq> CHR ''/'') cmd
       in if name = cmd then Done cmd
          else Done (name @ ''|'' @ takeWhile (\<lambda>ch. ch \<noteq> CHR ''/'') (drop (length name + 1) cmd)))"

text \<open>The place of the handshake key in the buffer, if the request has one, with the zero that ends it; without a colon
  behind its name the program follows a bad pointer.\<close>

definition get_wskey :: "string \<Rightarrow> nat \<Rightarrow> (string \<times> nat) option run" where
  "get_wskey buf off =
    (case strstr (drop off buf) ''Sec-WebSocket-Key'' of
       None \<Rightarrow> Done None
     | Some wskey \<Rightarrow>
         let pos = length buf - length wskey;
             line = takeWhile (\<lambda>ch. ch \<noteq> CHR 0x0D) wskey;
             mem = (buf @ [CHR 0x00])[pos + length line := CHR 0x00]
         in case strchr line CHR '':'' of
              None \<Rightarrow> Undefined
            | Some r \<Rightarrow> Done (Some (mem, pos + (length line - length (dropWhile (\<lambda>ch. ch = CHR '' '') (drop 1 r))))))"

text \<open>The command line and the key of a request; the command is written over the start of the buffer in which the key
  stands.\<close>

definition parse_request :: "string \<Rightarrow> (string \<times> string option) run" where
  "parse_request buf =
    (case strstr buf ''GET /'' of
       Some msg \<Rightarrow>
         if length msg > 5 then
           run_bind (get_command msg)
             (\<lambda>cmd. run_bind (get_wskey buf (length buf - length msg))
               (\<lambda>key. Done (cmd, map_option (\<lambda>(mem, p). cstr_at (memcpy_at mem 0 (cmd @ [CHR 0x00])) p) key)))
         else Done (buf, None)
     | None \<Rightarrow> Done (buf, None))"

text \<open>Name and parameters, the parameters without a trailing bar.\<close>

definition split_command :: "string \<Rightarrow> string \<times> string option" where
  "split_command buf =
    (let name = takeWhile (\<lambda>ch. ch \<noteq> CHR ''|'') buf in
     if name = buf then (buf, None)
     else
       let params = drop (length name + 1) buf
       in (name, Some (if params \<noteq> [] \<and> last params = CHR ''|'' then butlast params else params)))"

text \<open>What is sent back, if anything.\<close>

definition api_request :: "(string \<Rightarrow> u8 list) \<Rightarrow> api_env \<Rightarrow> string \<Rightarrow> api \<Rightarrow> (u8 list option \<times> api) run" where
  "api_request sha1 e data a =
    run_bind (parse_request (request_text data))
      (\<lambda>(buf, wskey).
         case split_command buf of (name, params) \<Rightarrow>
           (case map_of cmds name of
              None \<Rightarrow> Done (None, a)
            | Some cmd \<Rightarrow>
                run_bind (run_command cmd e params a)
                  (\<lambda>(result, a).
                     case wskey of
                       Some key \<Rightarrow> run_bind (websocket_handshake sha1 result key) (\<lambda>d. Done (Some d, a))
                     | None \<Rightarrow> Done (Some (bytes_of_string result @ [0]), a))))"

text \<open>The loop over the connections until the command to quit: the address of a client and what \<^verbatim>\<open>recv\<close> gives,
  \<open>None\<close> for a failure. Each reply says whether the socket is closed again.\<close>

fun api_loop :: "(string \<Rightarrow> u8 list) \<Rightarrow> access list \<Rightarrow> (u32 \<times> api_env \<times> string option) list \<Rightarrow> api \<Rightarrow>
    ((bool \<times> u8 list option) list \<times> api) run" where
  "api_loop sha1 acl [] a = Done ([], a)"
| "api_loop sha1 acl ((client, e, data) # conns) a =
    (if ap_bye a then Done ([], a)
     else if \<not> fst (check_connect (o_api_allow (ap_opts a)) acl client) then
       run_bind (api_loop sha1 acl conns a) (\<lambda>(rs, a). Done ((False, None) # rs, a))
     else
       case data of
         None \<Rightarrow> run_bind (api_loop sha1 acl conns a) (\<lambda>(rs, a). Done ((False, None) # rs, a))
       | Some d \<Rightarrow>
           run_bind (api_request sha1 e (take SOCK_REC_BUFSZ d) a)
             (\<lambda>(r, a). run_bind (api_loop sha1 acl conns a) (\<lambda>(rs, a). Done ((True, r) # rs, a))))"

text \<open>Socket, binding and listening succeed or not; \<^verbatim>\<open>inet_addr\<close> reads one address. The thread ends the program after
  the command to quit.\<close>

definition api_serve :: "(string \<Rightarrow> u8 list) \<Rightarrow> (string \<Rightarrow> u32 option) \<Rightarrow> bool \<times> bool \<times> bool \<Rightarrow> (u32 \<times> api_env \<times> string option) list \<Rightarrow> api \<Rightarrow>
    ((bool \<times> u8 list option) list \<times> api) run" where
  "api_serve sha1 inet_addr socks conns a =
    (case socks of (sock, bound, listening) \<Rightarrow>
      if o_api_listen (ap_opts a) = 0 \<and> o_debug (ap_opts a) then Done ([], a)
      else case o_api_allow (ap_opts a) of
        None \<Rightarrow> if sock then Undefined else Done ([], a)
      | Some addr \<Rightarrow>
          (case setup_ipaccess addr of
             None \<Rightarrow> Undefined
           | Some acl \<Rightarrow>
               if \<not> sock \<or> inet_addr addr = None \<or> \<not> bound \<or> \<not> listening then Done ([], a)
               else api_loop sha1 acl conns a))"

definition api_thread :: "(string \<Rightarrow> u8 list) \<Rightarrow> (string \<Rightarrow> u32 option) \<Rightarrow> bool \<times> bool \<times> bool \<Rightarrow> (u32 \<times> api_env \<times> string option) list \<Rightarrow> api \<Rightarrow>
    ((bool \<times> u8 list option) list \<times> api) run" where
  "api_thread sha1 inet_addr socks conns a =
    run_bind (api_serve sha1 inet_addr socks conns a) (\<lambda>(rs, a). if ap_bye a then Exits 1 else Done (rs, a))"

section \<open>Only remote control changes anything\<close>

lemma run_command_readonly:
  assumes "\<not> o_api_remote (ap_opts a)" "run_command cmd e params a = Done (r, a')" shows "a' = a"
  using assms by (cases cmd) (auto simp: getsummary_def getthreads_def reply_in_buffer_def remote_seturl_def remote_quit_def
      gethelp_def Let_def split: if_splits)

lemma api_request_readonly:
  assumes "\<not> o_api_remote (ap_opts a)" "api_request sha1 e data a = Done (r, a')" shows "a' = a"
proof -
  obtain buf wskey where "(case split_command buf of (name, params) \<Rightarrow>
           (case map_of cmds name of
              None \<Rightarrow> Done (None, a)
            | Some cmd \<Rightarrow>
                run_bind (run_command cmd e params a)
                  (\<lambda>(result, a).
                     case wskey of
                       Some key \<Rightarrow> run_bind (websocket_handshake sha1 result key) (\<lambda>d. Done (Some d, a))
                     | None \<Rightarrow> Done (Some (bytes_of_string result @ [0]), a)))) = Done (r, a')"
    using assms(2) by (auto simp: api_request_def run_bind_Done)
  then show ?thesis
    using run_command_readonly [OF assms(1)] by (auto simp: run_bind_Done split: prod.splits option.splits)
qed

text \<open>C27: without the option for remote control no request, whoever sends it and whatever it says, changes the options,
  the mining state or ends the program; and a client whose address is not on the list gets no answer.\<close>

theorem api_readonly:
  assumes "\<not> o_api_remote (ap_opts a)" and "\<not> ap_bye a" and "api_loop sha1 acl conns a = Done (rs, a')"
  shows "a' = a \<and> length rs = length conns \<and>
    (\<forall>i < length conns. \<not> fst (check_connect (o_api_allow (ap_opts a)) acl (fst (conns ! i))) \<longrightarrow> snd (rs ! i) = None)"
  using assms(3)
proof (induction conns arbitrary: rs)
  case (Cons conn conns)
  obtain client e data where conn: "conn = (client, e, data)" by (metis surj_pair)
  have "\<exists>x rs'. rs = x # rs' \<and> api_loop sha1 acl conns a = Done (rs', a') \<and>
      (\<not> fst (check_connect (o_api_allow (ap_opts a)) acl client) \<longrightarrow> snd x = None)"
  proof (cases "fst (check_connect (o_api_allow (ap_opts a)) acl client) \<and> data \<noteq> None")
    case False
    then show ?thesis using Cons(2) assms(2) by (cases data) (auto simp: conn run_bind_Done split: if_splits)
  next
    case True
    then obtain d r a1 rs' where d: "data = Some d" "api_request sha1 e (take SOCK_REC_BUFSZ d) a = Done (r, a1)"
      "api_loop sha1 acl conns a1 = Done (rs', a')" "rs = (True, r) # rs'"
      using Cons(2) assms(2) by (auto simp: conn run_bind_Done)
    with api_request_readonly [OF assms(1) d(2)] True show ?thesis by auto
  qed
  then obtain x rs' where rs: "rs = x # rs'" "api_loop sha1 acl conns a = Done (rs', a')"
    "\<not> fst (check_connect (o_api_allow (ap_opts a)) acl client) \<longrightarrow> snd x = None" by blast
  from Cons(1) [OF rs(2)] rs(1,3) show ?case by (auto simp: conn less_Suc_eq_0_disj)
qed simp

section \<open>The handshake\<close>

text \<open>RFC 4648: groups of three bytes are numbers of 24 bits, read as four digits of six bits.\<close>

fun base64 :: "u8 list \<Rightarrow> string" where
  "base64 (a # b # c # bs) =
    (let v = unat a * 65536 + unat b * 256 + unat c
     in [table64 ! (v div 262144), table64 ! (v div 4096 mod 64), table64 ! (v div 64 mod 64), table64 ! (v mod 64)] @ base64 bs)"
| "base64 [a, b] =
    (let v = unat a * 65536 + unat b * 256
     in [table64 ! (v div 262144), table64 ! (v div 4096 mod 64), table64 ! (v div 64 mod 64)] @ ''='')"
| "base64 [a] = (let v = unat a * 65536 in [table64 ! (v div 262144), table64 ! (v div 4096 mod 64)] @ ''=='')"
| "base64 [] = []"

lemma unat_and_low: "unat (x AND 0x3F :: u8) = unat x mod 64" "unat (x AND 0x0F :: u8) = unat x mod 16" "unat (x AND 3 :: u8) = unat x mod 4"
proof -
  have m: "(0x3F :: u8) = mask 6" "(0x0F :: u8) = mask 4" "(3 :: u8) = mask 2" by (simp_all add: mask_eq_exp_minus_1)
  show "unat (x AND 0x3F) = unat x mod 64" "unat (x AND 0x0F) = unat x mod 16" "unat (x AND 3) = unat x mod 4"
    unfolding m take_bit_eq_mask [symmetric] by (simp_all add: unsigned_take_bit_eq take_bit_eq_mod unat_mod)
qed

lemma unat_drop_u8: "unat (drop_bit n (x :: u8)) = unat x div 2 ^ n"
  by (simp add: unsigned_drop_bit_eq drop_bit_eq_div [where 'a = nat]
      take_bit_eq_mod [where 'a = nat] mod_less [OF unat_u8_less])

lemma drop_high: "drop_bit 2 (x AND 0xFC :: u8) = drop_bit 2 x" "drop_bit 4 (x AND 0xF0 :: u8) = drop_bit 4 x" "drop_bit 6 (x AND 0xC0 :: u8) = drop_bit 6 x"
proof -
  have "unat (drop_bit 2 (x AND 0xFC)) = unat (drop_bit 2 x AND 0x3F)" "unat (drop_bit 4 (x AND 0xF0)) = unat (drop_bit 4 x AND 0x0F)"
    "unat (drop_bit 6 (x AND 0xC0)) = unat (drop_bit 6 x AND 3)" by simp_all
  moreover have "unat x div 2 ^ 2 < 64" "unat x div 2 ^ 4 < 16" "unat x div 2 ^ 6 < 4" using unat_u8_less [of x] by simp_all
  ultimately have "unat (drop_bit 2 (x AND 0xFC)) = unat (drop_bit 2 x)" "unat (drop_bit 4 (x AND 0xF0)) = unat (drop_bit 4 x)"
    "unat (drop_bit 6 (x AND 0xC0)) = unat (drop_bit 6 x)" by (simp_all only: unat_and_low unat_drop_u8 mod_less)
  then show "drop_bit 2 (x AND 0xFC) = drop_bit 2 x" "drop_bit 4 (x AND 0xF0) = drop_bit 4 x" "drop_bit 6 (x AND 0xC0) = drop_bit 6 x"
    by (simp_all only: word_unat_eq_iff)
qed

lemma or_push:
  fixes x y :: u8
  assumes "unat y < 2 ^ n" "unat x * 2 ^ n < 256"
  shows "unat (push_bit n x OR y) = unat x * 2 ^ n + unat y"
proof -
  have "take_bit n y = y" using assms(1) by (simp add: word_unat_eq_iff unsigned_take_bit_eq take_bit_nat_eq_self)
  then have "\<not> bit (push_bit n x) i \<or> \<not> bit y i" for i by (metis bit_push_bit_iff bit_take_bit_iff linorder_not_less)
  then have "push_bit n x OR y = push_bit n x + y" by (intro disjunctive_add [symmetric]) blast
  moreover have p: "unat (push_bit n x) = unat x * 2 ^ n" 
  proof -
    have "push_bit n x = word_of_nat (unat x * 2 ^ n)" by (simp add: push_bit_eq_mult)
    then show ?thesis using assms(2) by (simp only: unsigned_of_nat) (simp add: take_bit_nat_eq_self)
  qed
  moreover have "unat x * 2 ^ n + unat y < 256"
  proof -
    have "n < 8 \<or> unat x = 0"
    proof (rule ccontr)
      assume "\<not> (n < 8 \<or> unat x = 0)"
      then have "(2 :: nat) ^ 8 \<le> 2 ^ n" "1 \<le> unat x" using power_increasing [of 8 n "2 :: nat"] by auto
      then have "1 * 2 ^ 8 \<le> unat x * 2 ^ n" by (intro mult_le_mono)
      with assms(2) show False by simp
    qed
    moreover have "unat y < 256" by (simp add: word_bounds)
    moreover have ?thesis if "n < 8"
    proof -
      have "(256 :: nat) = 2 ^ (8 - n) * 2 ^ n" using that by (simp flip: power_add)
      then have "unat x < 2 ^ (8 - n)" using assms(2) by (metis mult_less_cancel2)
      then have "(unat x + 1) * 2 ^ n \<le> 2 ^ (8 - n) * 2 ^ n" by (intro mult_le_mono1) simp
      with assms(1) \<open>(256 :: nat) = 2 ^ (8 - n) * 2 ^ n\<close> show ?thesis by simp
    qed
    ultimately show ?thesis by auto
  qed
  ultimately show ?thesis by (simp add: unat_word_ariths)
qed

lemma sextets:
  fixes a b c :: u8
  shows "unat (drop_bit 2 (a AND 0xFC)) = unat a div 4"
    "unat (push_bit 4 (a AND 3) OR drop_bit 4 (b AND 0xF0)) = unat a mod 4 * 16 + unat b div 16"
    "unat (push_bit 2 (b AND 0x0F) OR drop_bit 6 (c AND 0xC0)) = unat b mod 16 * 4 + unat c div 64"
    "unat (c AND 0x3F) = unat c mod 64"
proof -
  have l: "unat b div 16 < 16" "unat c div 64 < 4" using unat_u8_less [of b] unat_u8_less [of c] by simp_all
  show "unat (drop_bit 2 (a AND 0xFC)) = unat a div 4" by (simp only: drop_high unat_drop_u8) simp
  have "unat (push_bit 4 (a AND 3) OR drop_bit 4 b) = unat (a AND 3) * 2 ^ 4 + unat (drop_bit 4 b)"
    using l(1) by (intro or_push) (simp_all add: unat_drop_u8 unat_and_low, presburger?)
  then show "unat (push_bit 4 (a AND 3) OR drop_bit 4 (b AND 0xF0)) = unat a mod 4 * 16 + unat b div 16"
    by (simp only: drop_high unat_drop_u8 unat_and_low) simp
  have "unat (push_bit 2 (b AND 0x0F) OR drop_bit 6 c) = unat (b AND 0x0F) * 2 ^ 2 + unat (drop_bit 6 c)"
    using l(2) by (intro or_push) (simp_all add: unat_drop_u8 unat_and_low, presburger?)
  then show "unat (push_bit 2 (b AND 0x0F) OR drop_bit 6 (c AND 0xC0)) = unat b mod 16 * 4 + unat c div 64"
    by (simp only: drop_high unat_drop_u8 unat_and_low) simp
  show "unat (c AND 0x3F) = unat c mod 64" by (rule unat_and_low(1))
qed

lemma group_digits:
  fixes a b c :: nat
  assumes "a < 256" "b < 256" "c < 256"
  defines "v \<equiv> a * 65536 + b * 256 + c"
  shows "v div 262144 = a div 4" "v div 4096 mod 64 = a mod 4 * 16 + b div 16" "v div 64 mod 64 = b mod 16 * 4 + c div 64"
    "v mod 64 = c mod 64"
proof -
  define a1 a0 b1 b0 c1 c0 where "a1 = a div 4" "a0 = a mod 4" "b1 = b div 16" "b0 = b mod 16" "c1 = c div 64" "c0 = c mod 64"
  note d = this
  have r: "a = 4 * a1 + a0" "b = 16 * b1 + b0" "c = 64 * c1 + c0" by (simp_all add: d)
  have l: "a0 < 4" "b1 < 16" "b0 < 16" "c1 < 4" "c0 < 64" using assms(1-3) by (simp_all add: d)
  define w3 w2 w1 where "w3 = a1" "w2 = w3 * 64 + (a0 * 16 + b1)" "w1 = w2 * 64 + (b0 * 4 + c1)"
  note w = this
  have v: "v = w1 * 64 + c0" by (simp add: v_def r w)
  have v1: "v div 64 = w1" "v mod 64 = c0" using l(5) by (simp_all add: v)
  have v2: "w1 div 64 = w2" "w1 mod 64 = b0 * 4 + c1" using l(3,4) by (simp_all add: w(3))
  have v3: "w2 div 64 = a1" "w2 mod 64 = a0 * 16 + b1" using l(1,2) by (simp_all add: w(1,2))
  have d4096: "v div 4096 = w2" using v1(1) v2(1) div_mult2_eq [of v 64 64] by simp
  have d262144: "v div 262144 = a1" using d4096 v3(1) div_mult2_eq [of v 4096 64] by simp
  show "v div 262144 = a div 4" "v mod 64 = c mod 64" "v div 4096 mod 64 = a mod 4 * 16 + b div 16" "v div 64 mod 64 = b mod 16 * 4 + c div 64"
    by (simp_all only: d262144 d4096 v1 v2 v3 d)
qed

lemma base64_quad_group:
  "base64_quad [a, b, c] = base64 [a, b, c]" "base64_quad [a, b] = base64 [a, b]" "base64_quad [a] = base64 [a]"
proof -
  have g: "unat x < 256" for x :: u8 by (rule unat_u8_less)
  note g3 = group_digits [OF g g g] and g2 = group_digits [OF g g zero_less_numeral, unfolded add_0_right]
    and g1 = group_digits [OF g zero_less_numeral zero_less_numeral, unfolded add_0_right mult_zero_left]
  show "base64_quad [a, b, c] = base64 [a, b, c]"
    by (simp only: base64_quad.simps base64.simps Let_def list.case sextets g3 append_Nil2)
  show "base64_quad [a, b] = base64 [a, b]"
    by (simp only: base64_quad.simps base64.simps Let_def list.case sextets g2 append_Nil2 unsigned_0)
  show "base64_quad [a] = base64 [a]"
    by (simp only: base64_quad.simps base64.simps Let_def list.case sextets g1 append_Nil2 unsigned_0)
qed

lemma length_base64: "length (base64 bs) = 4 * ((length bs + 2) div 3)"
proof (induction bs rule: base64.induct)
  case (1 a b c bs)
  have "(length (a # b # c # bs) + 2) div 3 = Suc ((length bs + 2) div 3)" using div_add_self1 [of 3 "length bs + 2"] by simp
  then show ?case using 1 [OF refl] by (simp add: Let_def)
qed (simp_all add: Let_def)

lemma base64_loop_spec:
  "len + length (base64 bs) \<le> outlen \<Longrightarrow> base64_loop outlen len bs = (base64 bs, len + length (base64 bs))"
proof (induction bs arbitrary: len rule: base64.induct)
  case (1 a b c bs)
  have "base64 (a # b # c # bs) = base64 [a, b, c] @ base64 bs" "length (base64 [a, b, c]) = 4" by (simp_all add: Let_def)
  moreover have "take 3 (a # b # c # bs) = [a, b, c]" by simp
  ultimately show ?case using 1(1) [OF refl, of "len + 4"] 1(2) unfolding base64_loop.simps Let_def
    by (simp del: base64.simps base64_quad.simps add: base64_quad_group)
next
  case (2 a b)
  have "length (base64 [a, b]) = 4" by (simp add: Let_def)
  then show ?case using 2 by (simp del: base64.simps base64_quad.simps add: base64_quad_group)
next
  case (3 a)
  have "length (base64 [a]) = 4" by (simp add: Let_def)
  then show ?case using 3 by (simp del: base64.simps base64_quad.simps add: base64_quad_group)
qed simp

lemma base64_padded: "length bs mod 3 = 2 \<Longrightarrow> last (base64 bs) = CHR ''=''"
proof (induction bs rule: base64.induct)
  case (1 a b c bs)
  then have m: "length bs mod 3 = 2" by (simp add: mod_Suc split: if_splits)
  then have "bs \<noteq> []" by auto
  then have "base64 bs \<noteq> []" using length_base64 [of bs] by (cases bs) auto
  then show ?case using 1(1) [OF refl m] by (simp add: Let_def)
qed (simp_all add: Let_def)

text \<open>C31: for the 20 bytes of a SHA-1 value \<open>base64_encode\<close> gives their RFC 4648 encoding, as the handshake of a WebSocket needs
  it. It is not an encoder for other sizes: whenever the text fits, its last character is lost, unless it has 28
  characters, when it becomes a padding character.\<close>

theorem base64_encode_digest:
  assumes "length (base64 bs) \<le> outlen"
  shows "base64_encode bs outlen =
    (if length bs = 20 then base64 bs else if length (base64 bs) = 28 then butlast (base64 bs) @ ''='' else butlast (base64 bs))"
proof -
  have e: "base64_encode bs outlen = (let s = butlast (base64 bs) in if length s = 27 then s @ ''='' else s)"
    using assms by (simp add: base64_encode_def base64_loop_spec [of 0] butlast_conv_take)
  have d: "base64 bs = butlast (base64 bs) @ ''=''" "length (base64 bs) = 28" if "length bs = 20"
  proof -
    show "length (base64 bs) = 28" using that by (simp add: length_base64)
    then show "base64 bs = butlast (base64 bs) @ ''=''"
      using base64_padded [of bs] that append_butlast_last_id [of "base64 bs"] by fastforce
  qed
  show ?thesis
  proof (cases "length bs = 20")
    case True
    with d show ?thesis unfolding e Let_def by auto
  qed (auto simp: e Let_def)
qed

theorem base64_encode_digest_witness:
  "base64_encode (replicate 20 255) 64 = base64 (replicate 20 255)"
proof -
  have "length (base64 (replicate 20 255)) \<le> 64" by (simp add: length_base64)
  from base64_encode_digest [OF this] show ?thesis by simp
qed

text \<open>RFC 6455: the length of a frame from its header.\<close>

definition ws_length :: "u8 list \<Rightarrow> nat" where
  "ws_length frame = (let n = unat (frame ! 1) mod 128 in
     if n \<le> 125 then n else if n = 126 then be_val (take 2 (drop 2 frame)) else be_val (take 8 (drop 2 frame)))"

lemma be_val_shifts: "be_val (map (\<lambda>k. ucast (drop_bit (8 * k) (n :: u64))) (rev [0..<m])) = unat n mod 256 ^ m"
proof (induction m)
  case (Suc m)
  let ?f = "\<lambda>k. ucast (drop_bit (8 * k) n) :: u8"
  have "map ?f (rev [0..<Suc m]) = [?f m] @ map ?f (rev [0..<m])" by simp
  then have "be_val (map ?f (rev [0..<Suc m])) = be_val [?f m] * 256 ^ m + unat n mod 256 ^ m"
    using Suc by (simp only: be_val_append length_map length_rev length_upt diff_zero)
  also have "be_val [?f m] = unat n div 256 ^ m mod 256"
  proof -
    have "be_val [?f m] = unat (?f m)" by (simp add: be_val_def)
    also have "\<dots> = unat n div 2 ^ (8 * m) mod 256" by (simp only: unat_ucast_u64_u8 unat_drop_bit_u64)
    also have "(2 :: nat) ^ (8 * m) = 256 ^ m" by (simp add: power_mult)
    finally show ?thesis .
  qed
  also have "unat n div 256 ^ m mod 256 * 256 ^ m + unat n mod 256 ^ m = unat n mod (256 ^ m * 256)"
    by (subst mod_mult2_eq) (simp only: mult.commute)
  finally show ?case by (simp add: mult.commute)
qed simp

text \<open>The frame header of a reply is the one of an unmasked final text frame, and its length field, in the shortest of
  its three forms, reads back as the length of the reply.\<close>

theorem ws_header_length:
  "ws_length (ws_header n @ payload) = unat n \<and> ws_header n ! 0 = 129 \<and>
    length (ws_header n) = (if unat n < 126 then 2 else if unat n < 65536 then 4 else 10)"
proof -
  have le: "n \<le> 125 \<longleftrightarrow> unat n < 126" "n \<le> 65535 \<longleftrightarrow> unat n < 65536" by (auto simp: word_le_nat_alt)
  have b0: "unat (ucast n :: u8) = unat n mod 256" by (rule unat_ucast_u64_u8)
  consider "unat n < 126" | "126 \<le> unat n" "unat n < 65536" | "65536 \<le> unat n" by linarith
  then show ?thesis
  proof cases
    case 1
    then show ?thesis by (simp add: ws_header_def le ws_length_def b0)
  next
    case 2
    have "be_val [ucast (drop_bit 8 n), ucast n] = unat n" using 2(2) be_val_shifts [of n 2] by (simp add: upt_rec)
    then show ?thesis using 2 by (simp add: ws_header_def le ws_length_def)
  next
    case 3
    let ?bs = "[ucast (drop_bit 56 n), ucast (drop_bit 48 n), ucast (drop_bit 40 n), ucast (drop_bit 32 n), ucast (drop_bit 24 n),
        ucast (drop_bit 16 n), ucast (drop_bit 8 n), ucast n] :: u8 list"
    have "be_val ?bs = unat n" using be_val_shifts [of n 8] unat_u64_less [of n] by (simp add: upt_rec)
    then show ?thesis using 3 by (simp add: ws_header_def le ws_length_def)
  qed
qed

section \<open>Changing the pool\<close>

lemma parse_url_plain:
  assumes "scheme \<in> {''http://'', ''https://'', ''stratum+tcp://''}" "nul_free host" "CHR ''@'' \<notin> set host"
  shows "parse_url (scheme @ host) ol = Done (set_url (scheme @ host) host ol, scheme @ host)"
proof -
  let ?mem = "(scheme @ host) @ [CHR 0x00]"
  have ap: "(case strstr (scheme @ host) ''://'' of Some r \<Rightarrow> length (scheme @ host) - length r + 3 | None \<Rightarrow> 0) = length scheme"
    using assms(1) by auto
  have s: "scheme \<noteq> []" "known_protocol (scheme @ host)" "nul_free scheme" "CHR ''@'' \<notin> set scheme"
    using assms(1) by (auto simp: nul_free_def known_protocol_def strncasecmp_eq_def)
  have at: "strrchr (scheme @ host) CHR ''@'' = None"
  proof (cases "strrchr (scheme @ host) CHR ''@''")
    case (Some r)
    then obtain u t where "scheme @ host = u @ CHR ''@'' # t" by (auto simp: strrchr_eq)
    then have "CHR ''@'' \<in> set (scheme @ host)" by simp
    with assms(3) s(4) show ?thesis by simp
  qed
  have nf: "nul_free (scheme @ host)" using assms(2) s(3) by (simp add: nul_free_def)
  have c: "cstr ?mem = scheme @ host" unfolding cstr_append [OF nf] by simp
  have h: "cstr_at ?mem (length scheme) = host" using cstr_append [OF assms(2), of "[CHR 0x00]"] by (simp add: cstr_at_def)
  have ne: "length scheme \<noteq> 0" "\<not> length host > length (scheme @ host) - length scheme" using s(1) by simp_all
  show ?thesis
    unfolding parse_url_def Let_def ap at option.case run_bind.simps prod.case c h
    using ne s(2) by (simp only: if_True if_False simp_thms) (simp add: butlast_append)
qed

text \<open>C30: the command \<^verbatim>\<open>seturl\<close> with a stratum address, allowed by the option for remote control, takes effect at the next
  round of the stratum thread: the thread drops its connection and goes on with the new address, which is also the
  one that the options now hold.\<close>

theorem seturl_takes_effect:
  assumes "o_api_remote (ap_opts a)" and "\<not> o_benchmark (ap_opts a)" and "nul_free host" and "CHR ''@'' \<notin> set host"
  shows "\<exists>a'. run_command C_seturl e (Some (''stratum+tcp://'' @ host)) a = Done (''ok|'', a') \<and>
    o_rpc_url (ap_opts a') = Some (''stratum+tcp://'' @ host) \<and> m_have_stratum (ap_miner a') \<and>
    (let m = stratum_reset (main_config bench (ap_opts a')) (ap_miner a')
     in s_url (m_sctx m) = Some (''stratum+tcp://'' @ host) \<and> \<not> s_curl (m_sctx m) \<and> \<not> m_need_reset m)"
proof -
  let ?url = "''stratum+tcp://'' @ host"
  let ?a = "a\<lparr>ap_opts := set_url ?url host (ap_opts a),
    ap_miner := (ap_miner a)\<lparr>m_have_stratum := o_have_stratum (set_url ?url host (ap_opts a)), m_need_reset := True\<rparr>\<rparr>"
  have "parse_url ?url (ap_opts a) = Done (set_url ?url host (ap_opts a), ?url)"
    using assms(3,4) by (intro parse_url_plain) simp_all
  then have "run_command C_seturl e (Some ?url) a = Done (''ok|'', ?a)"
    using assms(1) by (simp add: remote_seturl_def)
  moreover have "o_have_stratum (set_url ?url host (ap_opts a))" using assms(2) by (simp add: set_url_def strncasecmp_eq_def)
  moreover have "cf_rpc_url (main_config bench (set_url ?url host (ap_opts a))) = ?url" by (simp add: main_config_def set_url_def)
  ultimately show ?thesis
    by (intro exI [of _ ?a]) (simp add: Let_def stratum_reset_def stratum_disconnect_def set_url_def set_sctx_def)
qed

definition sample_api :: api where
  "sample_api = \<lparr>ap_opts = sample_opts\<lparr>o_api_remote := True\<rparr>, ap_miner = main_miner io0 sample_opts, ap_bye = False\<rparr>"

definition sample_api_env :: api_env where
  "sample_api_env = \<lparr>ae_now = 60, ae_startup = 0, ae_temp = dbl_zero, ae_fan = 0, ae_clock = 0\<rparr>"

theorem seturl_takes_effect_witness:
  "\<exists>a'. run_command C_seturl sample_api_env (Some ''stratum+tcp://b:2'') sample_api = Done (''ok|'', a') \<and>
    o_rpc_url (ap_opts a') = Some ''stratum+tcp://b:2''"
proof -
  have o: "o_api_remote (ap_opts sample_api)" "\<not> o_benchmark (ap_opts sample_api)"
    by (simp_all add: sample_api_def sample_opts_def set_url_def opts_default_def)
  have h: "nul_free ''b:2''" "CHR ''@'' \<notin> set ''b:2''" by (simp_all add: nul_free_def)
  from seturl_takes_effect [OF o h, of sample_api_env JNull] show ?thesis by auto
qed

theorem api_readonly_witness:
  "api_loop (\<lambda>_. []) [] [(1, sample_api_env, Some ''quit'')] (sample_api\<lparr>ap_opts := sample_opts\<rparr>) = Done ([(False, None)], sample_api\<lparr>ap_opts := sample_opts\<rparr>)
    \<and> snd ([(False, None :: u8 list option)] ! 0) = None"
proof -
  have o: "\<not> o_api_remote (ap_opts (sample_api\<lparr>ap_opts := sample_opts\<rparr>))" "\<not> ap_bye (sample_api\<lparr>ap_opts := sample_opts\<rparr>)"
    by (simp_all add: sample_api_def sample_opts_def set_url_def opts_default_def)
  have c: "fst (check_connect (o_api_allow sample_opts) [] 1) = False" by (simp add: check_connect_def)
  have run: "api_loop (\<lambda>_. []) [] [(1, sample_api_env, Some ''quit'')] (sample_api\<lparr>ap_opts := sample_opts\<rparr>) =
      Done ([(False, None)], sample_api\<lparr>ap_opts := sample_opts\<rparr>)"
    using c by (simp add: sample_api_def)
  from api_readonly [OF o run] c run show ?thesis by simp
qed

section \<open>The list of addresses\<close>

lemma dec_nat_plain:
  obtains d ds where "dec_nat n = d # ds" "isdigit d" "\<not> isspace d" "d \<noteq> CHR ''-''" "d \<noteq> CHR ''+''" "\<not> isalpha d" "\<not> isblank d" "d \<noteq> CHR '',''"
proof -
  obtain d ds where d: "dec_nat n = d # ds" using dec_nat_nonempty by (cases "dec_nat n") auto
  have "isdigit d" by (rule dec_nat_digits [of _ n]) (simp add: d)
  then have "48 \<le> code d" "code d \<le> 57" by (simp_all add: isdigit_def)
  moreover have "code CHR ''-'' = 45" "code CHR ''+'' = 43" "code CHR '' '' = 32" "code CHR '','' = 44" by (simp_all add: code_def)
  ultimately have "\<not> isspace d" "d \<noteq> CHR ''-''" "d \<noteq> CHR ''+''" "\<not> isalpha d" "\<not> isblank d" "d \<noteq> CHR '',''"
    by (auto simp: isspace_def isalpha_def isblank_def)
  with d \<open>isdigit d\<close> that show ?thesis by blast
qed

lemma atoi_dec_nat:
  assumes "n < 2147483648" shows "atoi (dec_nat n) = int n"
proof -
  have "fst (strtol 10 (dec_nat n)) = int n" using assms by (simp add: strtol_def strto_int_dec_nat)
  then have "atoi (dec_nat n) = signed_take_bit 31 (int n)" by (simp only: atoi_def signed_of_int) simp
  also have "\<dots> = int n" using assms by (intro signed_take_bit_int_eq_self) simp_all
  finally show ?thesis .
qed

definition dotted :: "nat \<times> nat \<times> nat \<times> nat \<Rightarrow> string" where
  "dotted q = (case q of (a, b, c, d) \<Rightarrow> dec_nat a @ ''.'' @ dec_nat b @ ''.'' @ dec_nat c @ ''.'' @ dec_nat d)"

definition quad_addr :: "nat \<times> nat \<times> nat \<times> nat \<Rightarrow> u32" where
  "quad_addr q = (case q of (a, b, c, d) \<Rightarrow> word_of_nat (((a * 256 + b) * 256 + c) * 256 + d))"

definition quad_ok :: "nat \<times> nat \<times> nat \<times> nat \<Rightarrow> bool" where
  "quad_ok q \<longleftrightarrow> (case q of (a, b, c, d) \<Rightarrow> a < 256 \<and> b < 256 \<and> c < 256 \<and> d < 256)"

lemma octet_or:
  assumes "b < 256" "k' = k + 8"
  shows "(word_of_nat (x * 2 ^ k') :: u32) OR push_bit k (word_of_int (int b)) = word_of_nat ((x * 256 + b) * 2 ^ k)"
proof -
  let ?y = "word_of_nat b :: u32"
  have y: "take_bit 8 ?y = ?y" using assms(1) by (simp add: word_unat_eq_iff unsigned_take_bit_eq unsigned_of_nat take_bit_nat_eq_self)
  have hi: "(word_of_nat (x * 2 ^ k') :: u32) = push_bit (k + 8) (word_of_nat x)" by (simp add: assms(2) push_bit_eq_mult)
  have "\<not> bit (push_bit (k + 8) (word_of_nat x :: u32)) i \<or> \<not> bit (push_bit k ?y) i" for i
  proof -
    have "bit ?y (i - k) \<Longrightarrow> i - k < 8" by (metis y bit_take_bit_iff)
    then show ?thesis by (auto simp: bit_push_bit_iff)
  qed
  then have "push_bit (k + 8) (word_of_nat x :: u32) OR push_bit k ?y = push_bit (k + 8) (word_of_nat x) + push_bit k ?y"
    by (intro disjunctive_add [symmetric]) blast
  also have "\<dots> = word_of_nat ((x * 256 + b) * 2 ^ k)" by (simp add: push_bit_eq_mult power_add algebra_simps)
  finally show ?thesis by (simp only: hi of_int_of_nat_eq)
qed

lemma dec_nat_chars: "CHR ''.'' \<notin> set (dec_nat n)" "CHR '','' \<notin> set (dec_nat n)" "CHR ''/'' \<notin> set (dec_nat n)"
  by (auto dest!: dec_nat_digits simp: isdigit_def code_def)

lemma ip_octets_dot:
  assumes "n < 256"
  shows "ip_octets (Suc k) i (dec_nat n @ CHR ''.'' # rest) ip = ip_octets k (i + 1) rest (ip OR push_bit (24 - i * 8) (word_of_int (int n)))"
    "ip_octets (Suc k) i (dec_nat n) ip = Some (ip OR push_bit (24 - i * 8) (word_of_int (int n)))"
proof -
  have t: "takeWhile (\<lambda>ch. ch \<noteq> CHR ''.'') (dec_nat n @ CHR ''.'' # rest) = dec_nat n"
    "takeWhile (\<lambda>ch. ch \<noteq> CHR ''.'') (dec_nat n) = dec_nat n"
    using dec_nat_chars(1) [of n] by (auto simp: takeWhile_append takeWhile_eq_all_conv)
  have a: "atoi (dec_nat n) = int n" using assms by (intro atoi_dec_nat) simp
  show "ip_octets (Suc k) i (dec_nat n @ CHR ''.'' # rest) ip = ip_octets k (i + 1) rest (ip OR push_bit (24 - i * 8) (word_of_int (int n)))"
    "ip_octets (Suc k) i (dec_nat n) ip = Some (ip OR push_bit (24 - i * 8) (word_of_int (int n)))"
    using assms by (simp_all add: Let_def t a)
qed

lemma ip_octets_quad:
  assumes "quad_ok q" shows "ip_octets 4 0 (dotted q) 0 = Some (quad_addr q)"
proof -
  obtain a b c d where q: "q = (a, b, c, d)" by (metis surj_pair)
  have l: "a < 256" "b < 256" "c < 256" "d < 256" using assms by (simp_all add: q quad_ok_def)
  have "(0 :: u32) OR push_bit 24 (word_of_int (int a)) = word_of_nat (a * 2 ^ 24)"
    using octet_or [OF l(1), of 32 24 0] by simp
  moreover have "(word_of_nat (a * 2 ^ 24) :: u32) OR push_bit 16 (word_of_int (int b)) = word_of_nat ((a * 256 + b) * 2 ^ 16)"
    by (rule octet_or [OF l(2)]) simp
  moreover have "(word_of_nat ((a * 256 + b) * 2 ^ 16) :: u32) OR push_bit 8 (word_of_int (int c)) = word_of_nat (((a * 256 + b) * 256 + c) * 2 ^ 8)"
    by (rule octet_or [OF l(3)]) simp
  moreover have "(word_of_nat (((a * 256 + b) * 256 + c) * 2 ^ 8) :: u32) OR push_bit 0 (word_of_int (int d)) = quad_addr q"
  proof -
    have "quad_addr q = word_of_nat ((((a * 256 + b) * 256 + c) * 256 + d) * 2 ^ 0)" by (simp add: q quad_addr_def)
    then show ?thesis by (simp only:) (rule octet_or [OF l(4)], simp)
  qed
  moreover have "dotted q = dec_nat a @ CHR ''.'' # dec_nat b @ CHR ''.'' # dec_nat c @ CHR ''.'' # dec_nat d" by (simp add: q dotted_def)
  moreover have "(4 :: nat) = Suc (Suc (Suc (Suc 0)))" by simp
  ultimately show ?thesis
    by (simp only: ip_octets_dot l) simp
qed

fun join_comma :: "string list \<Rightarrow> string" where
  "join_comma [] = []"
| "join_comma [s] = s"
| "join_comma (s # t # ss) = s @ '','' @ join_comma (t # ss)"

lemma dotted_head:
  obtains d ds where "dotted q = d # ds" "\<not> isalpha d" "\<not> isblank d" "d \<noteq> CHR '',''"
proof -
  obtain a b c e where q: "q = (a, b, c, e)" by (metis surj_pair)
  obtain d ds where "dec_nat a = d # ds" "\<not> isalpha d" "\<not> isblank d" "d \<noteq> CHR '',''" by (rule dec_nat_plain [of a])
  then show ?thesis using that by (simp add: q dotted_def)
qed

lemma dotted_chars: "CHR '','' \<notin> set (dotted q)" "CHR ''/'' \<notin> set (dotted q)"
  using dec_nat_chars by (auto simp: dotted_def split: prod.split)

lemma strchr_None: "ch \<notin> set s \<Longrightarrow> strchr s ch = None"
  by (induction s) auto

text \<open>An address is read as itself; one with a prefix length runs into the undefined shift.\<close>

lemma no_group:
  assumes "s = g # t" "\<not> isalpha g"
  shows "(case s of g # sep # t \<Rightarrow> if isalpha g \<and> sep = CHR '':'' then (if toupper g = PRIVGROUP then PRIVGROUP else NOPRIVGROUP, t)
            else (NOPRIVGROUP, s) | _ \<Rightarrow> (NOPRIVGROUP, s)) = (NOPRIVGROUP, s)"
  using assms by (cases t) simp_all

lemma ip_entry_dotted:
  assumes "quad_ok q"
  shows "\<exists>entry. ip_entry (dotted q) = Some (Some entry) \<and>
    (\<forall>ip. ip AND ia_mask entry = ia_ip entry \<longleftrightarrow> dotted q = ''0.0.0.0'' \<or> ip = quad_addr q)"
proof -
  obtain d ds where d: "dotted q = d # ds" "\<not> isalpha d" by (rule dotted_head)
  have grp: "(case dotted q of g # sep # t \<Rightarrow> if isalpha g \<and> sep = CHR '':'' then (if toupper g = PRIVGROUP then PRIVGROUP else NOPRIVGROUP, t)
            else (NOPRIVGROUP, dotted q) | _ \<Rightarrow> (NOPRIVGROUP, dotted q)) = (NOPRIVGROUP, dotted q)"
    by (rule no_group [OF d])
  have sl: "strchr (dotted q) CHR ''/'' = None" using dotted_chars(2) by (rule strchr_None)
  have m: "w AND 0xffffffff = w" for w :: u32
  proof -
    have "(0xffffffff :: u32) = mask 32" by (simp add: mask_eq_exp_minus_1)
    then show ?thesis by (simp only: flip: take_bit_eq_mask) (rule take_bit_word_eq_self, simp)
  qed
  show ?thesis
  proof (cases "dotted q = ''0.0.0.0''")
    case True
    then show ?thesis by (auto simp: ip_entry_def True grp [unfolded True] isalpha_def code_def)
  next
    case False
    have "ip_entry (dotted q) = Some (Some \<lparr>ia_ip = quad_addr q AND 0xffffffff, ia_mask = 0xffffffff, ia_group = NOPRIVGROUP\<rparr>)"
      unfolding ip_entry_def grp Let_def prod.case sl option.case ip_octets_quad [OF assms] using False by (simp only: if_False)
    then show ?thesis using False by (simp only: m) (simp add: m)
  qed
qed

lemma mask_loop_undefined: "0 \<le> m \<Longrightarrow> mask_loop m acc = None"
proof (induction "nat m" arbitrary: m acc)
  case 0
  then show ?case by (subst mask_loop.simps) (simp add: mask_pass_def signed_modulo_int_def)
next
  case (Suc n)
  then have "nat (m - 1) = n" "0 \<le> m - 1" by simp_all
  with Suc show ?case by (subst mask_loop.simps) (simp split: option.split)
qed

lemma ip_entry_prefix:
  assumes "quad_ok q" "1 \<le> n" "n \<le> 32"
  shows "ip_entry (dotted q @ ''/'' @ dec_nat n) = None"
proof -
  let ?s = "dotted q @ ''/'' @ dec_nat n"
  obtain d ds where d: "dotted q = d # ds" "\<not> isalpha d" by (rule dotted_head)
  have grp: "(case ?s of g # sep # t \<Rightarrow> if isalpha g \<and> sep = CHR '':'' then (if toupper g = PRIVGROUP then PRIVGROUP else NOPRIVGROUP, t)
            else (NOPRIVGROUP, ?s) | _ \<Rightarrow> (NOPRIVGROUP, ?s)) = (NOPRIVGROUP, ?s)"
    by (rule no_group [OF _ d(2), of _ "ds @ ''/'' @ dec_nat n"]) (simp add: d(1))
  have sl: "strchr ?s CHR ''/'' = Some (''/'' @ dec_nat n)" using dotted_chars(2) [of q] by (auto simp: strchr_eq)
  have ne: "?s \<noteq> ''0.0.0.0''"
  proof
    assume "?s = ''0.0.0.0''"
    then have "CHR ''/'' \<in> set ''0.0.0.0''" by (metis in_set_conv_decomp append_Cons append_Nil)
    then show False by simp
  qed
  have a: "atoi (drop 1 (''/'' @ dec_nat n)) = int n" using assms by (simp add: atoi_dec_nat)
  have "\<not> (int n < 1 \<or> int n > 32)" using assms by simp
  then show ?thesis
    unfolding ip_entry_def grp Let_def prod.case sl option.case a using ne by (simp only: if_False mask_loop_undefined of_nat_0_le_iff option.case)
qed

lemma ip_list_entry:
  assumes "tok = d # ds" "\<not> isblank d" "d \<noteq> CHR '',''" "CHR '','' \<notin> set tok"
  shows "ip_list (tok @ '','' @ rest) = (case ip_entry tok of None \<Rightarrow> None
      | Some entry \<Rightarrow> map_option (\<lambda>xs. case entry of None \<Rightarrow> xs | Some a \<Rightarrow> a # xs) (ip_list rest))"
    "ip_list tok = (case ip_entry tok of None \<Rightarrow> None
      | Some entry \<Rightarrow> map_option (\<lambda>xs. case entry of None \<Rightarrow> xs | Some a \<Rightarrow> a # xs) (ip_list []))"
proof -
  have t: "takeWhile (\<lambda>ch. ch \<noteq> CHR '','') (tok @ '','' @ rest) = tok" "takeWhile (\<lambda>ch. ch \<noteq> CHR '','') tok = tok"
    using assms(4) by (auto simp: takeWhile_append takeWhile_eq_all_conv)
  have b: "dropWhile isblank (tok @ r) = tok @ r" for r using assms(1,2) by simp
  have n: "tok @ r \<noteq> []" "\<not> hd (tok @ r) = CHR '',''" for r using assms(1,3) by simp_all
  have r: "drop (length tok + 1) (tok @ '','' @ rest) = rest" "drop (length tok + 1) tok = []" by simp_all
  show "ip_list (tok @ '','' @ rest) = (case ip_entry tok of None \<Rightarrow> None
      | Some entry \<Rightarrow> map_option (\<lambda>xs. case entry of None \<Rightarrow> xs | Some a \<Rightarrow> a # xs) (ip_list rest))"
    by (subst ip_list.simps) (simp only: Let_def b n t r if_False simp_thms)
  show "ip_list tok = (case ip_entry tok of None \<Rightarrow> None
      | Some entry \<Rightarrow> map_option (\<lambda>xs. case entry of None \<Rightarrow> xs | Some a \<Rightarrow> a # xs) (ip_list []))"
    using b [of "[]"] n [of "[]"] by (subst ip_list.simps) (simp only: append_Nil2 Let_def t r if_False simp_thms)
qed

text \<open>C28: with a list of plain addresses exactly these may connect to the monitoring interface, except that the entry
  0.0.0.0 lets every address in.\<close>

theorem ipaccess_exact:
  assumes "\<forall>q \<in> set qs. quad_ok q"
  shows "\<exists>acl. setup_ipaccess (join_comma (map dotted qs)) = Some acl \<and>
    (\<forall>ip. fst (check_connect (Some (join_comma (map dotted qs))) acl ip) \<longleftrightarrow> (\<exists>q \<in> set qs. dotted q = ''0.0.0.0'' \<or> ip = quad_addr q))"
proof -
  have "\<exists>acl. ip_list (join_comma (map dotted qs)) = Some acl \<and>
      (\<forall>ip. (\<exists>a \<in> set acl. ip AND ia_mask a = ia_ip a) \<longleftrightarrow> (\<exists>q \<in> set qs. dotted q = ''0.0.0.0'' \<or> ip = quad_addr q))"
    using assms
  proof (induction qs)
    case Nil
    show ?case by (subst ip_list.simps) simp
  next
    case (Cons q qs)
    obtain d ds where d: "dotted q = d # ds" "\<not> isblank d" "d \<noteq> CHR '',''" by (rule dotted_head)
    note step = ip_list_entry [OF d dotted_chars(1)]
    obtain entry where e: "ip_entry (dotted q) = Some (Some entry)"
      "\<forall>ip. ip AND ia_mask entry = ia_ip entry \<longleftrightarrow> dotted q = ''0.0.0.0'' \<or> ip = quad_addr q"
      using ip_entry_dotted Cons(2) by fastforce
    obtain acl where acl: "ip_list (join_comma (map dotted qs)) = Some acl"
      "\<forall>ip. (\<exists>a \<in> set acl. ip AND ia_mask a = ia_ip a) \<longleftrightarrow> (\<exists>q \<in> set qs. dotted q = ''0.0.0.0'' \<or> ip = quad_addr q)"
      using Cons by auto
    have "ip_list (join_comma (map dotted (q # qs))) = Some (entry # acl)"
    proof (cases qs)
      case Nil
      then show ?thesis using step(2) e(1) acl(1) by simp
    next
      case (Cons q' qs')
      then show ?thesis using step(1) [of "join_comma (map dotted qs)"] e(1) acl(1) by simp
    qed
    then show ?case using e(2) acl(2) by simp
  qed
  then obtain acl where "ip_list (join_comma (map dotted qs)) = Some acl"
    "\<forall>ip. (\<exists>a \<in> set acl. ip AND ia_mask a = ia_ip a) \<longleftrightarrow> (\<exists>q \<in> set qs. dotted q = ''0.0.0.0'' \<or> ip = quad_addr q)" by blast
  then show ?thesis
    by (auto simp: setup_ipaccess_def check_connect_def find_None_iff find_Some_iff split: option.split)
qed

text \<open>C29: an address with a prefix length, as in 192.168.0.0/16, makes the set-up of the list shift by a negative
  number: the program has no defined behaviour for it, wherever it stands in the list.\<close>

theorem ipaccess_prefix_undefined:
  assumes "\<forall>q \<in> set qs. quad_ok q" and "quad_ok q" and "1 \<le> n" and "n \<le> 32"
  shows "setup_ipaccess (join_comma (map dotted qs @ (dotted q @ ''/'' @ dec_nat n) # map dotted qs')) = None"
proof -
  let ?bad = "dotted q @ ''/'' @ dec_nat n"
  obtain d ds where d: "?bad = d # ds" "\<not> isblank d" "d \<noteq> CHR '',''" using dotted_head [of q] by (metis append_Cons)
  have c: "CHR '','' \<notin> set ?bad" using dotted_chars(1) dec_nat_chars(2) by simp
  have bad: "ip_list (join_comma (?bad # map dotted qs')) = None"
    using ip_list_entry [OF d c] ip_entry_prefix [OF assms(2-4)] by (cases qs') simp_all
  have "ip_list (join_comma (map dotted qs @ ?bad # map dotted qs')) = None" using assms(1)
  proof (induction qs)
    case (Cons p qs)
    obtain d ds where d: "dotted p = d # ds" "\<not> isblank d" "d \<noteq> CHR '',''" by (rule dotted_head)
    have j: "join_comma (map dotted (p # qs) @ ?bad # map dotted qs') = dotted p @ '','' @ join_comma (map dotted qs @ ?bad # map dotted qs')"
      by (cases qs) simp_all
    have "ip_list (join_comma (map dotted qs @ ?bad # map dotted qs')) = None" using Cons by simp
    then show ?case unfolding j ip_list_entry(1) [OF d dotted_chars(1)] by (simp split: option.split)
  qed (use bad in simp)
  then show ?thesis by (simp add: setup_ipaccess_def)
qed

theorem ipaccess_exact_witness:
  "\<exists>acl. setup_ipaccess ''127.0.0.1,10.0.0.7'' = Some acl \<and> fst (check_connect (Some ''127.0.0.1,10.0.0.7'') acl 0x0A000007) \<and>
    \<not> fst (check_connect (Some ''127.0.0.1,10.0.0.7'') acl 0x0A000008)"
proof -
  let ?qs = "[(127, 0, 0, 1), (10, 0, 0, 7)] :: (nat \<times> nat \<times> nat \<times> nat) list"
  have t: "map dotted ?qs = [''127.0.0.1'', ''10.0.0.7'']" by (simp add: dotted_def dec_nat.simps chr_def char_of_def bit_0)
  have j: "join_comma (map dotted ?qs) = ''127.0.0.1,10.0.0.7''" unfolding t by simp
  have "\<forall>q \<in> set ?qs. quad_ok q" by (simp add: quad_ok_def)
  from ipaccess_exact [OF this] obtain acl where "setup_ipaccess ''127.0.0.1,10.0.0.7'' = Some acl"
    and a: "\<forall>ip. fst (check_connect (Some ''127.0.0.1,10.0.0.7'') acl ip) \<longleftrightarrow> (\<exists>q \<in> set ?qs. dotted q = ''0.0.0.0'' \<or> ip = quad_addr q)"
    unfolding j by blast
  moreover have "dotted (127, 0, 0, 1) \<noteq> ''0.0.0.0''" "dotted (10, 0, 0, 7) \<noteq> ''0.0.0.0''" using t by simp_all
  ultimately show ?thesis by (simp add: quad_addr_def)
qed

theorem ipaccess_prefix_undefined_witness: "setup_ipaccess ''127.0.0.1,192.168.0.0/16'' = None"
proof -
  let ?qs = "[(127, 0, 0, 1)] :: (nat \<times> nat \<times> nat \<times> nat) list" and ?q = "(192, 168, 0, 0) :: nat \<times> nat \<times> nat \<times> nat"
  have t: "join_comma (map dotted ?qs @ (dotted ?q @ ''/'' @ dec_nat 16) # map dotted []) = ''127.0.0.1,192.168.0.0/16''"
    by (simp add: dotted_def dec_nat.simps chr_def char_of_def bit_0)
  have "\<forall>q \<in> set ?qs. quad_ok q" "quad_ok ?q" "1 \<le> (16 :: nat)" "16 \<le> (32 :: nat)" by (simp_all add: quad_ok_def)
  from ipaccess_prefix_undefined [OF this, of "[]"] show ?thesis unfolding t .
qed

end
