(* ===== verification/Json_Lex.thy ===== *)
theory Json_Lex
  imports Utf8 Cfloat
begin

text \<open>
  The lexical analyser of the bundled Jansson library (\<^verbatim>\<open>compat/jansson/load.c\<close>, with the error record
  of \<^verbatim>\<open>error.c\<close> and the reading of reals of \<^verbatim>\<open>strconv.c\<close>): the input stream, which checks the encoding
  as it reads, and the scanner of one token. A scanner state is \<^verbatim>\<open>lex_t\<close>; the error record that
  the C functions receive as an extra pointer is a field of it. A string buffer is a list; storage
  is assumed to be available.
\<close>

unbundle bit_operations_syntax

section \<open>Errors\<close>

record json_error =
  err_line :: int
  err_column :: int
  err_position :: nat
  err_source :: string
  err_text :: string

text \<open>A source that is too long for the record loses its beginning.\<close>

definition jsonp_error_set_source :: "string \<Rightarrow> json_error \<Rightarrow> json_error" where
  "jsonp_error_set_source source e =
    (let len = length source in
     if len < 80 then e\<lparr>err_source := source\<rparr> else e\<lparr>err_source := ''...'' @ drop (len - 80 + 4) source\<rparr>)"

definition jsonp_error_init :: "string \<Rightarrow> json_error" where
  "jsonp_error_init source =
    jsonp_error_set_source source
      \<lparr>err_line = -1, err_column = -1, err_position = 0, err_source = [], err_text = []\<rparr>"

text \<open>Only the first error is recorded.\<close>

definition jsonp_error_vset :: "json_error \<Rightarrow> int \<Rightarrow> int \<Rightarrow> nat \<Rightarrow> string \<Rightarrow> json_error" where
  "jsonp_error_vset e line column position msg =
    (if err_text e \<noteq> [] then e
     else e\<lparr>err_line := line, err_column := column, err_position := position, err_text := take 159 msg\<rparr>)"

section \<open>The scanner state\<close>

datatype stream_state = STREAM_STATE_OK | STREAM_STATE_EOF | STREAM_STATE_ERROR

text \<open>What reading a byte gives: the byte, or the state in which the stream has stopped.\<close>

datatype got = Byte char | Got_EOF | Got_ERROR

datatype token = TOKEN_INVALID | TOKEN_EOF | TOKEN_CHAR char | TOKEN_STRING string | TOKEN_INTEGER int
  | TOKEN_REAL double | TOKEN_TRUE | TOKEN_FALSE | TOKEN_NULL

text \<open>\<open>sdata\<close> holds the bytes that the function \<^verbatim>\<open>get\<close> of the stream has yet to deliver; the buffer holds
  one character of the text and its terminator.\<close>

record stream =
  sdata :: string
  sbuffer :: string
  sbuffer_pos :: nat
  sstate :: stream_state
  sline :: int
  scolumn :: int
  slast_column :: int
  sposition :: nat

record lex = stream +
  saved_text :: string
  token :: token
  lex_error :: "json_error option"

definition NUL :: char where "NUL = chr 0"

definition quote_char :: char where "quote_char = chr 34"
definition backslash :: char where "backslash = chr 92"
definition newline :: char where "newline = chr 10"

lemma chr_eq_iff: "m < 256 \<Longrightarrow> n < 256 \<Longrightarrow> chr m = chr n \<longleftrightarrow> m = n"
  by (metis code_chr)

lemma char_codes [simp]: "code NUL = 0" "code quote_char = 34" "code backslash = 92" "code newline = 10"
  by (simp_all add: NUL_def quote_char_def backslash_def newline_def)

lemma char_distinct [simp]:
  "quote_char \<noteq> NUL" "backslash \<noteq> NUL" "backslash \<noteq> quote_char" "quote_char \<noteq> backslash" "newline \<noteq> NUL"
  by (simp_all add: NUL_def quote_char_def backslash_def newline_def chr_eq_iff)

definition l_isupper :: "char \<Rightarrow> bool" where
  "l_isupper c \<longleftrightarrow> 65 \<le> code c \<and> code c \<le> 90"
definition l_islower :: "char \<Rightarrow> bool" where
  "l_islower c \<longleftrightarrow> 97 \<le> code c \<and> code c \<le> 122"
definition l_isalpha :: "char \<Rightarrow> bool" where
  "l_isalpha c \<longleftrightarrow> l_isupper c \<or> l_islower c"
definition l_isdigit :: "char \<Rightarrow> bool" where
  "l_isdigit c \<longleftrightarrow> 48 \<le> code c \<and> code c \<le> 57"
definition l_isxdigit :: "char \<Rightarrow> bool" where
  "l_isxdigit c \<longleftrightarrow> l_isdigit c \<or> (65 \<le> code c \<and> code c \<le> 70) \<or> (97 \<le> code c \<and> code c \<le> 102)"

text \<open>A test of the byte just read, false when the stream has stopped.\<close>

definition got_is :: "(char \<Rightarrow> bool) \<Rightarrow> got \<Rightarrow> bool" where
  "got_is p c = (case c of Byte b \<Rightarrow> p b | _ \<Rightarrow> False)"

text \<open>The formats \<^verbatim>\<open>%x\<close>, \<^verbatim>\<open>%04x\<close> and \<^verbatim>\<open>%04X\<close>.\<close>

fun hex_nat :: "nat \<Rightarrow> string" where
  "hex_nat n = (if n < 16 then [hexdigit n] else hex_nat (n div 16) @ [hexdigit (n mod 16)])"

declare hex_nat.simps [simp del]

definition hex04 :: "nat \<Rightarrow> string" where
  "hex04 n = pad_zeros 4 (hex_nat n)"

definition hex04_upper :: "nat \<Rightarrow> string" where
  "hex04_upper n = map (\<lambda>c. if l_islower c then chr (code c - 32) else c) (hex04 n)"

text \<open>The message of an error, with the token it is near to, in a buffer of 160 bytes.\<close>

definition error_set :: "string \<Rightarrow> lex \<Rightarrow> lex" where
  "error_set msg l =
    (case lex_error l of
       None \<Rightarrow> l
     | Some e \<Rightarrow>
         let msg_text = take 159 msg;
             saved = takeWhile (\<lambda>c. c \<noteq> NUL) (saved_text l);
             result =
               (if saved \<noteq> [] then
                  if length (saved_text l) \<le> 20 then take 159 (msg_text @ '' near '' @ [chr 39] @ saved @ [chr 39])
                  else msg_text
                else if sstate l = STREAM_STATE_ERROR then msg_text
                else take 159 (msg_text @ '' near end of file''))
         in l\<lparr>lex_error := Some (jsonp_error_vset e (sline l) (scolumn l) (sposition l) result)\<rparr>)"

section \<open>The stream\<close>

text \<open>The loop that fetches the rest of a sequence: the end of the input is stored as the byte 255.\<close>

fun stream_bytes :: "nat \<Rightarrow> string \<Rightarrow> string \<times> string" where
  "stream_bytes 0 d = ([], d)"
| "stream_bytes (Suc n) d =
    (case d of
       [] \<Rightarrow> (case stream_bytes n [] of (bs, r) \<Rightarrow> (chr 255 # bs, r))
     | c # d' \<Rightarrow> (case stream_bytes n d' of (bs, r) \<Rightarrow> (c # bs, r)))"

text \<open>The exit \<^verbatim>\<open>out\<close> of \<^verbatim>\<open>stream_get\<close>.\<close>

definition stream_fail :: "char \<Rightarrow> lex \<Rightarrow> got \<times> lex" where
  "stream_fail c l =
    (Got_ERROR, error_set (''unable to decode byte 0x'' @ hex_nat (code c)) (l\<lparr>sstate := STREAM_STATE_ERROR\<rparr>))"

text \<open>Filling the buffer with the next character; \<open>Inl\<close> is an early return.\<close>

definition stream_fill :: "lex \<Rightarrow> (got \<times> lex) + lex" where
  "stream_fill l =
    (case sdata l of
       [] \<Rightarrow> Inl (Got_EOF, l\<lparr>sstate := STREAM_STATE_EOF\<rparr>)
     | c # d \<Rightarrow>
         let l = l\<lparr>sdata := d, sbuffer := [c, NUL], sbuffer_pos := 0\<rparr> in
         if 0x80 \<le> code c then
           let count = utf8_check_first c in
           if count = 0 then Inl (stream_fail c l)
           else (case stream_bytes (count - 1) d of
               (bs, r) \<Rightarrow>
                 let l = l\<lparr>sdata := r, sbuffer := c # bs @ [NUL]\<rparr> in
                 if utf8_check_full (c # bs) count = None then Inl (stream_fail c l) else Inr l)
         else Inr l)"

definition stream_cur :: "lex \<Rightarrow> char" where
  "stream_cur l = (if sbuffer_pos l < length (sbuffer l) then sbuffer l ! sbuffer_pos l else NUL)"

text \<open>Taking the next byte of the buffer and counting lines and columns.\<close>

definition stream_next :: "lex \<Rightarrow> got \<times> lex" where
  "stream_next l =
    (let c = stream_cur l;
         l = l\<lparr>sbuffer_pos := sbuffer_pos l + 1, sposition := sposition l + 1\<rparr>
     in (Byte c,
         if c = newline then l\<lparr>sline := sline l + 1, slast_column := scolumn l, scolumn := 0\<rparr>
         else if utf8_check_first c \<noteq> 0 then l\<lparr>scolumn := scolumn l + 1\<rparr>
         else l))"

definition stream_get :: "lex \<Rightarrow> got \<times> lex" where
  "stream_get l =
    (case sstate l of
       STREAM_STATE_EOF \<Rightarrow> (Got_EOF, l)
     | STREAM_STATE_ERROR \<Rightarrow> (Got_ERROR, l)
     | STREAM_STATE_OK \<Rightarrow>
         if stream_cur l = NUL then (case stream_fill l of Inl r \<Rightarrow> r | Inr l \<Rightarrow> stream_next l)
         else stream_next l)"

definition stream_unget :: "got \<Rightarrow> lex \<Rightarrow> lex" where
  "stream_unget c l =
    (case c of
       Got_EOF \<Rightarrow> l
     | Got_ERROR \<Rightarrow> l
     | Byte b \<Rightarrow>
         let l = l\<lparr>sposition := sposition l - 1, sbuffer_pos := sbuffer_pos l - 1\<rparr>
         in if b = newline then l\<lparr>sline := sline l - 1, scolumn := slast_column l\<rparr>
            else if utf8_check_first b \<noteq> 0 then l\<lparr>scolumn := scolumn l - 1\<rparr>
            else l)"

definition lex_save :: "char \<Rightarrow> lex \<Rightarrow> lex" where
  "lex_save c l = l\<lparr>saved_text := saved_text l @ [c]\<rparr>"

definition lex_get_save :: "lex \<Rightarrow> got \<times> lex" where
  "lex_get_save l =
    (case stream_get l of (c, l) \<Rightarrow> (c, case c of Byte b \<Rightarrow> lex_save b l | _ \<Rightarrow> l))"

definition lex_unget_unsave :: "got \<Rightarrow> lex \<Rightarrow> lex" where
  "lex_unget_unsave c l =
    (case c of
       Byte b \<Rightarrow> (let l = stream_unget c l in l\<lparr>saved_text := butlast (saved_text l)\<rparr>)
     | _ \<Rightarrow> l)"

text \<open>The rest of the character in the buffer is saved.\<close>

definition lex_save_cached :: "lex \<Rightarrow> lex" where
  "lex_save_cached l =
    (let bs = takeWhile (\<lambda>c. c \<noteq> NUL) (drop (sbuffer_pos l) (sbuffer l)) in
     l\<lparr>saved_text := saved_text l @ bs, sbuffer_pos := sbuffer_pos l + length bs,
       sposition := sposition l + length bs\<rparr>)"

section \<open>Reading consumes the input\<close>

text \<open>The bytes a scanner state still has to deliver; every loop of the scanner is bounded by them.\<close>

definition lex_pending :: "lex \<Rightarrow> string" where
  "lex_pending l = takeWhile (\<lambda>c. c \<noteq> NUL) (drop (sbuffer_pos l) (sbuffer l))"

definition lex_rem :: "lex \<Rightarrow> nat" where
  "lex_rem l = (if sstate l = STREAM_STATE_OK then length (sdata l) + length (lex_pending l) else 0)"

fun got_size :: "got \<Rightarrow> nat" where
  "got_size (Byte b) = 1"
| "got_size _ = 0"

lemma error_set_fields [simp]:
  "sdata (error_set m l) = sdata l" "sbuffer (error_set m l) = sbuffer l" "sbuffer_pos (error_set m l) = sbuffer_pos l"
  "sstate (error_set m l) = sstate l" "token (error_set m l) = token l" "saved_text (error_set m l) = saved_text l"
  by (auto simp: error_set_def Let_def split: option.split)

lemma lex_rem_simps [simp]:
  "lex_rem (error_set m l) = lex_rem l" "lex_rem (l\<lparr>saved_text := t\<rparr>) = lex_rem l" "lex_rem (l\<lparr>token := k\<rparr>) = lex_rem l"
  "lex_rem (lex_save b l) = lex_rem l" "lex_rem (l\<lparr>lex_error := e\<rparr>) = lex_rem l"
  by (simp_all add: lex_rem_def lex_pending_def lex_save_def)

lemma stream_bytes_length: "stream_bytes n d = (bs, r) \<Longrightarrow> length bs = n \<and> length r \<le> length d"
  by (induction n d arbitrary: bs r rule: stream_bytes.induct) (fastforce split: list.splits prod.splits)+

lemma stream_bytes_append: "stream_bytes n d = (bs, r) \<Longrightarrow> chr 255 \<notin> set bs \<Longrightarrow> d = bs @ r"
  by (induction n d arbitrary: bs r rule: stream_bytes.induct) (fastforce split: list.splits prod.splits)+

lemma stream_bytes_prefix: "stream_bytes (length bs) (bs @ r) = (bs, r)"
  by (induction bs) auto

lemma pending_cur:
  "lex_pending l = (if stream_cur l = NUL then [] else
     stream_cur l # takeWhile (\<lambda>c. c \<noteq> NUL) (drop (Suc (sbuffer_pos l)) (sbuffer l)))"
proof (cases "sbuffer_pos l < length (sbuffer l)")
  case True
  then show ?thesis by (subst lex_pending_def) (simp add: Cons_nth_drop_Suc [symmetric] stream_cur_def)
qed (simp add: lex_pending_def stream_cur_def)

lemma utf8_cont_bytes: "utf8_cont bs v = Some w \<Longrightarrow> b \<in> set bs \<Longrightarrow> 128 \<le> code b \<and> code b \<le> 191"
  by (induction bs v rule: utf8_cont.induct) (auto split: if_splits)

lemma utf8_full_bytes:
  assumes "utf8_check_full (c # bs) (Suc (length bs)) \<noteq> None" "b \<in> set bs"
  shows "128 \<le> code b \<and> code b \<le> 191"
  using assms by (auto simp: utf8_check_full_def Let_def split: if_splits option.splits dest: utf8_cont_bytes)

lemma stream_fill_rem:
  "stream_fill l = Inr l' \<Longrightarrow> Suc (length (sdata l') + length (takeWhile (\<lambda>c. c \<noteq> NUL) (drop (Suc (sbuffer_pos l')) (sbuffer l')))) \<le> length (sdata l)"
proof -
  assume a: "stream_fill l = Inr l'"
  then obtain c d where d: "sdata l = c # d" by (auto simp: stream_fill_def split: list.splits)
  show ?thesis
  proof (cases "0x80 \<le> code c")
    case False
    then show ?thesis using a by (auto simp: stream_fill_def d Let_def)
  next
    case True
    obtain bs r where b: "stream_bytes (utf8_check_first c - 1) d = (bs, r)" by fastforce
    from a True b have l': "l' = l\<lparr>sdata := r, sbuffer := c # bs @ [NUL], sbuffer_pos := 0\<rparr>"
      and f: "utf8_check_full (c # bs) (utf8_check_first c) \<noteq> None" "utf8_check_first c \<noteq> 0"
      by (auto simp: stream_fill_def d Let_def split: if_splits)
    have n: "utf8_check_first c = Suc (length bs)" using stream_bytes_length [OF b] f(2) by simp
    have bytes: "\<forall>b\<in>set bs. 128 \<le> code b \<and> code b \<le> 191" using utf8_full_bytes f(1) n by metis
    then have "chr 255 \<notin> set bs" using code_chr [of 255] by force
    then have "d = bs @ r" using stream_bytes_append [OF b] by simp
    then show ?thesis by (simp add: l' d NUL_def takeWhile_append length_takeWhile_le)
  qed
qed

lemma stream_fill_stops:
  "stream_fill l = Inl (c, l') \<Longrightarrow> (c = Got_EOF \<or> c = Got_ERROR) \<and> sstate l' \<noteq> STREAM_STATE_OK"
  by (auto simp: stream_fill_def stream_fail_def Let_def split: list.splits if_splits prod.splits)

lemma stream_fill_ok: "stream_fill l = Inr l' \<Longrightarrow> sstate l' = sstate l"
  by (auto simp: stream_fill_def Let_def split: list.splits if_splits prod.splits)

lemma stream_next_fields:
  "stream_next l = (c, l') \<Longrightarrow>
    c = Byte (stream_cur l) \<and> sdata l' = sdata l \<and> sbuffer l' = sbuffer l \<and> sbuffer_pos l' = Suc (sbuffer_pos l) \<and>
    sstate l' = sstate l \<and> saved_text l' = saved_text l \<and> token l' = token l \<and> lex_error l' = lex_error l"
  by (auto simp: stream_next_def Let_def)

lemma stream_next_rem:
  "stream_next l = (c, l') \<Longrightarrow> sstate l = STREAM_STATE_OK \<Longrightarrow>
    lex_rem l' + got_size c = Suc (length (sdata l) + length (takeWhile (\<lambda>c. c \<noteq> NUL) (drop (Suc (sbuffer_pos l)) (sbuffer l))))"
  using stream_next_fields [of l c l'] by (simp add: lex_rem_def lex_pending_def)

lemma stream_get_rem: "stream_get l = (c, l') \<Longrightarrow> lex_rem l' + got_size c \<le> lex_rem l"
proof -
  assume a: "stream_get l = (c, l')"
  show ?thesis
  proof (cases "sstate l")
    case STREAM_STATE_OK
    show ?thesis
    proof (cases "stream_cur l = NUL")
      case False
      then have "stream_next l = (c, l')" using a STREAM_STATE_OK by (simp add: stream_get_def)
      then show ?thesis using stream_next_rem [of l c l'] STREAM_STATE_OK False pending_cur [of l] by (simp add: lex_rem_def [of l])
    next
      case True
      show ?thesis
      proof (cases "stream_fill l")
        case (Inl r)
        then show ?thesis using a True STREAM_STATE_OK stream_fill_stops [of l c l'] by (auto simp: stream_get_def lex_rem_def)
      next
        case (Inr k)
        then have "stream_next k = (c, l')" using a True STREAM_STATE_OK by (simp add: stream_get_def)
        then show ?thesis
          using stream_next_rem [of k c l'] stream_fill_rem [OF Inr] stream_fill_ok [OF Inr] STREAM_STATE_OK by (simp add: lex_rem_def [of l])
      qed
    qed
  qed (use a in \<open>auto simp: stream_get_def lex_rem_def\<close>)
qed

lemma lex_get_save_rem: "lex_get_save l = (c, l') \<Longrightarrow> lex_rem l' + got_size c \<le> lex_rem l"
  using stream_get_rem by (fastforce simp: lex_get_save_def split: prod.splits got.splits)

section \<open>The scanner\<close>

text \<open>The loop that saves bytes while they belong to a class.\<close>

function lex_take_while :: "(char \<Rightarrow> bool) \<Rightarrow> got \<Rightarrow> lex \<Rightarrow> got \<times> lex" where
  "lex_take_while p c l =
    (if got_is p c then (case lex_get_save l of (c, l) \<Rightarrow> lex_take_while p c l) else (c, l))"
  by auto
termination
  by (relation "measure (\<lambda>(p, c, l). lex_rem l + got_size c)")
    (fastforce simp: got_is_def split: got.splits dest: lex_get_save_rem [OF sym])+

declare lex_take_while.simps [simp del]

text \<open>The loop over white space, which is not saved.\<close>

definition is_space :: "char \<Rightarrow> bool" where
  "is_space c \<longleftrightarrow> c = chr 32 \<or> c = chr 9 \<or> c = chr 10 \<or> c = chr 13"

function lex_skip_space :: "got \<Rightarrow> lex \<Rightarrow> got \<times> lex" where
  "lex_skip_space c l =
    (if got_is is_space c then (case stream_get l of (c, l) \<Rightarrow> lex_skip_space c l) else (c, l))"
  by auto
termination
  by (relation "measure (\<lambda>(c, l). lex_rem l + got_size c)")
    (fastforce simp: got_is_def split: got.splits dest: stream_get_rem [OF sym])+

declare lex_skip_space.simps [simp del]

subsection \<open>Strings\<close>

text \<open>The loop over the four hexadecimal digits of an escape; \<open>None\<close> when one is missing.\<close>

fun lex_scan_hex :: "nat \<Rightarrow> got \<Rightarrow> lex \<Rightarrow> got option \<times> lex" where
  "lex_scan_hex 0 c l = (Some c, l)"
| "lex_scan_hex (Suc i) c l =
    (if \<not> got_is l_isxdigit c then (None, l)
     else case lex_get_save l of (c, l) \<Rightarrow> lex_scan_hex i c l)"

lemma lex_scan_hex_rem: "lex_scan_hex i c l = (Some d, l') \<Longrightarrow> lex_rem l' + got_size d \<le> lex_rem l + got_size c"
  by (induction i c l rule: lex_scan_hex.induct) (fastforce split: if_splits prod.splits dest: lex_get_save_rem)+

definition escape_char :: "char \<Rightarrow> bool" where
  "escape_char c \<longleftrightarrow> c \<in> {quote_char, backslash, CHR ''/'', CHR ''b'', CHR ''f'', CHR ''n'', CHR ''r'', CHR ''t''}"

text \<open>The first pass over a string: everything up to the closing quote is saved. \<open>False\<close> is the exit \<^verbatim>\<open>out\<close>.\<close>

function lex_string_chars :: "got \<Rightarrow> lex \<Rightarrow> bool \<times> lex" where
  "lex_string_chars c l =
    (if c = Byte quote_char then (True, l)
     else if c = Got_ERROR then (False, l)
     else if c = Got_EOF then (False, error_set ''premature end of input'' l)
     else if got_is (\<lambda>b. code b \<le> 0x1F) c then
       (False, error_set (if c = Byte newline then ''unexpected newline''
                          else ''control character 0x'' @ (case c of Byte b \<Rightarrow> hex_nat (code b) | _ \<Rightarrow> []))
          (lex_unget_unsave c l))
     else if c = Byte backslash then
       (case lex_get_save l of (c, l) \<Rightarrow>
         if c = Byte (CHR ''u'') then
           (case lex_get_save l of (c, l) \<Rightarrow>
             (case lex_scan_hex 4 c l of
                (None, l) \<Rightarrow> (False, error_set ''invalid escape'' l)
              | (Some c, l) \<Rightarrow> lex_string_chars c l))
         else if got_is escape_char c then (case lex_get_save l of (c, l) \<Rightarrow> lex_string_chars c l)
         else (False, error_set ''invalid escape'' l))
     else (case lex_get_save l of (c, l) \<Rightarrow> lex_string_chars c l))"
  by auto
termination
  apply (relation "measure (\<lambda>(c, l). lex_rem l + got_size c)")
  apply simp
  subgoal by (auto dest!: lex_get_save_rem [OF sym] lex_scan_hex_rem [OF sym])
  subgoal by (auto split: prod.split dest: lex_get_save_rem [OF sym]) (auto dest!: lex_get_save_rem lex_get_save_rem [OF sym])
  subgoal for c l by (cases c) (auto split: prod.split dest!: lex_get_save_rem)
  done

declare lex_string_chars.simps [simp del]

text \<open>The value of a digit of an escape; a letter beyond \<^verbatim>\<open>f\<close> is not told apart here.\<close>

definition escape_digit :: "char \<Rightarrow> nat option" where
  "escape_digit c =
    (if l_isdigit c then Some (code c - 48)
     else if l_islower c then Some (code c - 97 + 10)
     else if l_isupper c then Some (code c - 65 + 10)
     else None)"

fun escape_value :: "nat \<Rightarrow> string \<Rightarrow> nat option" where
  "escape_value v [] = Some v"
| "escape_value v (c # s) =
    (case escape_digit c of None \<Rightarrow> None | Some d \<Rightarrow> escape_value (push_bit 4 v + d) s)"

text \<open>The text after a backslash: \<^verbatim>\<open>u\<close> and four digits. \<open>None\<close> is a failed assertion.\<close>

definition decode_unicode_escape :: "string \<Rightarrow> nat option" where
  "decode_unicode_escape str =
    (case str of
       u # ds \<Rightarrow> if u = CHR ''u'' \<and> 4 \<le> length ds then escape_value 0 (take 4 ds) else None
     | [] \<Rightarrow> None)"

text \<open>The second pass: the text of the string, an escape that stands for no character, or a failed assertion
  (which the first pass excludes).\<close>

datatype unescaped = Decoded string | Bad_escape string | Assertion_failed

fun emit :: "string \<Rightarrow> unescaped \<Rightarrow> unescaped" where
  "emit t (Decoded s) = Decoded (t @ s)"
| "emit t r = r"

definition simple_escape :: "char \<Rightarrow> char option" where
  "simple_escape c =
    (if c \<in> {quote_char, backslash, CHR ''/''} then Some c
     else if c = CHR ''b'' then Some (chr 8)
     else if c = CHR ''f'' then Some (chr 12)
     else if c = CHR ''n'' then Some (chr 10)
     else if c = CHR ''r'' then Some (chr 13)
     else if c = CHR ''t'' then Some (chr 9)
     else None)"

definition invalid_unicode :: "nat list \<Rightarrow> unescaped" where
  "invalid_unicode vs =
    Bad_escape (''invalid Unicode '' @ [chr 39] @ concat (map (\<lambda>v. backslash # ''u'' @ hex04_upper v) vs) @ [chr 39])"

text \<open>The character of an escape whose value is known, before it is copied.\<close>

definition emit_utf8 :: "nat \<Rightarrow> unescaped \<Rightarrow> unescaped" where
  "emit_utf8 value r = (case utf8_encode (int value) of None \<Rightarrow> Assertion_failed | Some bs \<Rightarrow> emit bs r)"

function unescape :: "string \<Rightarrow> unescaped" where
  "unescape p =
    (case p of
       [] \<Rightarrow> Assertion_failed
     | c # r \<Rightarrow>
         if c = quote_char then Decoded []
         else if c \<noteq> backslash then emit [c] (unescape r)
         else (case r of
             [] \<Rightarrow> Assertion_failed
           | e # q \<Rightarrow>
               if e = CHR ''u'' then
                 (case decode_unicode_escape r of
                    None \<Rightarrow> Assertion_failed
                  | Some value \<Rightarrow>
                      let p = drop 5 r in
                      if 0xD800 \<le> value \<and> value \<le> 0xDBFF then
                        if take 2 p = [backslash, CHR ''u''] then
                          (case decode_unicode_escape (drop 1 p) of
                             None \<Rightarrow> Assertion_failed
                           | Some value2 \<Rightarrow>
                               if 0xDC00 \<le> value2 \<and> value2 \<le> 0xDFFF then
                                 emit_utf8 (push_bit 10 (value - 0xD800) + (value2 - 0xDC00) + 0x10000) (unescape (drop 6 p))
                               else invalid_unicode [value, value2])
                        else invalid_unicode [value]
                      else if 0xDC00 \<le> value \<and> value \<le> 0xDFFF then invalid_unicode [value]
                      else if value = 0 then Bad_escape (backslash # ''u0000 is not allowed'')
                      else emit_utf8 value (unescape p))
               else (case simple_escape e of None \<Rightarrow> Assertion_failed | Some t \<Rightarrow> emit [t] (unescape q))))"
  by auto
termination
  by (relation "measure length") auto

declare unescape.simps [simp del]

definition lex_scan_string :: "lex \<Rightarrow> lex" where
  "lex_scan_string l =
    (case lex_get_save (l\<lparr>token := TOKEN_INVALID\<rparr>) of (c, l) \<Rightarrow>
      (case lex_string_chars c l of
         (False, l) \<Rightarrow> l
       | (True, l) \<Rightarrow>
           (case unescape (drop 1 (saved_text l)) of
              Decoded t \<Rightarrow> l\<lparr>token := TOKEN_STRING t\<rparr>
            | Bad_escape msg \<Rightarrow> error_set msg l
            | Assertion_failed \<Rightarrow> l)))"

subsection \<open>Numbers\<close>

text \<open>The exact value of a decimal number text.\<close>

definition decimal_value :: "string \<Rightarrow> rat" where
  "decimal_value s =
    (case strto_sign s of (neg, s) \<Rightarrow>
      (case float_digits 10 s of (ds, fs, r) \<Rightarrow>
        (if neg then - 1 else 1) * of_nat (digits_val 10 (ds @ fs)) * scale 10 (float_exponent CHR ''e'' r - int (length fs))))"

text \<open>\<^verbatim>\<open>strtod\<close> reports \<^verbatim>\<open>ERANGE\<close> when the result is infinite, or so small that it is subnormal or zero
  without being exact; the caller refuses it unless the result is zero.\<close>

definition strtod_range :: "string \<Rightarrow> bool" where
  "strtod_range s =
    (case strtod s of
       DInf neg \<Rightarrow> True
     | DFin x \<Rightarrow> \<bar>x\<bar> < pow2 (-1022) \<and> x \<noteq> decimal_value s
     | DZero neg \<Rightarrow> decimal_value s \<noteq> 0
     | DNaN \<Rightarrow> False)"

definition jsonp_strtod :: "string \<Rightarrow> double option" where
  "jsonp_strtod s =
    (let value = strtod s in if strtod_range s \<and> \<not> deq value dbl_zero then None else Some value)"

definition lex_finish_integer :: "lex \<Rightarrow> lex" where
  "lex_finish_integer l =
    (let value = fst (strto_int 10 (saved_text l)) in
     if value < - (2 ^ 63) then error_set ''too big negative integer'' l
     else if 2 ^ 63 - 1 < value then error_set ''too big integer'' l
     else l\<lparr>token := TOKEN_INTEGER value\<rparr>)"

definition lex_finish_real :: "lex \<Rightarrow> lex" where
  "lex_finish_real l =
    (case jsonp_strtod (saved_text l) of
       None \<Rightarrow> error_set ''real number overflow'' l
     | Some value \<Rightarrow> l\<lparr>token := TOKEN_REAL value\<rparr>)"

text \<open>The parts of a number; \<open>None\<close> is the exit \<^verbatim>\<open>out\<close>, otherwise the byte after the part.\<close>

definition lex_int_part :: "got \<Rightarrow> lex \<Rightarrow> got option \<times> lex" where
  "lex_int_part c l =
    (if c = Byte (CHR ''0'') then
       (case lex_get_save l of (c, l) \<Rightarrow>
         if got_is l_isdigit c then (None, lex_unget_unsave c l) else (Some c, l))
     else if got_is l_isdigit c then (case lex_take_while l_isdigit c l of (c, l) \<Rightarrow> (Some c, l))
     else (None, lex_unget_unsave c l))"

definition lex_fraction :: "got \<Rightarrow> lex \<Rightarrow> got option \<times> lex" where
  "lex_fraction c l =
    (if c = Byte (CHR ''.'') then
       (case stream_get l of (c, l) \<Rightarrow>
         (case c of
            Byte b \<Rightarrow>
              if \<not> l_isdigit b then (None, stream_unget c l)
              else (case lex_get_save (lex_save b l) of (c, l) \<Rightarrow>
                  (case lex_take_while l_isdigit c l of (c, l) \<Rightarrow> (Some c, l)))
          | _ \<Rightarrow> (None, l)))
     else (Some c, l))"

definition lex_exponent :: "got \<Rightarrow> lex \<Rightarrow> got option \<times> lex" where
  "lex_exponent c l =
    (if c = Byte (CHR ''E'') \<or> c = Byte (CHR ''e'') then
       (case lex_get_save l of (c, l) \<Rightarrow>
         (case (if c = Byte (CHR ''+'') \<or> c = Byte (CHR ''-'') then lex_get_save l else (c, l)) of (c, l) \<Rightarrow>
           if \<not> got_is l_isdigit c then (None, lex_unget_unsave c l)
           else (case lex_take_while l_isdigit c l of (c, l) \<Rightarrow> (Some c, l))))
     else (Some c, l))"

definition lex_scan_number :: "got \<Rightarrow> lex \<Rightarrow> lex" where
  "lex_scan_number c l =
    (let l = l\<lparr>token := TOKEN_INVALID\<rparr> in
     case (if c = Byte (CHR ''-'') then lex_get_save l else (c, l)) of (c, l) \<Rightarrow>
     case lex_int_part c l of
       (None, l) \<Rightarrow> l
     | (Some c, l) \<Rightarrow>
         if c \<noteq> Byte (CHR ''.'') \<and> c \<noteq> Byte (CHR ''E'') \<and> c \<noteq> Byte (CHR ''e'') then
           lex_finish_integer (lex_unget_unsave c l)
         else
           case lex_fraction c l of
             (None, l) \<Rightarrow> l
           | (Some c, l) \<Rightarrow>
               case lex_exponent c l of
                 (None, l) \<Rightarrow> l
               | (Some c, l) \<Rightarrow> lex_finish_real (lex_unget_unsave c l))"

subsection \<open>Tokens\<close>

definition lex_scan_word :: "lex \<Rightarrow> lex" where
  "lex_scan_word l =
    (case lex_get_save l of (c, l) \<Rightarrow>
      (case lex_take_while l_isalpha c l of (c, l) \<Rightarrow>
        let l = lex_unget_unsave c l in
        l\<lparr>token :=
          if saved_text l = ''true'' then TOKEN_TRUE
          else if saved_text l = ''false'' then TOKEN_FALSE
          else if saved_text l = ''null'' then TOKEN_NULL
          else TOKEN_INVALID\<rparr>))"

definition structural :: "char \<Rightarrow> bool" where
  "structural c \<longleftrightarrow> c \<in> {CHR ''{'', CHR ''}'', CHR ''['', CHR '']'', CHR '':'', CHR '',''}"

definition lex_scan :: "lex \<Rightarrow> lex" where
  "lex_scan l =
    (case stream_get (l\<lparr>saved_text := []\<rparr>) of (c, l) \<Rightarrow>
      (case lex_skip_space c l of (c, l) \<Rightarrow>
        (case c of
           Got_EOF \<Rightarrow> l\<lparr>token := TOKEN_EOF\<rparr>
         | Got_ERROR \<Rightarrow> l\<lparr>token := TOKEN_INVALID\<rparr>
         | Byte b \<Rightarrow>
             let l = lex_save b l in
             if structural b then l\<lparr>token := TOKEN_CHAR b\<rparr>
             else if b = quote_char then lex_scan_string l
             else if l_isdigit b \<or> b = CHR ''-'' then lex_scan_number c l
             else if l_isalpha b then lex_scan_word l
             else (lex_save_cached l)\<lparr>token := TOKEN_INVALID\<rparr>)))"

definition lex_init :: "string \<Rightarrow> json_error option \<Rightarrow> lex" where
  "lex_init data error =
    \<lparr>sdata = data, sbuffer = [NUL], sbuffer_pos = 0, sstate = STREAM_STATE_OK, sline = 1, scolumn = 0,
     slast_column = 0, sposition = 0, saved_text = [], token = TOKEN_INVALID, lex_error = error\<rparr>"

end
