(* ===== verification/Json_Load.thy ===== *)
theory Json_Load
  imports Json_Lex
begin

text \<open>
  The parser of the bundled Jansson library (\<^verbatim>\<open>compat/jansson/load.c\<close>): values, objects and arrays over
  the tokens of the scanner, and the entry points for strings and files. The mutual recursion of the
  C functions is not bounded by the code; here it carries fuel, \<open>None\<close> means that the fuel has run out, and
  the fuel that \<open>parse_json\<close> starts with is shown to be enough for every input.
\<close>

unbundle bit_operations_syntax

section \<open>Definitions\<close>

definition JSON_REJECT_DUPLICATES :: nat where "JSON_REJECT_DUPLICATES = 0x1"
definition JSON_DISABLE_EOF_CHECK :: nat where "JSON_DISABLE_EOF_CHECK = 0x2"
definition JSON_DECODE_ANY :: nat where "JSON_DECODE_ANY = 0x4"
definition JSON_DECODE_INT_AS_REAL :: nat where "JSON_DECODE_INT_AS_REAL = 0x8"

definition flag_set :: "nat \<Rightarrow> nat \<Rightarrow> bool" where
  "flag_set flags f \<longleftrightarrow> flags AND f \<noteq> 0"

text \<open>The constructor refuses infinities and NaN.\<close>

definition json_real :: "double \<Rightarrow> json option" where
  "json_real value = (case value of DNaN \<Rightarrow> None | DInf neg \<Rightarrow> None | _ \<Rightarrow> Some (JReal value))"

definition quoted :: "string \<Rightarrow> string" where
  "quoted s = [chr 39] @ s @ [chr 39]"

type_synonym parser = "lex \<Rightarrow> (json option \<times> lex) option"

text \<open>The loops of \<^verbatim>\<open>parse_object\<close> and \<^verbatim>\<open>parse_array\<close>; the first argument is \<^verbatim>\<open>parse_value\<close>, which they call.\<close>

primrec parse_object_loop :: "parser \<Rightarrow> nat \<Rightarrow> nat \<Rightarrow> json \<Rightarrow> parser" where
  "parse_object_loop pv flags 0 object l = None"
| "parse_object_loop pv flags (Suc n) object l =
    (case token l of
       TOKEN_STRING key \<Rightarrow>
         if flag_set flags JSON_REJECT_DUPLICATES \<and> json_object_get (Some object) key \<noteq> None then
           Some (None, error_set ''duplicate object key'' l)
         else
           let l = lex_scan l in
           if token l \<noteq> TOKEN_CHAR (CHR '':'') then Some (None, error_set (quoted '':'' @ '' expected'') l)
           else
             (case pv (lex_scan l) of
                None \<Rightarrow> None
              | Some (None, l) \<Rightarrow> Some (None, l)
              | Some (Some value, l) \<Rightarrow>
                  let object = json_object_set object key value; l = lex_scan l in
                  if token l = TOKEN_CHAR (CHR '','') then parse_object_loop pv flags n object (lex_scan l)
                  else if token l \<noteq> TOKEN_CHAR (CHR ''}'') then Some (None, error_set (quoted ''}'' @ '' expected'') l)
                  else Some (Some object, l))
     | _ \<Rightarrow> Some (None, error_set (''string or '' @ quoted ''}'' @ '' expected'') l))"

definition parse_object :: "parser \<Rightarrow> nat \<Rightarrow> nat \<Rightarrow> parser" where
  "parse_object pv flags n l =
    (let l = lex_scan l in
     if token l = TOKEN_CHAR (CHR ''}'') then Some (Some (JObject []), l)
     else parse_object_loop pv flags n (JObject []) l)"

primrec parse_array_loop :: "parser \<Rightarrow> nat \<Rightarrow> json list \<Rightarrow> parser" where
  "parse_array_loop pv 0 array l = None"
| "parse_array_loop pv (Suc n) array l =
    (if token l = TOKEN_EOF then Some (None, error_set (quoted '']'' @ '' expected'') l)
     else
       (case pv l of
          None \<Rightarrow> None
        | Some (None, l) \<Rightarrow> Some (None, l)
        | Some (Some elem, l) \<Rightarrow>
            let array = array @ [elem]; l = lex_scan l in
            if token l = TOKEN_CHAR (CHR '','') then parse_array_loop pv n array (lex_scan l)
            else if token l \<noteq> TOKEN_CHAR (CHR '']'') then Some (None, error_set (quoted '']'' @ '' expected'') l)
            else Some (Some (JArray array), l)))"

definition parse_array :: "parser \<Rightarrow> nat \<Rightarrow> parser" where
  "parse_array pv n l =
    (let l = lex_scan l in
     if token l = TOKEN_CHAR (CHR '']'') then Some (Some (JArray []), l)
     else parse_array_loop pv n [] l)"

primrec parse_value :: "nat \<Rightarrow> nat \<Rightarrow> parser" where
  "parse_value flags 0 l = None"
| "parse_value flags (Suc n) l =
    (case token l of
       TOKEN_STRING s \<Rightarrow> Some (Some (JString s), l)
     | TOKEN_INTEGER i \<Rightarrow>
         if flag_set flags JSON_DECODE_INT_AS_REAL then
           (case jsonp_strtod (saved_text l) of
              None \<Rightarrow> Some (None, error_set ''real number overflow'' l)
            | Some value \<Rightarrow> Some (json_real value, l))
         else Some (Some (JInteger i), l)
     | TOKEN_REAL d \<Rightarrow> Some (json_real d, l)
     | TOKEN_TRUE \<Rightarrow> Some (Some JTrue, l)
     | TOKEN_FALSE \<Rightarrow> Some (Some JFalse, l)
     | TOKEN_NULL \<Rightarrow> Some (Some JNull, l)
     | TOKEN_CHAR c \<Rightarrow>
         if c = CHR ''{'' then parse_object (\<lambda>l. parse_value flags n l) flags n l
         else if c = CHR ''['' then parse_array (\<lambda>l. parse_value flags n l) n l
         else Some (None, error_set ''unexpected token'' l)
     | TOKEN_INVALID \<Rightarrow> Some (None, error_set ''invalid token'' l)
     | TOKEN_EOF \<Rightarrow> Some (None, error_set ''unexpected token'' l))"

declare parse_value.simps(2) [simp del]

definition parse_json :: "nat \<Rightarrow> nat \<Rightarrow> lex \<Rightarrow> (json option \<times> lex) option" where
  "parse_json fuel flags l =
    (let l = lex_scan l in
     if \<not> flag_set flags JSON_DECODE_ANY \<and> token l \<noteq> TOKEN_CHAR (CHR ''['') \<and> token l \<noteq> TOKEN_CHAR (CHR ''{'') then
       Some (None, error_set (quoted ''['' @ '' or '' @ quoted ''{'' @ '' expected'') l)
     else
       (case parse_value flags fuel l of
          None \<Rightarrow> None
        | Some (None, l) \<Rightarrow> Some (None, l)
        | Some (Some v, l) \<Rightarrow>
            let l = (if flag_set flags JSON_DISABLE_EOF_CHECK then l else lex_scan l) in
            if \<not> flag_set flags JSON_DISABLE_EOF_CHECK \<and> token l \<noteq> TOKEN_EOF then
              Some (None, error_set ''end of file expected'' l)
            else Some (Some v, l\<lparr>lex_error := map_option (err_position_update (\<lambda>_. sposition l)) (lex_error l)\<rparr>)))"

text \<open>The fuel of a whole text.\<close>

definition json_fuel :: "string \<Rightarrow> nat" where
  "json_fuel s = Suc (length s)"

definition json_load_bytes :: "string \<Rightarrow> string \<Rightarrow> nat \<Rightarrow> json_error option \<Rightarrow> (json option \<times> json_error option) option" where
  "json_load_bytes source data flags err =
    (case parse_json (json_fuel data) flags (lex_init data (map_option (\<lambda>_. jsonp_error_init source) err)) of
       None \<Rightarrow> None
     | Some (v, l) \<Rightarrow> Some (v, lex_error l))"

text \<open>Parsing a C string, which ends at its first zero byte; the third argument is the error record of the
  caller, \<open>None\<close> for a null pointer.\<close>

definition json_loads :: "string option \<Rightarrow> nat \<Rightarrow> json_error option \<Rightarrow> (json option \<times> json_error option) option" where
  "json_loads str flags err =
    (case str of
       None \<Rightarrow> Some (None, map_option (\<lambda>_. jsonp_error_vset (jsonp_error_init ''<string>'') (-1) (-1) 0 ''wrong arguments'') err)
     | Some s \<Rightarrow> json_load_bytes ''<string>'' (takeWhile (\<lambda>c. c \<noteq> NUL) s) flags err)"

text \<open>Parsing a file; the argument \<open>fopen\<close> is the file system, which gives the bytes of a file or the text of
  its error.\<close>

definition json_load_file :: "(string \<Rightarrow> string + string) \<Rightarrow> string option \<Rightarrow> nat \<Rightarrow> json_error option
    \<Rightarrow> (json option \<times> json_error option) option" where
  "json_load_file fopen path flags err =
    (case path of
       None \<Rightarrow> Some (None, map_option (\<lambda>_. jsonp_error_vset (jsonp_error_init []) (-1) (-1) 0 ''wrong arguments'') err)
     | Some p \<Rightarrow>
         (case fopen p of
            Inl strerror \<Rightarrow>
              Some (None, map_option (\<lambda>_. jsonp_error_vset (jsonp_error_init p) (-1) (-1) 0
                (take 159 (''unable to open '' @ p @ '': '' @ strerror))) err)
          | Inr bytes \<Rightarrow> json_load_bytes ''<stream>'' bytes flags err))"

text \<open>The parser as the miner calls it, without flags; the record of the error only goes to the log.\<close>

definition JSON_LOADS :: "string \<Rightarrow> json option" where
  "JSON_LOADS str = Option.bind (json_loads (Some str) 0 None) fst"

definition JSON_LOADF :: "(string \<Rightarrow> string + string) \<Rightarrow> string \<Rightarrow> json option" where
  "JSON_LOADF fopen path = Option.bind (json_load_file fopen (Some path) 0 None) fst"

section \<open>A token consumes input\<close>

lemma unget_rem: "lex_rem (stream_unget c l) \<le> lex_rem l + got_size c"
proof (cases c)
  case (Byte b)
  have f: "sdata (stream_unget c l) = sdata l" "sbuffer (stream_unget c l) = sbuffer l"
    "sbuffer_pos (stream_unget c l) = sbuffer_pos l - 1" "sstate (stream_unget c l) = sstate l"
    by (simp_all add: Byte stream_unget_def Let_def)
  have "length (takeWhile (\<lambda>c. c \<noteq> NUL) (drop (sbuffer_pos l - 1) (sbuffer l)))
      \<le> Suc (length (takeWhile (\<lambda>c. c \<noteq> NUL) (drop (sbuffer_pos l) (sbuffer l))))"
  proof (cases "sbuffer_pos l")
    case (Suc n)
    then show ?thesis by (cases "n < length (sbuffer l)") (auto simp: Cons_nth_drop_Suc [symmetric])
  qed simp
  then show ?thesis by (simp add: lex_rem_def lex_pending_def f [unfolded Byte] Byte)
qed (simp_all add: stream_unget_def)

lemma unget_unsave_rem: "lex_rem (lex_unget_unsave c l) \<le> lex_rem l + got_size c"
  using unget_rem [of c l] by (cases c) (simp_all add: lex_unget_unsave_def Let_def)

lemma take_while_rem: "lex_take_while p c l = (c', l') \<Longrightarrow> lex_rem l' + got_size c' \<le> lex_rem l + got_size c"
proof (induction p c l rule: lex_take_while.induct)
  case (1 p c l)
  obtain c1 l1 where g: "lex_get_save l = (c1, l1)" by fastforce
  show ?case
  proof (cases "got_is p c")
    case True
    then have "lex_take_while p c1 l1 = (c', l')" using 1(2) g by (subst (asm) lex_take_while.simps) simp
    then show ?thesis using 1(1) [OF True g [symmetric]] lex_get_save_rem [OF g] by simp
  next
    case False
    then show ?thesis using 1(2) by (subst (asm) lex_take_while.simps) simp
  qed
qed

lemma skip_space_rem: "lex_skip_space c l = (c', l') \<Longrightarrow> lex_rem l' + got_size c' \<le> lex_rem l + got_size c"
proof (induction c l rule: lex_skip_space.induct)
  case (1 c l)
  obtain c1 l1 where g: "stream_get l = (c1, l1)" by fastforce
  show ?case
  proof (cases "got_is is_space c")
    case True
    then have "lex_skip_space c1 l1 = (c', l')" using 1(2) g by (subst (asm) lex_skip_space.simps) simp
    then show ?thesis using 1(1) [OF True g [symmetric]] stream_get_rem [OF g] by simp
  next
    case False
    then show ?thesis using 1(2) by (subst (asm) lex_skip_space.simps) simp
  qed
qed

lemma take_while_step_rem:
  assumes "lex_take_while p c l = (c', l')" "got_is p c"
  shows "lex_rem l' + got_size c' \<le> lex_rem l"
proof -
  obtain c1 l1 where g: "lex_get_save l = (c1, l1)" by fastforce
  have "lex_take_while p c1 l1 = (c', l')" using assms g by (subst (asm) lex_take_while.simps) simp
  from take_while_rem [OF this] lex_get_save_rem [OF g] show ?thesis by simp
qed

text \<open>The bytes that a scanner state and the byte after a part of a number stand for.\<close>

fun part_rem :: "got option \<times> lex \<Rightarrow> nat" where
  "part_rem (Some c, l) = lex_rem l + got_size c"
| "part_rem (None, l) = lex_rem l"

lemma int_part_rem:
  "part_rem (lex_int_part c l) \<le> lex_rem l + got_size c"
  "lex_int_part c l = (Some c', l') \<Longrightarrow> lex_rem l' + got_size c' \<le> lex_rem l"
proof -
  obtain c1 l1 where g: "lex_get_save l = (c1, l1)" by fastforce
  show "part_rem (lex_int_part c l) \<le> lex_rem l + got_size c"
    using lex_get_save_rem [OF g] unget_unsave_rem [of c1 l1] unget_unsave_rem [of c l]
    by (auto simp: lex_int_part_def g split: prod.split dest: take_while_rem)
  show "lex_int_part c l = (Some c', l') \<Longrightarrow> lex_rem l' + got_size c' \<le> lex_rem l"
    using lex_get_save_rem [OF g]
    by (auto simp: lex_int_part_def g split: prod.splits if_splits dest: take_while_step_rem)
qed

lemma fraction_rem: "part_rem (lex_fraction c l) \<le> lex_rem l + got_size c"
proof -
  obtain c1 l1 where g: "stream_get l = (c1, l1)" by fastforce
  show ?thesis
  proof (cases c1)
    case (Byte b)
    obtain c2 l2 where h: "lex_get_save (lex_save b l1) = (c2, l2)" by fastforce
    obtain c3 l3 where k: "lex_take_while l_isdigit c2 l2 = (c3, l3)" by fastforce
    show ?thesis
      using stream_get_rem [OF g] lex_get_save_rem [OF h] take_while_rem [OF k] unget_rem [of c1 l1]
      by (simp add: lex_fraction_def g Byte h k)
  qed (use stream_get_rem [OF g] in \<open>simp_all add: lex_fraction_def g\<close>)
qed

lemma exponent_rem: "part_rem (lex_exponent c l) \<le> lex_rem l + got_size c"
proof -
  obtain c1 l1 where g: "lex_get_save l = (c1, l1)" by fastforce
  obtain c2 l2 where h: "(if c1 = Byte (CHR ''+'') \<or> c1 = Byte (CHR ''-'') then lex_get_save l1 else (c1, l1)) = (c2, l2)" by fastforce
  have h': "lex_rem l2 + got_size c2 \<le> lex_rem l1 + got_size c1"
    using h lex_get_save_rem [of l1 c2 l2] by (auto split: if_splits)
  obtain c3 l3 where k: "lex_take_while l_isdigit c2 l2 = (c3, l3)" by fastforce
  show ?thesis
    using lex_get_save_rem [OF g] h' take_while_rem [OF k] unget_unsave_rem [of c2 l2]
    by (simp add: lex_exponent_def g h k)
qed

lemma finish_rem [simp]: "lex_rem (lex_finish_integer l) = lex_rem l" "lex_rem (lex_finish_real l) = lex_rem l"
  by (simp_all add: lex_finish_integer_def lex_finish_real_def Let_def split: option.split)

text \<open>A token that can begin or end a part of a value.\<close>

definition live :: "lex \<Rightarrow> bool" where
  "live l \<longleftrightarrow> token l \<noteq> TOKEN_INVALID \<and> token l \<noteq> TOKEN_EOF"

lemma stream_get_token: "stream_get l = (c, l') \<Longrightarrow> token l' = token l"
  using stream_next_fields
  by (fastforce simp: stream_get_def stream_fill_def stream_fail_def Let_def split: stream_state.splits if_splits sum.splits list.splits prod.splits)

lemma unget_token [simp]: "token (stream_unget c l) = token l" "token (lex_unget_unsave c l) = token l"
  by (simp_all add: stream_unget_def lex_unget_unsave_def Let_def split: got.split)

lemma get_save_token: "lex_get_save l = (c, l') \<Longrightarrow> token l' = token l"
  using stream_get_token by (fastforce simp: lex_get_save_def lex_save_def split: prod.splits got.splits)

lemma take_while_token: "lex_take_while p c l = (c', l') \<Longrightarrow> token l' = token l"
proof (induction p c l rule: lex_take_while.induct)
  case (1 p c l)
  obtain c1 l1 where g: "lex_get_save l = (c1, l1)" by fastforce
  show ?case
    using 1(2) 1(1) [OF _ g [symmetric]] get_save_token [OF g] by (subst (asm) lex_take_while.simps) (auto simp: g split: if_splits)
qed

lemma part_token:
  "token (snd (lex_int_part c l)) = token l" "token (snd (lex_fraction c l)) = token l" "token (snd (lex_exponent c l)) = token l"
proof -
  show "token (snd (lex_int_part c l)) = token l"
    by (auto simp: lex_int_part_def split: prod.split dest: get_save_token take_while_token)
  show "token (snd (lex_fraction c l)) = token l"
    by (fastforce simp: lex_fraction_def lex_save_def split: prod.split got.split
      dest: stream_get_token get_save_token take_while_token)
  show "token (snd (lex_exponent c l)) = token l"
    by (fastforce simp: lex_exponent_def split: prod.split if_splits dest: get_save_token take_while_token)
qed

lemma scan_number_rem:
  "lex_rem (lex_scan_number c l) \<le> lex_rem l + got_size c \<and> (live (lex_scan_number c l) \<longrightarrow> lex_rem (lex_scan_number c l) \<le> lex_rem l)"
proof -
  obtain c1 l1 where a: "(if c = Byte (CHR ''-'') then lex_get_save (l\<lparr>token := TOKEN_INVALID\<rparr>) else (c, l\<lparr>token := TOKEN_INVALID\<rparr>)) = (c1, l1)"
    by fastforce
  have r1: "lex_rem l1 + got_size c1 \<le> lex_rem l + got_size c" "lex_rem l1 \<le> lex_rem l" and t1: "token l1 = TOKEN_INVALID"
    using a lex_get_save_rem [of "l\<lparr>token := TOKEN_INVALID\<rparr>" c1 l1] get_save_token [of "l\<lparr>token := TOKEN_INVALID\<rparr>" c1 l1] by (auto split: if_splits)
  obtain o2 l2 where b: "lex_int_part c1 l1 = (o2, l2)" by fastforce
  have r2: "part_rem (o2, l2) \<le> lex_rem l1 + got_size c1" "\<And>c2. o2 = Some c2 \<Longrightarrow> lex_rem l2 + got_size c2 \<le> lex_rem l1"
    and t2: "token l2 = TOKEN_INVALID"
    using int_part_rem [of c1 l1] part_token(1) [of c1 l1] t1 by (simp_all add: b)
  show ?thesis
  proof (cases o2)
    case None
    then show ?thesis using r1 r2 t2 by (simp add: lex_scan_number_def a b live_def)
  next
    case (Some c2)
    obtain o3 l3 where e: "lex_fraction c2 l2 = (o3, l3)" by fastforce
    have r3: "part_rem (o3, l3) \<le> lex_rem l2 + got_size c2" using fraction_rem [of c2 l2] by (simp add: e)
    have "lex_rem (lex_scan_number c l) \<le> lex_rem l2 + got_size c2"
    proof (cases "c2 \<noteq> Byte (CHR ''.'') \<and> c2 \<noteq> Byte (CHR ''E'') \<and> c2 \<noteq> Byte (CHR ''e'')")
      case True
      then show ?thesis using unget_unsave_rem [of c2 l2] by (simp add: lex_scan_number_def a b Some)
    next
      case False
      then have s: "lex_scan_number c l =
          (case o3 of None \<Rightarrow> l3 | Some c3 \<Rightarrow> (case lex_exponent c3 l3 of (None, l) \<Rightarrow> l | (Some c, l) \<Rightarrow> lex_finish_real (lex_unget_unsave c l)))"
        by (simp add: lex_scan_number_def a b Some Let_def split del: if_split) (auto simp: e)
      show ?thesis
      proof (cases o3)
        case None
        then show ?thesis using r3 by (simp add: s)
      next
        case (Some c3)
        obtain o4 l4 where x: "lex_exponent c3 l3 = (o4, l4)" by fastforce
        have "part_rem (o4, l4) \<le> lex_rem l2 + got_size c2" using exponent_rem [of c3 l3] r3 by (simp add: x Some)
        then show ?thesis using unget_unsave_rem [of "the o4" l4] by (cases o4) (simp_all add: s x Some)
      qed
    qed
    then show ?thesis using r1 r2(2) [OF Some] by simp
  qed
qed

lemma scan_hex_part_rem: "part_rem (lex_scan_hex i c l) \<le> lex_rem l + got_size c"
proof (induction i c l rule: lex_scan_hex.induct)
  case (2 i c l)
  obtain c1 l1 where g: "lex_get_save l = (c1, l1)" by fastforce
  show ?case using 2 [OF _ g [symmetric]] lex_get_save_rem [OF g] by (fastforce simp: g)
qed simp

lemma string_chars_rem: "lex_string_chars c l = (b, l') \<Longrightarrow> lex_rem l' \<le> lex_rem l + got_size c"
proof (induction c l rule: lex_string_chars.induct)
  case (1 c l)
  note IH = this
  obtain c1 l1 where g: "lex_get_save l = (c1, l1)" by fastforce
  obtain c2 l2 where h: "lex_get_save l1 = (c2, l2)" by fastforce
  note r = lex_get_save_rem [OF g] lex_get_save_rem [OF h]
  consider "c = Byte quote_char \<or> c = Got_ERROR \<or> c = Got_EOF" | x where "c = Byte x" "x \<noteq> quote_char" "code x \<le> 31"
    | "c = Byte backslash" | x where "c = Byte x" "x \<noteq> quote_char" "\<not> code x \<le> 31" "x \<noteq> backslash"
    by (cases c) auto
  then show ?case
  proof cases
    case 1
    then show ?thesis using IH(4) by (subst (asm) lex_string_chars.simps) auto
  next
    case 2
    then show ?thesis using IH(4) unget_unsave_rem [of c l] by (subst (asm) lex_string_chars.simps) (auto simp: got_is_def)
  next
    case 3
    then have q: "c \<noteq> Byte quote_char" "c \<noteq> Got_ERROR" "c \<noteq> Got_EOF" "\<not> got_is (\<lambda>b. code b \<le> 31) c" by (simp_all add: got_is_def)
    show ?thesis
    proof (cases "c1 = Byte (CHR ''u'')")
      case True
      obtain o3 l3 where k: "lex_scan_hex 4 c2 l2 = (o3, l3)" by fastforce
      note k' = scan_hex_part_rem [of 4 c2 l2, unfolded k]
      show ?thesis
      proof (cases o3)
        case None
        then show ?thesis using IH(4) k' r by (subst (asm) lex_string_chars.simps) (auto simp: 3 g h k True got_is_def)
      next
        case (Some c3)
        then have "lex_string_chars c3 l3 = (b, l')"
          using IH(4) by (subst (asm) lex_string_chars.simps) (simp add: 3 g h k True got_is_def)
        then show ?thesis
          using IH(1) [OF q 3 g [symmetric] True h [symmetric] k [symmetric] Some] k' r Some by simp
      qed
    next
      case False
      show ?thesis
      proof (cases "got_is escape_char c1")
        case True
        then have "lex_string_chars c2 l2 = (b, l')"
          using IH(4) False by (subst (asm) lex_string_chars.simps) (simp add: 3 g h got_is_def)
        then show ?thesis using IH(2) [OF q 3 g [symmetric] False True h [symmetric]] r by simp
      next
        case no: False
        then show ?thesis using IH(4) False r by (subst (asm) lex_string_chars.simps) (auto simp: 3 g got_is_def)
      qed
    qed
  next
    case 4
    then have q: "c \<noteq> Byte quote_char" "c \<noteq> Got_ERROR" "c \<noteq> Got_EOF" "\<not> got_is (\<lambda>b. code b \<le> 31) c" "c \<noteq> Byte backslash" by (simp_all add: got_is_def)
    then have "lex_string_chars c1 l1 = (b, l')" using IH(4) by (subst (asm) lex_string_chars.simps) (simp add: g)
    then show ?thesis using IH(3) [OF q g [symmetric]] r by simp
  qed
qed

lemma scan_string_rem: "lex_rem (lex_scan_string l) \<le> lex_rem l"
proof -
  obtain c1 l1 where g: "lex_get_save (l\<lparr>token := TOKEN_INVALID\<rparr>) = (c1, l1)" by fastforce
  obtain b l2 where h: "lex_string_chars c1 l1 = (b, l2)" by fastforce
  have "lex_rem l2 \<le> lex_rem l" using lex_get_save_rem [OF g] string_chars_rem [OF h] by simp
  then show ?thesis by (auto simp: lex_scan_string_def g h split: bool.split unescaped.split)
qed

lemma scan_word_rem: "lex_rem (lex_scan_word l) \<le> lex_rem l"
proof -
  obtain c1 l1 where g: "lex_get_save l = (c1, l1)" by fastforce
  obtain c2 l2 where h: "lex_take_while l_isalpha c1 l1 = (c2, l2)" by fastforce
  show ?thesis using lex_get_save_rem [OF g] take_while_rem [OF h] unget_unsave_rem [of c2 l2] by (simp add: lex_scan_word_def g h Let_def)
qed

lemma takeWhile_dropWhile_Nil: "takeWhile p (dropWhile p xs) = []"
  by (induction xs) auto

lemma save_cached_rem: "lex_rem (lex_save_cached l) \<le> lex_rem l"
proof -
  let ?b = "drop (sbuffer_pos l) (sbuffer l)" and ?p = "\<lambda>c. c \<noteq> NUL"
  have "drop (sbuffer_pos l + length (takeWhile ?p ?b)) (sbuffer l) = dropWhile ?p ?b"
    by (simp add: dropWhile_eq_drop add.commute)
  then show ?thesis by (simp add: lex_save_cached_def lex_rem_def lex_pending_def Let_def takeWhile_dropWhile_Nil)
qed

text \<open>The input left, counted with the current token.\<close>

definition lex_meas :: "lex \<Rightarrow> nat" where
  "lex_meas l = lex_rem l + (if live l then 1 else 0)"

lemma lex_scan_meas: "lex_meas (lex_scan l) \<le> lex_rem l"
proof -
  obtain c1 l1 where g: "stream_get (l\<lparr>saved_text := []\<rparr>) = (c1, l1)" by fastforce
  obtain c2 l2 where h: "lex_skip_space c1 l1 = (c2, l2)" by fastforce
  have r: "lex_rem l2 + got_size c2 \<le> lex_rem l" using stream_get_rem [OF g] skip_space_rem [OF h] by simp
  show ?thesis
  proof (cases c2)
    case (Byte b)
    define l3 where "l3 = lex_save b l2"
    have r3: "Suc (lex_rem l3) \<le> lex_rem l" using r by (simp add: l3_def Byte)
    have parts: "lex_meas (lex_scan_string l3) \<le> Suc (lex_rem l3)" "lex_meas (lex_scan_word l3) \<le> Suc (lex_rem l3)"
      "lex_meas (lex_scan_number (Byte b) l3) \<le> Suc (lex_rem l3)"
      "lex_meas ((lex_save_cached l3)\<lparr>token := TOKEN_INVALID\<rparr>) \<le> Suc (lex_rem l3)"
      "lex_meas (l3\<lparr>token := TOKEN_CHAR b\<rparr>) \<le> Suc (lex_rem l3)"
      using scan_string_rem [of l3] scan_number_rem [of "Byte b" l3] scan_word_rem [of l3] save_cached_rem [of l3]
      by (simp_all add: lex_meas_def)
    have "lex_meas (if structural b then l3\<lparr>token := TOKEN_CHAR b\<rparr> else if b = quote_char then lex_scan_string l3
        else if l_isdigit b \<or> b = CHR ''-'' then lex_scan_number (Byte b) l3 else if l_isalpha b then lex_scan_word l3
        else (lex_save_cached l3)\<lparr>token := TOKEN_INVALID\<rparr>) \<le> lex_rem l"
      using parts [THEN le_trans, OF r3]
      by (cases "structural b"; cases "b = quote_char"; cases "l_isdigit b \<or> b = CHR ''-''"; cases "l_isalpha b"; simp only: if_True if_False simp_thms)
    then show ?thesis by (simp only: lex_scan_def g h Byte l3_def Let_def prod.case got.case)
  qed (use r in \<open>simp_all add: lex_scan_def g h lex_meas_def live_def\<close>)
qed

section \<open>The parser ends\<close>

text \<open>A parser ends on the states with at most \<open>k\<close> bytes and does not give bytes back.\<close>

definition ends_below :: "nat \<Rightarrow> parser \<Rightarrow> bool" where
  "ends_below k pv \<longleftrightarrow> (\<forall>l. lex_meas l \<le> k \<longrightarrow> (\<exists>v l'. pv l = Some (v, l') \<and> lex_rem l' \<le> lex_meas l))"

lemma meas_rem: "lex_rem l \<le> lex_meas l"
  by (simp add: lex_meas_def)

lemma scan_rem: "lex_rem (lex_scan l) \<le> lex_rem l" "live (lex_scan l) \<Longrightarrow> lex_rem (lex_scan l) < lex_rem l"
  using lex_scan_meas [of l] by (simp_all add: lex_meas_def split: if_splits)

lemma live_char [simp]: "token l = TOKEN_CHAR c \<Longrightarrow> live l" "token l = TOKEN_STRING s \<Longrightarrow> live l"
  by (simp_all add: live_def)

lemma array_loop_ends:
  assumes "ends_below k pv" "lex_meas l \<le> k" "lex_meas l < n"
  shows "\<exists>v l'. parse_array_loop pv n array l = Some (v, l') \<and> lex_rem l' \<le> lex_meas l"
  using assms(2,3)
proof (induction n arbitrary: array l)
  case (Suc n)
  obtain v l1 where p: "pv l = Some (v, l1)" "lex_rem l1 \<le> lex_meas l"
    using assms(1) Suc.prems(1) unfolding ends_below_def by blast
  show ?case
  proof (cases v)
    case None
    then show ?thesis using p meas_rem [of l] by simp
  next
    case (Some x)
    define l2 where "l2 = lex_scan l1"
    have r2: "lex_rem l2 \<le> lex_rem l1" using scan_rem(1) by (simp add: l2_def)
    show ?thesis
    proof (cases "token l2 = TOKEN_CHAR (CHR '','')")
      case True
      then have "lex_rem l2 < lex_rem l1" using scan_rem(2) [of l1] by (simp add: l2_def)
      then have lt: "lex_meas (lex_scan l2) < lex_meas l" using lex_scan_meas [of l2] p(2) by simp
      obtain v' l' where "parse_array_loop pv n (array @ [x]) (lex_scan l2) = Some (v', l')"
        "lex_rem l' \<le> lex_meas (lex_scan l2)"
        using Suc.IH [of "lex_scan l2" "array @ [x]"] lt Suc.prems by auto
      then show ?thesis using p Some True lt meas_rem [of l] by (simp add: l2_def [symmetric] Let_def)
    next
      case False
      then show ?thesis using p Some r2 meas_rem [of l] by (auto simp: l2_def [symmetric] Let_def)
    qed
  qed
qed simp

lemma object_loop_ends:
  assumes "ends_below k pv" "lex_meas l \<le> k" "lex_meas l < n"
  shows "\<exists>v l'. parse_object_loop pv flags n object l = Some (v, l') \<and> lex_rem l' \<le> lex_meas l"
  using assms(2,3)
proof (induction n arbitrary: object l)
  case (Suc n)
  show ?case
  proof (cases "\<exists>key. token l = TOKEN_STRING key")
    case False
    then show ?thesis using meas_rem [of l] by (simp split: token.split)
  next
    case True
    then obtain key where key: "token l = TOKEN_STRING key" by blast
    define l1 where "l1 = lex_scan l"
    define l2 where "l2 = lex_scan l1"
    have r: "lex_meas l2 \<le> lex_rem l1" "lex_rem l1 \<le> lex_rem l" "lex_rem l < lex_meas l"
      using lex_scan_meas [of l1] scan_rem(1) [of l] key by (simp_all add: l1_def l2_def lex_meas_def [of l])
    obtain v l3 where p: "pv l2 = Some (v, l3)" "lex_rem l3 \<le> lex_meas l2"
      using assms(1) Suc.prems(1) r unfolding ends_below_def by (meson le_trans less_imp_le_nat)
    define l4 where "l4 = lex_scan l3"
    have r4: "lex_rem l4 \<le> lex_rem l3" using scan_rem(1) by (simp add: l4_def)
    have m: "lex_meas (lex_scan l4) \<le> lex_rem l4" by (rule lex_scan_meas)
    have lt: "lex_meas (lex_scan l4) < lex_meas l" using m r4 p(2) r by simp
    have IH: "\<exists>v' l'. parse_object_loop pv flags n ob (lex_scan l4) = Some (v', l') \<and> lex_rem l' \<le> lex_meas l" for ob
      using Suc.IH [of "lex_scan l4" ob] lt Suc.prems by fastforce
    show ?thesis
      using p r r4 IH by (auto simp: key Let_def l1_def [symmetric] l2_def [symmetric] l4_def [symmetric] split: option.split)
  qed
qed simp

lemma parse_value_ends: "ends_below n (parse_value flags (Suc n))"
proof (induction n)
  case 0
  show ?case by (auto simp: ends_below_def lex_meas_def live_def parse_value.simps(2) split: if_splits)
next
  case (Suc n)
  let ?pv = "\<lambda>l. parse_value flags (Suc n) l"
  have "\<exists>v l'. parse_value flags (Suc (Suc n)) l = Some (v, l') \<and> lex_rem l' \<le> lex_meas l" if m: "lex_meas l \<le> Suc n" for l
  proof (cases "\<exists>c. token l = TOKEN_CHAR c")
    case False
    then show ?thesis using meas_rem [of l] by (simp add: parse_value.simps(2) split: token.split option.split)
  next
    case True
    then obtain c where c: "token l = TOKEN_CHAR c" by blast
    define l1 where "l1 = lex_scan l"
    have r: "lex_meas l1 \<le> lex_rem l" "lex_meas l = Suc (lex_rem l)" "lex_rem l1 \<le> lex_rem l"
      using lex_scan_meas [of l] scan_rem(1) [of l] c by (simp_all add: l1_def lex_meas_def [of l])
    have "\<exists>v l'. parse_object ?pv flags (Suc n) l = Some (v, l') \<and> lex_rem l' \<le> lex_meas l"
      using object_loop_ends [OF Suc, of l1 "Suc n" flags "JObject []"] r m by (auto simp: parse_object_def l1_def [symmetric] Let_def)
    moreover have "\<exists>v l'. parse_array ?pv (Suc n) l = Some (v, l') \<and> lex_rem l' \<le> lex_meas l"
      using array_loop_ends [OF Suc, of l1 "Suc n" "[]"] r m by (auto simp: parse_array_def l1_def [symmetric] Let_def)
    ultimately show ?thesis
      using meas_rem [of l] unfolding parse_value.simps(2) [of flags "Suc n" l] c token.case by simp
  qed
  then show ?case by (simp add: ends_below_def)
qed

lemma parse_json_ends: "lex_rem l < n \<Longrightarrow> \<exists>v l'. parse_json n flags l = Some (v, l')"
proof -
  assume n: "lex_rem l < n"
  then obtain k where k: "n = Suc k" by (cases n) auto
  have "lex_meas (lex_scan l) \<le> k" using lex_scan_meas [of l] n k by simp
  then obtain v l' where "parse_value flags n (lex_scan l) = Some (v, l')"
    using parse_value_ends [of k flags] unfolding ends_below_def k by blast
  then show ?thesis by (simp add: parse_json_def Let_def split: option.split)
qed

section \<open>Properties\<close>

text \<open>C34: the parser ends on every input, well formed or not and whatever the flags, with a value or with
  an error record; the recursion is never deeper than the text is long.\<close>

theorem json_loads_ends: "\<exists>v e. json_loads str flags err = Some (v, e)"
proof (cases str)
  case (Some s)
  let ?t = "takeWhile (\<lambda>c. c \<noteq> NUL) s"
  have "lex_rem (lex_init ?t e) < json_fuel ?t" for e
    by (simp add: lex_rem_def lex_pending_def lex_init_def json_fuel_def)
  from parse_json_ends [OF this] show ?thesis by (simp add: json_loads_def json_load_bytes_def Some) (metis (no_types, lifting) option.simps(5) case_prod_conv)
qed (simp add: json_loads_def)

end
