(* ===== verification/Json_Dump.thy ===== *)
theory Json_Dump
  imports Json_Load "HOL-Library.List_Lexorder"
begin

text \<open>
  The printer of the bundled Jansson library (\<^verbatim>\<open>compat/jansson/dump.c\<close>), the printing of reals of
  \<^verbatim>\<open>strconv.c\<close> and the comparison of values of \<^verbatim>\<open>value.c\<close>. The order in which an object is visited
  when the flags ask for none is that of its hash table; it is the argument \<open>it\<close>, which the theory
  \<^verbatim>\<open>Hashtable\<close> provides. Values are trees, so the check for circular references never fires.
\<close>

unbundle bit_operations_syntax

section \<open>Numbers\<close>

text \<open>The format \<^verbatim>\<open>%.17g\<close> of the C library: the value rounded to 17 digits, in the style of \<^verbatim>\<open>%e\<close> when its
  exponent is below -4 or above 16, without trailing zeros.\<close>

definition ilog10 :: "rat \<Rightarrow> int" where
  "ilog10 x =
    (case quotient_of x of (p, q) \<Rightarrow>
      let e = int (length (dec_nat (nat p))) - int (length (dec_nat (nat q))) in if scale 10 e \<le> x then e else e - 1)"

definition sig_digits :: "rat \<Rightarrow> int \<times> string" where
  "sig_digits x =
    (let e = ilog10 x; m = round_even (x / scale 10 (e - 16)) in
     if m = 10 ^ 17 then (e + 1, dec_nat (10 ^ 16)) else (e, dec_nat (nat m)))"

definition strip_zeros :: "string \<Rightarrow> string" where
  "strip_zeros ds = rev (dropWhile (\<lambda>c. c = CHR ''0'') (rev ds))"

definition point_digits :: "string \<Rightarrow> string" where
  "point_digits fs = (if strip_zeros fs = [] then [] else CHR ''.'' # strip_zeros fs)"

definition fmt_g_pos :: "rat \<Rightarrow> string" where
  "fmt_g_pos x =
    (case sig_digits x of (e, ds) \<Rightarrow>
      if e < -4 \<or> 17 \<le> e then
        take 1 ds @ point_digits (drop 1 ds) @ ''e'' @ (if e < 0 then ''-'' else ''+'') @ pad_zeros 2 (dec_nat (nat \<bar>e\<bar>))
      else if e < 0 then ''0'' @ point_digits (replicate (nat (- e) - 1) (CHR ''0'') @ ds)
      else take (nat e + 1) ds @ point_digits (drop (nat e + 1) ds))"

fun fmt_g :: "double \<Rightarrow> string" where
  "fmt_g (DZero neg) = (if neg then ''-0'' else ''0'')"
| "fmt_g (DFin x) = (if x < 0 then ''-'' else []) @ fmt_g_pos \<bar>x\<bar>"
| "fmt_g (DInf neg) = (if neg then ''-inf'' else ''inf'')"
| "fmt_g DNaN = ''nan''"

text \<open>A dot or an exponent marks a real; the plus sign and the leading zeros of an exponent are removed.\<close>

definition trim_exponent :: "string \<Rightarrow> string" where
  "trim_exponent buffer =
    (case dropWhile (\<lambda>c. c \<noteq> CHR ''e'') buffer of
       e # sg # ds \<Rightarrow>
         takeWhile (\<lambda>c. c \<noteq> CHR ''e'') buffer @ e # (if sg = CHR ''-'' then [sg] else []) @ dropWhile (\<lambda>c. c = CHR ''0'') ds
     | _ \<Rightarrow> buffer)"

definition jsonp_dtostr :: "nat \<Rightarrow> double \<Rightarrow> string option" where
  "jsonp_dtostr n value =
    (let buffer = fmt_g value; len = length buffer in
     if n \<le> len then None
     else if CHR ''.'' \<notin> set buffer \<and> CHR ''e'' \<notin> set buffer then
       if n \<le> len + 3 then None else Some (buffer @ ''.0'')
     else Some (trim_exponent buffer))"

section \<open>Printing\<close>

definition JSON_INDENT :: "nat \<Rightarrow> nat" where "JSON_INDENT n = (n AND 0x1F)"
definition JSON_COMPACT :: nat where "JSON_COMPACT = 0x20"
definition JSON_ENSURE_ASCII :: nat where "JSON_ENSURE_ASCII = 0x40"
definition JSON_SORT_KEYS :: nat where "JSON_SORT_KEYS = 0x80"
definition JSON_PRESERVE_ORDER :: nat where "JSON_PRESERVE_ORDER = 0x100"
definition JSON_ENCODE_ANY :: nat where "JSON_ENCODE_ANY = 0x200"
definition JSON_ESCAPE_SLASH :: nat where "JSON_ESCAPE_SLASH = 0x400"

definition dump_indent :: "nat \<Rightarrow> nat \<Rightarrow> bool \<Rightarrow> string" where
  "dump_indent flags depth space =
    (if 0 < JSON_INDENT flags then newline # concat (replicate depth (replicate (JSON_INDENT flags) (chr 32)))
     else if space \<and> \<not> flag_set flags JSON_COMPACT then [chr 32]
     else [])"

definition needs_escape :: "nat \<Rightarrow> nat \<Rightarrow> bool" where
  "needs_escape flags codepoint \<longleftrightarrow>
    codepoint = code backslash \<or> codepoint = code quote_char \<or> codepoint < 0x20 \<or>
    flag_set flags JSON_ESCAPE_SLASH \<and> codepoint = 47 \<or>
    flag_set flags JSON_ENSURE_ASCII \<and> codepoint > 0x7F"

definition escape_text :: "nat \<Rightarrow> string" where
  "escape_text codepoint =
    (if codepoint = 92 then [backslash, backslash]
     else if codepoint = 34 then [backslash, quote_char]
     else if codepoint = 8 then [backslash, CHR ''b'']
     else if codepoint = 12 then [backslash, CHR ''f'']
     else if codepoint = 10 then [backslash, CHR ''n'']
     else if codepoint = 13 then [backslash, CHR ''r'']
     else if codepoint = 9 then [backslash, CHR ''t'']
     else if codepoint = 47 then [backslash, CHR ''/'']
     else if codepoint < 0x10000 then backslash # CHR ''u'' # hex04 codepoint
     else
       let cp = codepoint - 0x10000;
           first = 0xD800 OR drop_bit 10 (cp AND 0xffc00);
           last = 0xDC00 OR (cp AND 0x003ff)
       in backslash # CHR ''u'' # hex04 first @ backslash # CHR ''u'' # hex04 last)"

text \<open>The loop of \<^verbatim>\<open>dump_string\<close>: \<open>run\<close> is the text read but not yet written. The result is what has been
  written, and whether the string was well formed to its end.\<close>

function dump_chars :: "nat \<Rightarrow> string \<Rightarrow> string \<Rightarrow> string \<times> bool" where
  "dump_chars flags run s =
    (case utf8_iterate s of
       None \<Rightarrow> ([], False)
     | Some (r, None) \<Rightarrow> (run, True)
     | Some (r, Some codepoint) \<Rightarrow>
         if s = [] then (run, True)
         else if needs_escape flags codepoint then
           (case dump_chars flags [] r of (t, ok) \<Rightarrow> (run @ escape_text codepoint @ t, ok))
         else dump_chars flags (run @ take (length s - length r) s) r)"
  by auto
termination
proof (relation "measure (\<lambda>(flags, run, s). length s)", goal_cases)
  case (2 flags run s x r y codepoint)
  then show ?case using utf8_iterate_shorter [of "hd s" "tl s" r "Some codepoint"] by (cases s) auto
next
  case (3 flags run s x r y codepoint)
  then show ?case using utf8_iterate_shorter [of "hd s" "tl s" r "Some codepoint"] by (cases s) auto
qed simp

declare dump_chars.simps [simp del]

definition dump_string :: "nat \<Rightarrow> string \<Rightarrow> string \<times> bool" where
  "dump_string flags str =
    (case dump_chars flags [] str of (t, ok) \<Rightarrow> (quote_char # t @ (if ok then [quote_char] else []), ok))"

fun join :: "string \<Rightarrow> string list \<Rightarrow> string" where
  "join sep [] = []"
| "join sep [t] = t"
| "join sep (t # u # ts) = t @ sep @ join sep (u # ts)"

text \<open>The items of an array or an object between the brackets.\<close>

definition dump_items :: "nat \<Rightarrow> nat \<Rightarrow> string list \<Rightarrow> string" where
  "dump_items flags depth ts =
    dump_indent flags (depth + 1) False @ join (CHR '','' # dump_indent flags (depth + 1) True) ts
      @ dump_indent flags depth False"

type_synonym key_order = "(string \<times> json) list \<Rightarrow> string list"

text \<open>The keys in the order of their names, of their insertion or of the table.\<close>

definition dump_keys :: "key_order \<Rightarrow> nat \<Rightarrow> (string \<times> json) list \<Rightarrow> string list" where
  "dump_keys it flags kvs =
    (if flag_set flags JSON_SORT_KEYS then sort_key (map code) (map fst kvs)
     else if flag_set flags JSON_PRESERVE_ORDER then map fst kvs
     else it kvs)"

definition dump_separator :: "nat \<Rightarrow> string" where
  "dump_separator flags = (if flag_set flags JSON_COMPACT then '':'' else '': '')"

lemma size_element: "v \<in> set vs \<Longrightarrow> size v < Suc (size_list size vs)"
  by (simp add: less_Suc_eq_le size_list_estimation')

lemma size_member: "map_of kvs key = Some v \<Longrightarrow> size v < Suc (size_list (size_prod (\<lambda>_. 0) size) kvs)"
  by (induction kvs) (auto split: if_splits)

text \<open>The result of printing a key is not looked at.\<close>

function do_dump :: "key_order \<Rightarrow> nat \<Rightarrow> nat \<Rightarrow> json \<Rightarrow> string option" where
  "do_dump it flags depth JNull = Some ''null''"
| "do_dump it flags depth JTrue = Some ''true''"
| "do_dump it flags depth JFalse = Some ''false''"
| "do_dump it flags depth (JInteger i) = (if 100 \<le> length (dec_int i) then None else Some (dec_int i))"
| "do_dump it flags depth (JReal d) = jsonp_dtostr 100 d"
| "do_dump it flags depth (JString s) = (case dump_string flags s of (t, ok) \<Rightarrow> if ok then Some t else None)"
| "do_dump it flags depth (JArray vs) =
    (if vs = [] then Some ''[]''
     else
       (case those (map (\<lambda>v. do_dump it flags (depth + 1) v) vs) of
          None \<Rightarrow> None
        | Some ts \<Rightarrow> Some (''['' @ dump_items flags depth ts @ '']'')))"
| "do_dump it flags depth (JObject kvs) =
    (if kvs = [] then Some ''{}''
     else
       (case those (map (\<lambda>key.
            (case map_of kvs key of
               None \<Rightarrow> None
             | Some v \<Rightarrow>
                 (case do_dump it flags (depth + 1) v of
                    None \<Rightarrow> None
                  | Some t \<Rightarrow> Some (fst (dump_string flags key) @ dump_separator flags @ t)))) (dump_keys it flags kvs)) of
          None \<Rightarrow> None
        | Some ts \<Rightarrow> Some (''{'' @ dump_items flags depth ts @ ''}'')))"
  by pat_completeness auto
termination
  by (relation "measure (\<lambda>(it, flags, depth, v). size v)") (use size_element size_member in auto)

definition json_dumps :: "key_order \<Rightarrow> json option \<Rightarrow> nat \<Rightarrow> string option" where
  "json_dumps it j flags =
    (case j of
       None \<Rightarrow> None
     | Some v \<Rightarrow>
         if \<not> flag_set flags JSON_ENCODE_ANY \<and> \<not> json_is_array (Some v) \<and> \<not> json_is_object (Some v) then None
         else do_dump it flags 0 v)"

section \<open>Comparison\<close>

text \<open>Two values, compared by content; the shortcut for the same pointer is not needed for values without NaN.\<close>

function json_equal :: "json \<Rightarrow> json \<Rightarrow> bool" where
  "json_equal (JObject kvs) w =
    (case w of
       JObject kws \<Rightarrow>
         length kvs = length kws \<and>
         list_all (\<lambda>key.
           (case map_of kvs key of
              None \<Rightarrow> False
            | Some x \<Rightarrow> (case map_of kws key of None \<Rightarrow> False | Some y \<Rightarrow> json_equal x y))) (map fst kvs)
     | _ \<Rightarrow> False)"
| "json_equal (JArray vs) w =
    (case w of
       JArray ws \<Rightarrow> length vs = length ws \<and> list_all (\<lambda>(x, y). json_equal x y) (zip vs ws)
     | _ \<Rightarrow> False)"
| "json_equal (JString s) w = (case w of JString t \<Rightarrow> s = t | _ \<Rightarrow> False)"
| "json_equal (JInteger i) w = (case w of JInteger j \<Rightarrow> i = j | _ \<Rightarrow> False)"
| "json_equal (JReal d) w = (case w of JReal e \<Rightarrow> deq d e | _ \<Rightarrow> False)"
| "json_equal JTrue w = (w = JTrue)"
| "json_equal JFalse w = (w = JFalse)"
| "json_equal JNull w = (w = JNull)"
  by pat_completeness auto
termination
  by (relation "measure (\<lambda>(v, w). size v)") (use size_element size_member set_zip_leftD in fastforce)+

end
