(* ===== verification/Json_Tokens.thy ===== *)
theory Json_Tokens
  imports Json_Dump "HOL-Library.Multiset"
begin

text \<open>
  What the scanner makes of a printed text: the relation \<open>reads\<close> follows the stream on well formed UTF-8 and
  hides the buffer, the positions and the encoding check; on it rest the lemmas on white space, literals,
  integers and strings, where both passes over a string are the inverse of \<^verbatim>\<open>dump_string\<close>.
\<close>

section \<open>The scanner on a well formed text\<close>

text \<open>A text without zero bytes that is well formed UTF-8.\<close>

definition clean :: "string \<Rightarrow> bool" where
  "clean t \<longleftrightarrow> (\<exists>vs. list_all (\<lambda>v. scalar_value v \<and> v \<noteq> 0) vs \<and> t = concat (map utf8_of vs))"

lemma clean_append: "clean s \<Longrightarrow> clean t \<Longrightarrow> clean (s @ t)"
  unfolding clean_def by (elim exE conjE) (intro exI [of _ "vs @ ws" for vs ws], auto)

lemma clean_Nil [simp]: "clean []"
  unfolding clean_def by (intro exI [of _ "[]"]) simp

lemma clean_ascii: "(\<And>c. c \<in> set t \<Longrightarrow> 0 < code c \<and> code c < 128) \<Longrightarrow> clean t"
proof (induction t)
  case (Cons c t)
  then obtain vs where vs: "list_all (\<lambda>v. scalar_value v \<and> v \<noteq> 0) vs" "t = concat (map utf8_of vs)" unfolding clean_def by auto
  have c: "utf8_of (code c) = [c]" "scalar_value (code c)" "code c \<noteq> 0"
    using Cons.prems [of c] by (simp_all add: utf8_of_cases scalar_value_def)
  show ?case unfolding clean_def using vs c by (intro exI [of _ "code c # vs"]) simp
qed simp

lemma clean_utf8: "clean t \<Longrightarrow> utf8_check_string t"
  unfolding clean_def utf8_check_string_scalars by (auto simp: list_all_iff)

lemma utf8_of_NUL: "scalar_value v \<Longrightarrow> v \<noteq> 0 \<Longrightarrow> NUL \<notin> set (utf8_of v)"
  using code_inject [of NUL] by (auto simp: utf8_of_cases scalar_value_def NUL_def chr_eq_iff div_less_iff_less_mult)

lemma clean_NUL: "clean t \<Longrightarrow> NUL \<notin> set t"
  unfolding clean_def using utf8_of_NUL by (auto simp: list_all_iff)

lemma clean_iff: "clean t \<longleftrightarrow> utf8_check_string t \<and> NUL \<notin> set t"
proof
  assume a: "utf8_check_string t \<and> NUL \<notin> set t"
  then obtain vs where vs: "list_all scalar_value vs" "t = concat (map utf8_of vs)" by (auto simp: utf8_check_string_scalars)
  have "v \<noteq> 0" if "v \<in> set vs" for v
  proof
    assume "v = 0"
    then have "NUL \<in> set t" using that by (force simp: vs(2) utf8_of_cases NUL_def)
    then show False using a by simp
  qed
  then show "clean t" unfolding clean_def using vs by (auto simp: list_all_iff)
qed (simp add: clean_utf8 clean_NUL)

definition peek :: "string \<Rightarrow> got" where
  "peek s = (case s of [] \<Rightarrow> Got_EOF | c # _ \<Rightarrow> Byte c)"

lemma peek_simps [simp]: "peek [] = Got_EOF" "peek (c # s) = Byte c"
  by (simp_all add: peek_def)

text \<open>The scanner will deliver the text \<open>s\<close>.\<close>

definition reads :: "lex \<Rightarrow> string \<Rightarrow> bool" where
  "reads l s \<longleftrightarrow> NUL \<notin> set s \<and>
    (sstate l = STREAM_STATE_OK \<and> lex_pending l @ sdata l = s \<and> utf8_check_string (sdata l) \<or>
     sstate l = STREAM_STATE_EOF \<and> s = [])"

lemma reads_simps [simp]:
  "reads (l\<lparr>saved_text := t\<rparr>) s = reads l s" "reads (l\<lparr>token := k\<rparr>) s = reads l s"
  by (simp_all add: reads_def lex_pending_def)

lemma unget_pending:
  assumes "sbuffer_pos l = Suc n" "n < length (sbuffer l)" "sbuffer l ! n = c" "c \<noteq> NUL"
  shows "lex_pending (stream_unget (Byte c) l) = c # lex_pending l" "sdata (stream_unget (Byte c) l) = sdata l"
    "sstate (stream_unget (Byte c) l) = sstate l" "saved_text (stream_unget (Byte c) l) = saved_text l"
  using assms by (simp_all add: stream_unget_def Let_def lex_pending_def Cons_nth_drop_Suc [symmetric])

lemma reads_next:
  assumes "sstate l = STREAM_STATE_OK" "stream_cur l = c" "c \<noteq> NUL" "lex_pending l @ sdata l = c # s" "utf8_check_string (sdata l)"
    "NUL \<notin> set s" "stream_next l = (g, l')"
  shows "g = Byte c \<and> reads l' s \<and> reads (stream_unget g l') (c # s) \<and> saved_text l' = saved_text l"
proof -
  note f = stream_next_fields [OF assms(7)]
  have n: "sbuffer_pos l < length (sbuffer l)" "sbuffer l ! sbuffer_pos l = c" using assms(2,3) by (auto simp: stream_cur_def split: if_splits)
  have p: "lex_pending l' = takeWhile (\<lambda>c. c \<noteq> NUL) (drop (Suc (sbuffer_pos l)) (sbuffer l))" by (simp add: lex_pending_def f)
  have q: "lex_pending l = c # lex_pending l'" using pending_cur [of l] assms(2,3) by (simp add: p)
  have u: "lex_pending (stream_unget (Byte c) l') = c # lex_pending l'" "sdata (stream_unget (Byte c) l') = sdata l'"
    "sstate (stream_unget (Byte c) l') = sstate l'"
    using unget_pending [of l' "sbuffer_pos l" c] n f assms(3) by simp_all
  show ?thesis using f assms(1-6) q u by (auto simp: reads_def)
qed

lemma utf8_full_cong: "take n s = take n t \<Longrightarrow> n \<le> length s \<Longrightarrow> n \<le> length t \<Longrightarrow> utf8_check_full s n = utf8_check_full t n"
proof -
  assume a: "take n s = take n t" "n \<le> length s" "n \<le> length t"
  have t: "take (n - 1) (drop 1 s) = take (n - 1) (drop 1 t)" using a(1) by (metis drop_take)
  show ?thesis
  proof (cases "n = 0")
    case False
    then have "s ! 0 = t ! 0" using a(1) by (metis gr0I nth_take)
    then show ?thesis by (simp only: utf8_check_full_def t)
  qed (simp add: utf8_check_full_def)
qed

lemma reads_fill:
  assumes "sdata l = c # d" "utf8_check_string (c # d)" "NUL \<notin> set (c # d)" "sstate l = STREAM_STATE_OK"
  shows "\<exists>k. stream_fill l = Inr k \<and> stream_cur k = c \<and> lex_pending k @ sdata k = c # d \<and> utf8_check_string (sdata k) \<and>
    sstate k = STREAM_STATE_OK \<and> saved_text k = saved_text l"
proof -
  obtain r v where it: "utf8_iterate (c # d) = Some (r, v)" "utf8_check_string r"
    using assms(2) by (auto simp: utf8_check_string_step split: option.splits)
  show ?thesis
  proof (cases "0x80 \<le> code c")
    case False
    then have "r = d" using it by (auto simp: utf8_iterate_def utf8_check_first_def Let_def)
    then show ?thesis using False it assms by (auto simp: stream_fill_def stream_cur_def lex_pending_def Let_def)
  next
    case True
    define n where "n = utf8_check_first c"
    have n: "1 < n" using True it by (auto simp: n_def utf8_iterate_def utf8_check_first_def Let_def split: if_splits)
    from utf8_iterate_long [OF it(1) n_def [symmetric] n] obtain u where
      u: "utf8_check_full (c # d) n = Some u" "n \<le> length (c # d)" "r = drop n (c # d)" by blast
    define bs where "bs = take (n - 1) d"
    have d: "d = bs @ r" "length bs = n - 1" using u n by (cases n; simp add: bs_def)+
    have b: "stream_bytes (n - 1) d = (bs, r)" using stream_bytes_prefix [of bs r] d by simp
    have "take n (c # bs) = take n (c # d)" using n by (simp add: bs_def take_Cons')
    then have "utf8_check_full (c # bs) n = Some u" using utf8_full_cong [of n "c # bs" "c # d"] u(1,2) d(2) n by simp
    moreover have "NUL \<notin> set (c # bs)" using assms(3) by (auto simp: bs_def dest: in_set_takeD)
    ultimately have f: "stream_fill l = Inr (l\<lparr>sdata := r, sbuffer := c # bs @ [NUL], sbuffer_pos := 0\<rparr>)" and "NUL \<notin> set (c # bs)"
      using True b n by (simp_all add: stream_fill_def assms(1) n_def [symmetric] Let_def)
    moreover have "takeWhile (\<lambda>c. c \<noteq> NUL) ((c # bs) @ [NUL]) = (c # bs) @ takeWhile (\<lambda>c. c \<noteq> NUL) [NUL]"
      using \<open>NUL \<notin> set (c # bs)\<close> by (intro takeWhile_append2) blast
    ultimately show ?thesis using it(2) assms(4) d(1) by (simp add: f stream_cur_def lex_pending_def)
  qed
qed

lemma reads_get:
  assumes "reads l s"
  shows "\<exists>l'. stream_get l = (peek s, l') \<and> reads l' (tl s) \<and> reads (stream_unget (peek s) l') s \<and> saved_text l' = saved_text l"
proof (cases s)
  case Nil
  show ?thesis
  proof (cases "sstate l")
    case STREAM_STATE_OK
    then have "lex_pending l = []" "sdata l = []" using assms by (auto simp: reads_def Nil)
    then show ?thesis
      using STREAM_STATE_OK pending_cur [of l] by (auto simp: Nil stream_get_def stream_fill_def stream_unget_def reads_def split: if_splits)
  qed (use assms in \<open>auto simp: Nil stream_get_def stream_unget_def reads_def\<close>)
next
  case (Cons c t)
  have ok: "sstate l = STREAM_STATE_OK" "lex_pending l @ sdata l = c # t" "utf8_check_string (sdata l)" "NUL \<notin> set t" "c \<noteq> NUL"
    using assms by (auto simp: reads_def Cons)
  show ?thesis
  proof (cases "stream_cur l = NUL")
    case False
    then have "stream_cur l = c" using ok(2) pending_cur [of l] by (auto split: if_splits)
    moreover obtain g l' where "stream_next l = (g, l')" by fastforce
    ultimately show ?thesis using reads_next [OF ok(1) _ ok(5) ok(2,3,4)] ok False by (auto simp: stream_get_def Cons)
  next
    case True
    then have d: "sdata l = c # t" using ok(2) pending_cur [of l] by simp
    obtain k where k: "stream_fill l = Inr k" "stream_cur k = c" "lex_pending k @ sdata k = c # t" "utf8_check_string (sdata k)"
      "sstate k = STREAM_STATE_OK" "saved_text k = saved_text l"
      using reads_fill [OF d] ok d by auto
    obtain g l' where n: "stream_next k = (g, l')" by fastforce
    from reads_next [OF k(5,2) ok(5) k(3,4) ok(4) n] show ?thesis using ok True k n by (auto simp: stream_get_def Cons)
  qed
qed

text \<open>The byte \<open>c\<close> has just been read and saved; with it the text left is \<open>s\<close> and the text saved before it is \<open>t\<close>.\<close>

definition got_at :: "lex \<Rightarrow> got \<Rightarrow> string \<Rightarrow> string \<Rightarrow> bool" where
  "got_at l c s t \<longleftrightarrow> c = peek s \<and> reads l (tl s) \<and> reads (stream_unget c l) s \<and> saved_text l = t @ take 1 s"

lemma unget_saved [simp]: "saved_text (stream_unget c l) = saved_text l"
  by (simp add: stream_unget_def Let_def split: got.split)

lemma reads_cong:
  "sdata l = sdata k \<Longrightarrow> sbuffer l = sbuffer k \<Longrightarrow> sbuffer_pos l = sbuffer_pos k \<Longrightarrow> sstate l = sstate k \<Longrightarrow> reads l s = reads k s"
  by (simp add: reads_def lex_pending_def)

lemma reads_save [simp]: "reads (lex_save b l) s = reads l s" "reads (stream_unget c (lex_save b l)) s = reads (stream_unget c l) s"
  "saved_text (lex_save b l) = saved_text l @ [b]"
  by (simp_all add: lex_save_def reads_def lex_pending_def stream_unget_def Let_def split: got.split)

lemma got_at_get:
  assumes "reads l s"
  shows "\<exists>l'. lex_get_save l = (peek s, l') \<and> got_at l' (peek s) s (saved_text l)"
proof -
  obtain k where k: "stream_get l = (peek s, k)" "reads k (tl s)" "reads (stream_unget (peek s) k) s" "saved_text k = saved_text l"
    using reads_get [OF assms] by blast
  show ?thesis by (cases s) (use k in \<open>auto simp: lex_get_save_def got_at_def\<close>)
qed

lemma got_at_token [simp]: "got_at (l\<lparr>token := k\<rparr>) c s t = got_at l c s t"
proof -
  have "stream_unget c (l\<lparr>token := k\<rparr>) = (stream_unget c l)\<lparr>token := k\<rparr>" by (cases c) (simp_all add: stream_unget_def Let_def)
  then show ?thesis by (simp add: got_at_def)
qed

text \<open>One more byte.\<close>

lemma got_at_step:
  assumes "got_at l c (b # s) t"
  shows "\<exists>l'. lex_get_save l = (peek s, l') \<and> got_at l' (peek s) s (t @ [b])"
  using got_at_get [of l s] assms by (simp add: got_at_def)

lemma got_at_unget:
  assumes "got_at l c s t"
  shows "reads (lex_unget_unsave c l) s" "saved_text (lex_unget_unsave c l) = t"
  using assms by (cases s; simp add: got_at_def lex_unget_unsave_def Let_def stream_unget_def)+

lemma got_at_while:
  assumes "got_at l (peek (u @ r)) (u @ r) t" "\<forall>x\<in>set u. p x" "r = [] \<or> \<not> p (hd r)"
  shows "\<exists>l'. lex_take_while p (peek (u @ r)) l = (peek r, l') \<and> got_at l' (peek r) r (t @ u)"
  using assms
proof (induction u arbitrary: l t)
  case Nil
  then have "\<not> got_is p (peek r)" by (cases r) (auto simp: got_is_def)
  then show ?case using Nil by (subst lex_take_while.simps) simp
next
  case (Cons b u)
  obtain k where k: "lex_get_save l = (peek (u @ r), k)" "got_at k (peek (u @ r)) (u @ r) (t @ [b])"
    using got_at_step [of l "Byte b" b "u @ r" t] Cons.prems(1) by auto
  have "got_is p (Byte b)" using Cons.prems(2) by (simp add: got_is_def)
  then show ?case using Cons.IH [OF k(2)] Cons.prems k(1) by (subst lex_take_while.simps) simp
qed

text \<open>White space before a token.\<close>

lemma skip_spaces:
  assumes "reads l (w @ r)" "\<forall>x\<in>set w. is_space x" "r = [] \<or> \<not> is_space (hd r)"
  shows "\<exists>l'. (case stream_get l of (c, l) \<Rightarrow> lex_skip_space c l) = (peek r, l') \<and> reads l' (tl r) \<and>
    reads (stream_unget (peek r) l') r \<and> saved_text l' = saved_text l"
  using assms
proof (induction w arbitrary: l)
  case Nil
  obtain k where k: "stream_get l = (peek r, k)" "reads k (tl r)" "reads (stream_unget (peek r) k) r" "saved_text k = saved_text l" using reads_get [OF Nil(1)] by auto
  have "\<not> got_is is_space (peek r)" using Nil.prems(3) by (cases r) (auto simp: got_is_def)
  then show ?case using k by (simp add: lex_skip_space.simps)
next
  case (Cons b w)
  obtain k where k: "stream_get l = (Byte b, k)" "reads k (w @ r)" "saved_text k = saved_text l" using reads_get [OF Cons.prems(1)] by auto
  have "got_is is_space (Byte b)" using Cons.prems(2) by (simp add: got_is_def)
  then show ?case using Cons.IH [OF k(2)] Cons.prems k(1,3) by (simp add: lex_skip_space.simps [of "Byte b"])
qed

lemma lex_scan_spaces:
  assumes "reads l (w @ b # r)" "\<forall>x\<in>set w. is_space x" "\<not> is_space b"
  shows "\<exists>k. got_at k (Byte b) (b # r) [] \<and> reads k r \<and> saved_text k = [b] \<and>
    lex_scan l =
     (if structural b then k\<lparr>token := TOKEN_CHAR b\<rparr>
      else if b = quote_char then lex_scan_string k
      else if l_isdigit b \<or> b = CHR ''-'' then lex_scan_number (Byte b) k
      else if l_isalpha b then lex_scan_word k
      else (lex_save_cached k)\<lparr>token := TOKEN_INVALID\<rparr>)"
proof -
  obtain k where k: "(case stream_get (l\<lparr>saved_text := []\<rparr>) of (c, l) \<Rightarrow> lex_skip_space c l) = (Byte b, k)" "reads k r"
    "reads (stream_unget (Byte b) k) (b # r)" "saved_text k = []"
    using skip_spaces [of "l\<lparr>saved_text := []\<rparr>" w "b # r"] assms by auto
  obtain c1 l1 where g: "stream_get (l\<lparr>saved_text := []\<rparr>) = (c1, l1)" by fastforce
  have s: "lex_skip_space c1 l1 = (Byte b, k)" using k(1) g by simp
  show ?thesis
    using k by (intro exI [of _ "lex_save b k"]) (simp add: got_at_def lex_scan_def g s Let_def)
qed

section \<open>Tokens\<close>

text \<open>Scanning the text of the token \<open>k\<close> before the text \<open>r\<close>.\<close>

definition scans :: "lex \<Rightarrow> string \<Rightarrow> token \<Rightarrow> bool" where
  "scans l r k \<longleftrightarrow> token (lex_scan l) = k \<and> reads (lex_scan l) r"

definition spaces :: "string \<Rightarrow> bool" where
  "spaces w \<longleftrightarrow> (\<forall>x\<in>set w. is_space x)"

lemma code_literals: "code (CHR ''{'') = 123" "code (CHR ''}'') = 125" "code (CHR ''['') = 91" "code (CHR '']'') = 93"
  "code (CHR '':'') = 58" "code (CHR '','') = 44" "code (CHR ''-'') = 45" "code (CHR ''.'') = 46" "code (CHR ''E'') = 69"
  "code (CHR ''e'') = 101" "code (CHR ''/'') = 47" "code (CHR ''u'') = 117" "code (CHR ''b'') = 98" "code (CHR ''f'') = 102"
  "code (CHR ''n'') = 110" "code (CHR ''r'') = 114" "code (CHR ''t'') = 116" "code (CHR ''0'') = 48"
  by (simp_all add: code_def)

lemma char_eq_code: "b = c \<longleftrightarrow> code b = code c"
  by (simp add: code_inject)

lemma is_space_code: "is_space b \<longleftrightarrow> code b = 32 \<or> code b = 9 \<or> code b = 10 \<or> code b = 13"
  by (simp add: is_space_def char_eq_code)

lemma structural_code: "structural b \<longleftrightarrow> code b \<in> {123, 125, 91, 93, 58, 44}"
  by (simp add: structural_def char_eq_code [of b] code_literals)

lemmas class_codes = is_space_code structural_code l_isdigit_def l_isalpha_def l_isupper_def l_islower_def

lemma structural_plain: "structural b \<Longrightarrow> \<not> is_space b \<and> b \<noteq> quote_char"
  by (auto simp: class_codes)

lemma scan_structural:
  assumes "reads l (w @ b # r)" "spaces w" "structural b"
  shows "scans l r (TOKEN_CHAR b)"
  using lex_scan_spaces [of l w b r] assms structural_plain [of b] by (auto simp: scans_def spaces_def)

lemma scan_end:
  assumes "reads l w" "spaces w"
  shows "token (lex_scan l) = TOKEN_EOF"
proof -
  obtain k where k: "(case stream_get (l\<lparr>saved_text := []\<rparr>) of (c, l) \<Rightarrow> lex_skip_space c l) = (Got_EOF, k)"
    using skip_spaces [of "l\<lparr>saved_text := []\<rparr>" w "[]"] assms by (auto simp: spaces_def)
  obtain c1 l1 where g: "stream_get (l\<lparr>saved_text := []\<rparr>) = (c1, l1)" by fastforce
  then show ?thesis using k by (simp add: lex_scan_def)
qed

text \<open>What follows a value.\<close>

definition delim :: "string \<Rightarrow> bool" where
  "delim r \<longleftrightarrow> (case r of [] \<Rightarrow> True | c # _ \<Rightarrow> c \<in> {CHR '','', CHR '']'', CHR ''}'', newline})"

lemma delim_plain:
  assumes "delim (c # r)"
  shows "\<not> l_isdigit c" "\<not> l_isalpha c" "c \<noteq> CHR ''.''" "c \<noteq> CHR ''E''" "c \<noteq> CHR ''e''"
proof -
  have "code c \<in> {44, 93, 125, 10}" using assms by (auto simp: delim_def code_literals)
  then show "\<not> l_isdigit c" "\<not> l_isalpha c" "c \<noteq> CHR ''.''" "c \<noteq> CHR ''E''" "c \<noteq> CHR ''e''"
    by (auto simp: class_codes code_literals)
qed

subsection \<open>Literals\<close>

lemma alpha_plain: "l_isalpha b \<Longrightarrow> \<not> is_space b \<and> \<not> structural b \<and> b \<noteq> quote_char \<and> \<not> l_isdigit b \<and> b \<noteq> CHR ''-''"
  by (auto simp: class_codes code_literals)

lemma scan_word:
  assumes "reads l (w @ b # u @ r)" "spaces w" "\<forall>x\<in>set (b # u). l_isalpha x" "delim r"
  shows "scans l r (if b # u = ''true'' then TOKEN_TRUE else if b # u = ''false'' then TOKEN_FALSE
    else if b # u = ''null'' then TOKEN_NULL else TOKEN_INVALID)"
proof -
  obtain k where k: "got_at k (Byte b) (b # u @ r) []" "lex_scan l = lex_scan_word k"
    using lex_scan_spaces [of l w b "u @ r"] assms alpha_plain [of b] by (auto simp: spaces_def)
  obtain k1 where k1: "lex_get_save k = (peek (u @ r), k1)" "got_at k1 (peek (u @ r)) (u @ r) [b]"
    using got_at_step [OF k(1)] by auto
  have r: "r = [] \<or> \<not> l_isalpha (hd r)" using assms(4) delim_plain(2) by (cases r) auto
  obtain k2 where k2: "lex_take_while l_isalpha (peek (u @ r)) k1 = (peek r, k2)" "got_at k2 (peek r) r (b # u)"
    using got_at_while [of k1 u r "[b]" l_isalpha] k1(2) r assms(3) by auto
  note e = got_at_unget [OF k2(2)]
  show ?thesis using e by (simp add: scans_def k(2) lex_scan_word_def k1(1) k2(1) Let_def)
qed

subsection \<open>Integers\<close>

lemma digit_plain: "l_isdigit b \<or> b = CHR ''-'' \<Longrightarrow> \<not> is_space b \<and> \<not> structural b \<and> b \<noteq> quote_char"
proof -
  assume "l_isdigit b \<or> b = CHR ''-''"
  then have "code b = 45 \<or> 48 \<le> code b \<and> code b \<le> 57" by (auto simp: l_isdigit_def code_literals)
  then show ?thesis by (auto simp: class_codes)
qed

lemma int_part_dec_nat:
  assumes "got_at l (peek (dec_nat n @ r)) (dec_nat n @ r) t" "delim r"
  shows "\<exists>k. lex_int_part (peek (dec_nat n @ r)) l = (Some (peek r), k) \<and> got_at k (peek r) r (t @ dec_nat n)"
proof (cases "n = 0")
  case True
  have z: "dec_nat 0 = ''0''" by (subst dec_nat.simps) (simp add: chr_def char_of_def bit_0)
  obtain k where k: "lex_get_save l = (peek r, k)" "got_at k (peek r) r (t @ ''0'')"
    using got_at_step [of l _ "CHR ''0''" r t] assms(1) by (auto simp: True z)
  have "\<not> got_is l_isdigit (peek r)" using assms(2) delim_plain(1) by (cases r) (auto simp: got_is_def)
  then show ?thesis using k by (simp add: True z lex_int_part_def)
next
  case False
  obtain c u where c: "dec_nat n = c # u" "c \<noteq> CHR ''0''" using dec_nat_head [OF False] by blast
  have ds: "\<forall>x\<in>set (dec_nat n). l_isdigit x" using dec_nat_digits by (auto simp: l_isdigit_def isdigit_def)
  have r: "r = [] \<or> \<not> l_isdigit (hd r)" using assms(2) delim_plain(1) by (cases r) auto
  from got_at_while [where u = "dec_nat n" and r = r, OF assms(1) ds r] obtain k where
    "lex_take_while l_isdigit (peek (dec_nat n @ r)) l = (peek r, k)" "got_at k (peek r) r (t @ dec_nat n)" by blast
  then show ?thesis using c ds by (simp add: lex_int_part_def got_is_def)
qed

lemma scan_integer:
  assumes "reads l (w @ dec_int i @ r)" "spaces w" "delim r" "- (2 ^ 63) \<le> i" "i < 2 ^ 63"
  shows "scans l r (TOKEN_INTEGER i)"
proof -
  define n where "n = nat \<bar>i\<bar>"
  obtain b u where b: "dec_int i = b # u" using dec_nat_nonempty by (cases "dec_int i") (auto simp: dec_int_def split: if_splits)
  have d: "l_isdigit b \<or> b = CHR ''-''"
    using dec_nat_digits [of b "nat i"] b by (auto simp: dec_int_def l_isdigit_def isdigit_def split: if_splits)
  obtain k where k: "got_at k (Byte b) (b # u @ r) []" "lex_scan l = lex_scan_number (Byte b) k"
    using lex_scan_spaces [of l w b "u @ r"] assms(1,2) digit_plain [OF d] d by (auto simp: spaces_def b)
  define k0 where "k0 = k\<lparr>token := TOKEN_INVALID\<rparr>"
  have g0: "got_at k0 (Byte b) (b # u @ r) []" using k(1) by (simp add: k0_def)
  have "\<exists>k1 t. (if b = CHR ''-'' then lex_get_save k0 else (Byte b, k0)) = (peek (dec_nat n @ r), k1) \<and>
      got_at k1 (peek (dec_nat n @ r)) (dec_nat n @ r) t \<and> t @ dec_nat n = dec_int i"
  proof (cases "i < 0")
    case True
    then have "b = CHR ''-''" "u = dec_nat n" using b by (simp_all add: dec_int_def n_def)
    then show ?thesis using got_at_step [OF g0] True by (auto simp: dec_int_def n_def)
  next
    case False
    then have t: "dec_nat n = b # u" "dec_int i = dec_nat n" using b by (simp_all add: dec_int_def n_def)
    have "l_isdigit b" using dec_nat_digits [of b n] by (simp add: t l_isdigit_def isdigit_def)
    then have "b \<noteq> CHR ''-''" by (auto simp: l_isdigit_def code_literals)
    then show ?thesis using g0 t by auto
  qed
  then obtain k1 t where k1: "(if b = CHR ''-'' then lex_get_save k0 else (Byte b, k0)) = (peek (dec_nat n @ r), k1)"
    "got_at k1 (peek (dec_nat n @ r)) (dec_nat n @ r) t" "t @ dec_nat n = dec_int i" by blast
  obtain k2 where k2: "lex_int_part (peek (dec_nat n @ r)) k1 = (Some (peek r), k2)" "got_at k2 (peek r) r (dec_int i)"
    using int_part_dec_nat [OF k1(2) assms(3)] k1(3) by auto
  note e = got_at_unget [OF k2(2)]
  have p: "peek r \<noteq> Byte (CHR ''.'') \<and> peek r \<noteq> Byte (CHR ''E'') \<and> peek r \<noteq> Byte (CHR ''e'')"
    using assms(3) delim_plain(3-5) by (cases r) auto
  have "lex_scan_number (Byte b) k = lex_finish_integer (lex_unget_unsave (peek r) k2)"
    using p by (simp add: lex_scan_number_def k0_def [symmetric] k1(1) k2(1) Let_def split del: if_split)
  then show ?thesis using e assms(4,5) by (simp add: scans_def k(2) lex_finish_integer_def strto_int_dec_int Let_def)
qed

subsection \<open>Strings\<close>

definition cp_text :: "nat \<Rightarrow> nat \<Rightarrow> string" where
  "cp_text flags v = (if needs_escape flags v then escape_text v else utf8_of v)"

definition plain_scalar :: "nat \<Rightarrow> bool" where
  "plain_scalar v \<longleftrightarrow> scalar_value v \<and> v \<noteq> 0"

lemma dump_chars_text:
  assumes "list_all plain_scalar vs"
  shows "dump_chars flags run (concat (map utf8_of vs)) = (run @ concat (map (cp_text flags) vs), True)"
  using assms
proof (induction vs arbitrary: run)
  case Nil
  then show ?case by (subst dump_chars.simps) (simp add: utf8_iterate_def)
next
  case (Cons v vs)
  have "utf8_of v \<noteq> []" using Cons.prems by (simp add: plain_scalar_def scalar_value_def utf8_of_nonempty)
  moreover have "utf8_iterate (utf8_of v @ concat (map utf8_of vs)) = Some (concat (map utf8_of vs), Some v)"
    using Cons.prems by (intro utf8_iterate_encoded) (simp add: plain_scalar_def)
  ultimately show ?case using Cons by (subst dump_chars.simps) (simp add: cp_text_def [of flags v])
qed

text \<open>The four digits of an escape.\<close>

lemma hexdigit_0: "CHR ''0'' = hexdigit 0"
  by (simp add: hexdigit_def chr_def char_of_def bit_0)

lemma pad_zeros_4: "pad_zeros 4 [a] = [hexdigit 0, hexdigit 0, hexdigit 0, a]" "pad_zeros 4 [a, b] = [hexdigit 0, hexdigit 0, a, b]"
  "pad_zeros 4 [a, b, c] = [hexdigit 0, a, b, c]" "pad_zeros 4 [a, b, c, d] = [a, b, c, d]"
  by (simp_all add: pad_zeros_def hexdigit_0 numeral_eq_Suc)

lemma hex04_digits:
  assumes "v < 0x10000"
  shows "hex04 v = map hexdigit [v div 4096, v div 256 mod 16, v div 16 mod 16, v mod 16]"
proof -
  have h: "hex_nat n = (if n < 16 then [hexdigit n] else hex_nat (n div 16) @ [hexdigit (n mod 16)])" for n
    by (rule hex_nat.simps)
  consider "v < 16" | "16 \<le> v" "v < 256" | "256 \<le> v" "v < 4096" | "4096 \<le> v" by linarith
  then show ?thesis
  proof cases
    case 1
    then have "hex_nat v = [hexdigit v]" by (subst h) simp
    then show ?thesis using 1 by (simp add: hex04_def pad_zeros_4)
  next
    case 2
    then have e: "v div 16 < 16" "v div 256 = 0" "v div 4096 = 0" by auto
    have "hex_nat v = [hexdigit (v div 16), hexdigit (v mod 16)]" using 2 e by (subst h, subst h) simp
    then show ?thesis using e by (simp add: hex04_def pad_zeros_4)
  next
    case 3
    then have e: "v div 256 < 16" "v div 4096 = 0" "\<not> v < 16" "\<not> v div 16 < 16" "v div 16 div 16 = v div 256" by auto
    have "hex_nat (v div 256) = [hexdigit (v div 256)]" using e by (subst h) simp
    then have "hex_nat (v div 16) = [hexdigit (v div 256), hexdigit (v div 16 mod 16)]" using e by (subst h) simp
    then have "hex_nat v = [hexdigit (v div 256), hexdigit (v div 16 mod 16), hexdigit (v mod 16)]" using e by (subst h) simp
    then show ?thesis using e by (simp add: hex04_def pad_zeros_4)
  next
    case 4
    then have e: "v div 4096 < 16" "\<not> v < 16" "\<not> v div 16 < 16" "\<not> v div 256 < 16" "v div 16 div 16 = v div 256" "v div 256 div 16 = v div 4096"
      using assms by auto
    have "hex_nat (v div 4096) = [hexdigit (v div 4096)]" using e by (subst h) simp
    then have "hex_nat (v div 256) = [hexdigit (v div 4096), hexdigit (v div 256 mod 16)]" using e by (subst h) simp
    then have "hex_nat (v div 16) = [hexdigit (v div 4096), hexdigit (v div 256 mod 16), hexdigit (v div 16 mod 16)]"
      using e by (subst h) simp
    then have "hex_nat v = [hexdigit (v div 4096), hexdigit (v div 256 mod 16), hexdigit (v div 16 mod 16), hexdigit (v mod 16)]"
      using e by (subst h) simp
    then show ?thesis by (simp add: hex04_def pad_zeros_4)
  qed
qed

lemma code_hexdigit: "n < 16 \<Longrightarrow> code (hexdigit n) = (if n < 10 then 48 + n else 87 + n)"
  by (simp add: hexdigit_def)

lemma escape_digit_hexdigit: "n < 16 \<Longrightarrow> escape_digit (hexdigit n) = Some n"
  by (simp add: escape_digit_def l_isdigit_def l_islower_def code_hexdigit)

lemma isxdigit_hexdigit: "n < 16 \<Longrightarrow> l_isxdigit (hexdigit n)"
  by (simp add: l_isxdigit_def l_isdigit_def code_hexdigit)

lemma decode_hex04:
  assumes "v < 0x10000"
  shows "decode_unicode_escape (CHR ''u'' # hex04 v @ p) = Some v"
proof -
  have d: "v div 4096 < 16" using assms by (simp add: div_less_iff_less_mult)
  have "((v div 4096 * 16 + v div 256 mod 16) * 16 + v div 16 mod 16) * 16 + v mod 16 = v"
    using div_mult_mod_eq [of v 16] div_mult_mod_eq [of "v div 16" 16] div_mult_mod_eq [of "v div 256" 16]
    by (simp add: div_mult2_eq [symmetric])
  then show ?thesis
    using d by (simp add: decode_unicode_escape_def hex04_digits [OF assms] escape_digit_hexdigit push_bit_eq_mult)
qed

lemma length_hex04: "v < 0x10000 \<Longrightarrow> length (hex04 v) = 4"
  by (simp add: hex04_digits)

lemma unescape_plain:
  assumes "quote_char \<notin> set bs" "backslash \<notin> set bs"
  shows "unescape (bs @ p) = emit bs (unescape p)"
  using assms
proof (induction bs)
  case Nil
  then show ?case by (cases "unescape p") simp_all
next
  case (Cons b bs)
  then show ?case by (subst unescape.simps) (cases "unescape p"; auto)
qed

lemma utf8_of_bytes: "v \<le> 0x10FFFF \<Longrightarrow> 0x80 \<le> v \<Longrightarrow> b \<in> set (utf8_of v) \<Longrightarrow> 0x80 \<le> code b"
  by (auto simp: utf8_of_cases div_less_iff_less_mult split: if_splits)

lemma and_1023: "(x :: nat) AND 0x3ff = x mod 1024"
  using take_bit_eq_mask [of 10 x] by (simp add: take_bit_eq_mod mask_eq_exp_minus_1)

lemma or_low:
  fixes a x :: nat
  assumes "x < 1024"
  shows "1024 * a OR x = 1024 * a + x"
proof -
  have "take_bit 10 x = x" using assms by (simp add: take_bit_nat_eq_self)
  then have "\<not> bit (push_bit 10 a) i \<or> \<not> bit x i" for i by (metis bit_push_bit_iff bit_take_bit_iff linorder_not_less)
  then have "push_bit 10 a OR x = push_bit 10 a + x" by (intro disjunctive_add [symmetric]) blast
  then show ?thesis by (simp add: push_bit_eq_mult mult.commute)
qed

lemma escape_values:
  fixes c :: nat
  assumes "c < 0x100000"
  shows "0xD800 OR drop_bit 10 (c AND 0xffc00) = 0xD800 + c div 1024" "0xDC00 OR (c AND 0x003ff) = 0xDC00 + c mod 1024"
proof -
  have "c div 1024 < 1024" using assms by (simp add: div_less_iff_less_mult)
  moreover have "drop_bit 10 (c AND 0xffc00) = drop_bit 10 c AND 0x3ff" by simp
  ultimately have "drop_bit 10 (c AND 0xffc00) = c div 1024" by (simp only: and_1023) (simp add: drop_bit_eq_div)
  then show "0xD800 OR drop_bit 10 (c AND 0xffc00) = 0xD800 + c div 1024"
    using or_low [of "c div 1024" 54] \<open>c div 1024 < 1024\<close> by simp
  show "0xDC00 OR (c AND 0x003ff) = 0xDC00 + c mod 1024" using or_low [of "c mod 1024" 55] by (simp add: and_1023)
qed

lemma utf8_encode_of: "v \<le> 0x10FFFF \<Longrightarrow> utf8_encode (int v) = Some (utf8_of v)"
  by (simp add: utf8_of_def utf8_encode_def Let_def)

lemma backslash_u [simp]: "CHR ''u'' \<noteq> quote_char" "CHR ''u'' \<noteq> backslash"
  by (simp_all add: char_eq_code code_literals)

lemma unescape_u:
  assumes "decode_unicode_escape (CHR ''u'' # q) = Some value"
  shows "unescape (backslash # CHR ''u'' # q) =
    (if 0xD800 \<le> value \<and> value \<le> 0xDBFF then
       if take 2 (drop 4 q) = [backslash, CHR ''u''] then
         (case decode_unicode_escape (drop 1 (drop 4 q)) of
            None \<Rightarrow> Assertion_failed
          | Some value2 \<Rightarrow>
              if 0xDC00 \<le> value2 \<and> value2 \<le> 0xDFFF then
                emit_utf8 (push_bit 10 (value - 0xD800) + (value2 - 0xDC00) + 0x10000) (unescape (drop 6 (drop 4 q)))
              else invalid_unicode [value, value2])
       else invalid_unicode [value]
     else if 0xDC00 \<le> value \<and> value \<le> 0xDFFF then invalid_unicode [value]
     else if value = 0 then Bad_escape (backslash # ''u0000 is not allowed'')
     else emit_utf8 value (unescape (drop 4 q)))"
proof -
  have d: "drop 5 (CHR ''u'' # q) = drop 4 q" by simp
  show ?thesis by (subst unescape.simps) (simp only: list.case char_distinct if_False if_True assms option.case d Let_def not_True_eq_False not_False_eq_True refl simp_thms backslash_u)
qed

lemma unescape_unit:
  assumes "v < 0x10000" "scalar_value v" "v \<noteq> 0"
  shows "unescape (backslash # CHR ''u'' # hex04 v @ p) = emit (utf8_of v) (unescape p)"
proof -
  have d: "drop 4 (hex04 v @ p) = p" using length_hex04 [OF assms(1)] by simp
  have n: "\<not> (0xD800 \<le> v \<and> v \<le> 0xDBFF)" "\<not> (0xDC00 \<le> v \<and> v \<le> 0xDFFF)" using assms(2) by (auto simp: scalar_value_def)
  show ?thesis
    unfolding unescape_u [OF decode_hex04 [OF assms(1)]] d if_not_P [OF n(1)] if_not_P [OF n(2)] if_not_P [OF assms(3)]
    using assms(2) by (simp add: emit_utf8_def utf8_encode_of scalar_value_def)
qed

lemma unescape_pair:
  assumes "0x10000 \<le> v" "v \<le> 0x10FFFF"
  shows "unescape (backslash # CHR ''u'' # hex04 (0xD800 + (v - 0x10000) div 1024) @ backslash # CHR ''u'' #
    hex04 (0xDC00 + (v - 0x10000) mod 1024) @ p) = emit (utf8_of v) (unescape p)"
proof -
  define c where "c = v - 0x10000"
  define a b where "a = 0xD800 + c div 1024" and "b = 0xDC00 + c mod 1024"
  have c: "v = c + 0x10000" "c < 0x100000" using assms by (simp_all add: c_def)
  have "c div 1024 < 1024" using c by (simp add: div_less_iff_less_mult)
  then have ab: "a < 0x10000" "b < 0x10000" "0xD800 \<le> a" "a \<le> 0xDBFF" "0xDC00 \<le> b" "b \<le> 0xDFFF" "a - 0xD800 = c div 1024" "b - 0xDC00 = c mod 1024"
    using mod_less_divisor [of 1024 c] by (simp_all add: a_def b_def)
  define q where "q = backslash # CHR ''u'' # hex04 b @ p"
  have d: "drop 4 (hex04 a @ q) = q" "drop 1 q = CHR ''u'' # hex04 b @ p" "drop 6 q = p" "take 2 q = [backslash, CHR ''u'']"
    using length_hex04 [OF ab(1)] length_hex04 [OF ab(2)] by (simp_all add: q_def)
  have v: "push_bit 10 (c div 1024) + c mod 1024 + 0x10000 = v" by (simp add: c push_bit_eq_mult)
  have "unescape (backslash # CHR ''u'' # hex04 a @ q) = emit_utf8 v (unescape p)"
    unfolding unescape_u [OF decode_hex04 [OF ab(1)]] d decode_hex04 [OF ab(2)] using ab v by simp
  then show ?thesis using assms(2) by (simp add: emit_utf8_def utf8_encode_of a_def b_def q_def c_def)
qed

lemma simple_escapes:
  "simple_escape backslash = Some backslash" "simple_escape quote_char = Some quote_char" "simple_escape (CHR ''b'') = Some (chr 8)"
  "simple_escape (CHR ''f'') = Some (chr 12)" "simple_escape (CHR ''n'') = Some (chr 10)" "simple_escape (CHR ''r'') = Some (chr 13)"
  "simple_escape (CHR ''t'') = Some (chr 9)" "simple_escape (CHR ''/'') = Some (CHR ''/'')"
  by (simp_all add: simple_escape_def char_eq_code code_literals)

lemma unescape_simple: "simple_escape e = Some t \<Longrightarrow> e \<noteq> CHR ''u'' \<Longrightarrow> unescape (backslash # e # p) = emit [t] (unescape p)"
  by (subst unescape.simps) simp

text \<open>The escapes with a letter of their own.\<close>

definition letter_escape :: "nat \<Rightarrow> char option" where
  "letter_escape v =
    (if v = 92 then Some backslash else if v = 34 then Some quote_char else if v = 8 then Some (CHR ''b'')
     else if v = 12 then Some (CHR ''f'') else if v = 10 then Some (CHR ''n'') else if v = 13 then Some (CHR ''r'')
     else if v = 9 then Some (CHR ''t'') else if v = 47 then Some (CHR ''/'') else None)"

lemma letter_escapes:
  assumes "letter_escape v = Some e"
  shows "escape_text v = [backslash, e]" "simple_escape e = Some (chr v)" "escape_char e" "e \<noteq> CHR ''u''" "utf8_of v = [chr v]"
proof -
  have c: "chr 92 = backslash" "chr 34 = quote_char" "chr 47 = CHR ''/''" by (simp_all add: char_eq_code code_literals)
  then show "escape_text v = [backslash, e]" "simple_escape e = Some (chr v)" "escape_char e" "e \<noteq> CHR ''u''" "utf8_of v = [chr v]"
    using assms
    by (auto simp: letter_escape_def escape_text_def simple_escapes escape_char_def utf8_of_cases c char_eq_code [of _ "CHR ''u''"] code_literals
      split: if_splits)
qed

text \<open>What is printed for a character: the character, a letter, one unit or a pair of units.\<close>

lemma cp_text_cases:
  assumes "plain_scalar v"
  obtains (plain) "cp_text flags v = utf8_of v" "v \<noteq> 92" "v \<noteq> 34" "0x20 \<le> v"
  | (letter) e where "letter_escape v = Some e" "cp_text flags v = [backslash, e]"
  | (unit) "v < 0x10000" "cp_text flags v = backslash # CHR ''u'' # hex04 v"
  | (pair) "0x10000 \<le> v" "cp_text flags v = backslash # CHR ''u'' # hex04 (0xD800 + (v - 0x10000) div 1024) @
      backslash # CHR ''u'' # hex04 (0xDC00 + (v - 0x10000) mod 1024)"
proof (cases "needs_escape flags v")
  case False
  then have "v \<noteq> 92" "v \<noteq> 34" "0x20 \<le> v" by (auto simp: needs_escape_def)
  then show ?thesis using that(1) False by (simp add: cp_text_def)
next
  case True
  show ?thesis
  proof (cases "letter_escape v")
    case (Some e)
    then show ?thesis using that(2) letter_escapes(1) [OF Some] True by (simp add: cp_text_def)
  next
    case None
    show ?thesis
    proof (cases "v < 0x10000")
      case True
      then show ?thesis using that(3) None \<open>needs_escape flags v\<close> by (simp add: cp_text_def escape_text_def letter_escape_def split: if_splits)
    next
      case False
      then have "v - 0x10000 < 0x100000" using assms by (simp add: plain_scalar_def scalar_value_def)
      from escape_values [OF this] show ?thesis using that(4) False \<open>needs_escape flags v\<close> by (simp add: cp_text_def escape_text_def Let_def)
    qed
  qed
qed

lemma utf8_of_no_quote:
  assumes "plain_scalar v" "v \<noteq> 92" "v \<noteq> 34"
  shows "quote_char \<notin> set (utf8_of v)" "backslash \<notin> set (utf8_of v)"
proof -
  have "b \<noteq> quote_char \<and> b \<noteq> backslash" if "b \<in> set (utf8_of v)" for b
  proof (cases "v < 0x80")
    case True
    then show ?thesis using that assms by (auto simp: utf8_of_cases char_eq_code)
  next
    case False
    then show ?thesis using utf8_of_bytes [of v b] that assms by (auto simp: plain_scalar_def scalar_value_def)
  qed
  then show "quote_char \<notin> set (utf8_of v)" "backslash \<notin> set (utf8_of v)" by auto
qed

lemma unescape_cp:
  assumes "plain_scalar v"
  shows "unescape (cp_text flags v @ p) = emit (utf8_of v) (unescape p)"
proof (cases rule: cp_text_cases [OF assms, where flags = flags, case_names plain letter unit pair])
  case plain
  then show ?thesis using utf8_of_no_quote [OF assms] by (simp add: unescape_plain)
next
  case (letter e)
  then show ?thesis using letter_escapes [OF letter(1)] by (simp add: unescape_simple)
next
  case unit
  then show ?thesis using assms unescape_unit [of v p] by (simp add: plain_scalar_def)
next
  case pair
  then show ?thesis using assms unescape_pair [of v p] by (simp add: plain_scalar_def scalar_value_def)
qed

lemma unescape_text:
  "list_all plain_scalar vs \<Longrightarrow> unescape (concat (map (cp_text flags) vs) @ [quote_char]) = Decoded (concat (map utf8_of vs))"
proof (induction vs)
  case Nil
  show ?case by (subst unescape.simps) simp
next
  case (Cons v vs)
  then show ?case using unescape_cp [of v flags "concat (map (cp_text flags) vs) @ [quote_char]"] by simp
qed

text \<open>The first pass goes over the text \<open>u\<close> and saves it.\<close>

definition passes :: "string \<Rightarrow> bool" where
  "passes u \<longleftrightarrow> (\<forall>l s t. got_at l (peek (u @ s)) (u @ s) t \<longrightarrow>
    (\<exists>k. lex_string_chars (peek (u @ s)) l = lex_string_chars (peek s) k \<and> got_at k (peek s) s (t @ u)))"

lemma passes_append: "passes u \<Longrightarrow> passes v \<Longrightarrow> passes (u @ v)"
  unfolding passes_def by (metis append.assoc)

lemma passes_Nil: "passes []"
  by (auto simp: passes_def)

lemma passes_concat: "(\<And>u. u \<in> set us \<Longrightarrow> passes u) \<Longrightarrow> passes (concat us)"
  by (induction us) (simp_all add: passes_Nil passes_append)

lemma passes_plain:
  assumes "31 < code b" "b \<noteq> quote_char" "b \<noteq> backslash"
  shows "passes [b]"
  unfolding passes_def
proof (intro allI impI)
  fix l s t
  assume g: "got_at l (peek ([b] @ s)) ([b] @ s) t"
  obtain k where "lex_get_save l = (peek s, k)" "got_at k (peek s) s (t @ [b])" using got_at_step [of l _ b s t] g by auto
  then show "\<exists>k. lex_string_chars (peek ([b] @ s)) l = lex_string_chars (peek s) k \<and> got_at k (peek s) s (t @ [b])"
    using assms by (subst lex_string_chars.simps) (auto simp: got_is_def)
qed

lemma passes_plain_list: "(\<And>b. b \<in> set bs \<Longrightarrow> 31 < code b \<and> b \<noteq> quote_char \<and> b \<noteq> backslash) \<Longrightarrow> passes bs"
  using passes_concat [of "map (\<lambda>b. [b]) bs"] passes_plain by auto

lemma backslash_step:
  assumes "got_at l (Byte backslash) (backslash # e # s) t"
  shows "\<exists>k. lex_get_save l = (Byte e, k) \<and> got_at k (Byte e) (e # s) (t @ [backslash])"
  using got_at_step [OF assms] by auto

lemma passes_letter:
  assumes "escape_char e" "e \<noteq> CHR ''u''"
  shows "passes [backslash, e]"
  unfolding passes_def
proof (intro allI impI)
  fix l s t
  assume "got_at l (peek ([backslash, e] @ s)) ([backslash, e] @ s) t"
  then obtain k where k: "lex_get_save l = (Byte e, k)" "got_at k (Byte e) (e # s) (t @ [backslash])" using backslash_step [of l e s t] by auto
  obtain m where m: "lex_get_save k = (peek s, m)" "got_at m (peek s) s ((t @ [backslash]) @ [e])" using got_at_step [OF k(2)] by auto
  show "\<exists>k. lex_string_chars (peek ([backslash, e] @ s)) l = lex_string_chars (peek s) k \<and> got_at k (peek s) s (t @ [backslash, e])"
    using assms k(1) m by (subst lex_string_chars.simps) (auto simp: got_is_def)
qed

lemma scan_hex_digits:
  assumes "got_at l (peek (ds @ s)) (ds @ s) t" "\<forall>d\<in>set ds. l_isxdigit d"
  shows "\<exists>k. lex_scan_hex (length ds) (peek (ds @ s)) l = (Some (peek s), k) \<and> got_at k (peek s) s (t @ ds)"
  using assms
proof (induction ds arbitrary: l t)
  case (Cons d ds)
  obtain k where k: "lex_get_save l = (peek (ds @ s), k)" "got_at k (peek (ds @ s)) (ds @ s) (t @ [d])"
    using got_at_step [of l _ d "ds @ s" t] Cons.prems(1) by auto
  show ?case using Cons.IH [OF k(2)] Cons.prems(2) k(1) by (auto simp: got_is_def)
qed simp

lemma passes_unit:
  assumes "v < 0x10000"
  shows "passes (backslash # CHR ''u'' # hex04 v)"
  unfolding passes_def
proof (intro allI impI)
  fix l s t
  let ?h = "hex04 v"
  assume "got_at l (peek ((backslash # CHR ''u'' # ?h) @ s)) ((backslash # CHR ''u'' # ?h) @ s) t"
  then obtain k where k: "lex_get_save l = (Byte (CHR ''u''), k)" "got_at k (Byte (CHR ''u'')) (CHR ''u'' # ?h @ s) (t @ [backslash])"
    using backslash_step [of l "CHR ''u''" "?h @ s" t] by auto
  obtain m where m: "lex_get_save k = (peek (?h @ s), m)" "got_at m (peek (?h @ s)) (?h @ s) ((t @ [backslash]) @ [CHR ''u''])"
    using got_at_step [OF k(2)] by auto
  have "v div 4096 < 16" using assms by (simp add: div_less_iff_less_mult)
  then have "\<forall>d\<in>set ?h. l_isxdigit d" using isxdigit_hexdigit by (simp add: hex04_digits [OF assms])
  from scan_hex_digits [OF m(2) this] length_hex04 [OF assms] obtain j where
    "lex_scan_hex 4 (peek (?h @ s)) m = (Some (peek s), j)" "got_at j (peek s) s (((t @ [backslash]) @ [CHR ''u'']) @ ?h)" by auto
  then show "\<exists>k. lex_string_chars (peek ((backslash # CHR ''u'' # ?h) @ s)) l = lex_string_chars (peek s) k \<and>
      got_at k (peek s) s (t @ backslash # CHR ''u'' # ?h)"
    using k(1) m(1) by (subst lex_string_chars.simps) (auto simp: got_is_def)
qed

lemma passes_cp:
  assumes "plain_scalar v"
  shows "passes (cp_text flags v)"
proof (cases rule: cp_text_cases [OF assms, where flags = flags, case_names plain letter unit pair])
  case plain
  have "31 < code b" if "b \<in> set (utf8_of v)" for b
  proof (cases "v < 0x80")
    case True
    then show ?thesis using that plain(4) by (simp add: utf8_of_cases)
  next
    case False
    then show ?thesis using utf8_of_bytes [of v b] that assms by (simp add: plain_scalar_def scalar_value_def)
  qed
  then show ?thesis unfolding plain(1) using utf8_of_no_quote [OF assms plain(2,3)] by (intro passes_plain_list) auto
next
  case (letter e)
  then show ?thesis using letter_escapes [OF letter(1)] by (simp add: passes_letter)
next
  case unit
  then show ?thesis by (simp add: passes_unit)
next
  case pair
  let ?c = "v - 0x10000"
  have c: "?c < 0x100000" using assms pair(1) by (simp add: plain_scalar_def scalar_value_def)
  then have "?c div 1024 < 1024" by (simp add: div_less_iff_less_mult)
  then have "0xD800 + ?c div 1024 < 0x10000" "0xDC00 + ?c mod 1024 < 0x10000" using mod_less_divisor [of 1024 ?c] by simp_all
  from passes_append [OF passes_unit [OF this(1)] passes_unit [OF this(2)]] show ?thesis unfolding pair(2) by simp
qed

lemma dump_string_text:
  assumes "list_all plain_scalar vs"
  shows "dump_string flags (concat (map utf8_of vs)) = (quote_char # concat (map (cp_text flags) vs) @ [quote_char], True)"
  using dump_chars_text [OF assms] by (simp add: dump_string_def)

text \<open>A printed string is scanned as the string.\<close>

lemma scan_string:
  assumes "clean s" "reads l (w @ fst (dump_string flags s) @ r)" "spaces w"
  shows "scans l r (TOKEN_STRING s)"
proof -
  obtain vs where vs: "list_all plain_scalar vs" "s = concat (map utf8_of vs)"
    using assms(1) unfolding clean_def plain_scalar_def [abs_def] by blast
  let ?u = "concat (map (cp_text flags) vs)"
  have reads: "reads l (w @ quote_char # ?u @ quote_char # r)" using assms(2) by (simp add: vs(2) dump_string_text [OF vs(1)])
  have q: "\<not> is_space quote_char" "\<not> structural quote_char" by (simp_all add: class_codes)
  obtain k where k: "got_at k (Byte quote_char) (quote_char # ?u @ quote_char # r) []" "lex_scan l = lex_scan_string k"
    using lex_scan_spaces [OF reads] assms(3) q by (auto simp: spaces_def)
  have "got_at (k\<lparr>token := TOKEN_INVALID\<rparr>) (Byte quote_char) (quote_char # ?u @ quote_char # r) []" using k(1) by simp
  from got_at_step [OF this] obtain m where m: "lex_get_save (k\<lparr>token := TOKEN_INVALID\<rparr>) = (peek (?u @ quote_char # r), m)"
    "got_at m (peek (?u @ quote_char # r)) (?u @ quote_char # r) [quote_char]" by auto
  have "passes ?u" using passes_cp vs(1) by (intro passes_concat) (auto simp: list_all_iff)
  then obtain j where j: "lex_string_chars (peek (?u @ quote_char # r)) m = lex_string_chars (Byte quote_char) j"
    "got_at j (Byte quote_char) (quote_char # r) ([quote_char] @ ?u)" using m(2) unfolding passes_def by fastforce
  have e: "lex_string_chars (Byte quote_char) j = (True, j)" by (subst lex_string_chars.simps) simp
  have d: "unescape (drop (Suc 0) (saved_text j)) = Decoded s" using unescape_text [OF vs(1)] j(2) by (simp add: got_at_def vs(2))
  have "lex_scan l = j\<lparr>token := TOKEN_STRING s\<rparr>" by (simp add: k(2) lex_scan_string_def m(1) j(1) e d)
  then show ?thesis using j(2) by (simp add: scans_def got_at_def)
qed

end
