(* ===== verification/Json_Round.thy ===== *)
theory Json_Round
  imports Json_Tokens
begin

text \<open>
  Printing and parsing fit together: what \<^verbatim>\<open>json_dumps\<close> writes, \<^verbatim>\<open>json_loads\<close> reads back as an equal
  value, whatever the flags of the printer and the order in which it visits the keys of an object.
\<close>

section \<open>Values\<close>

text \<open>The values the statement is about: strings and keys are texts, integers fit their type, the keys of an
  object are distinct (as they are in the table) and no more than the table can hold, and there is no real,
  whose decimal text need not denote it.\<close>

definition table_limit :: nat where "table_limit = 1610612741"

definition text_ok :: "string \<Rightarrow> bool" where
  "text_ok s \<longleftrightarrow> utf8_check_string s \<and> NUL \<notin> set s"

function json_ok :: "json \<Rightarrow> bool" where
  "json_ok JNull = True"
| "json_ok JTrue = True"
| "json_ok JFalse = True"
| "json_ok (JInteger i) = (- (2 ^ 63) \<le> i \<and> i < 2 ^ 63)"
| "json_ok (JReal d) = False"
| "json_ok (JString s) = text_ok s"
| "json_ok (JArray vs) = list_all json_ok vs"
| "json_ok (JObject kvs) =
    (distinct (map fst kvs) \<and> length kvs \<le> table_limit \<and> list_all text_ok (map fst kvs) \<and> list_all json_ok (map snd kvs))"
  by pat_completeness auto
termination
  by (relation "measure size") (auto simp: less_Suc_eq_le size_list_estimation' intro!: size_element [unfolded less_Suc_eq_le])

text \<open>The text \<open>t\<close> of a value parses to \<open>w\<close>.\<close>

definition parses :: "nat \<Rightarrow> string \<Rightarrow> json \<Rightarrow> bool" where
  "parses lflags t w \<longleftrightarrow> clean t \<and> t \<noteq> [] \<and>
    (\<forall>n l u r. length t \<le> n \<longrightarrow> reads l (u @ t @ r) \<longrightarrow> spaces u \<longrightarrow> delim r \<longrightarrow>
      (\<exists>k. parse_value lflags n (lex_scan l) = Some (Some w, k) \<and> reads k r))"

lemma parses_run:
  assumes "parses lflags t w" "length t \<le> n" "reads l (u @ t @ r)" "spaces u" "delim r"
  obtains k where "parse_value lflags n (lex_scan l) = Some (Some w, k)" "reads k r"
  using assms unfolding parses_def by blast

text \<open>A value whose text is one token.\<close>

lemma parses_token:
  assumes "clean t" "t \<noteq> []" "\<And>l u r. reads l (u @ t @ r) \<Longrightarrow> spaces u \<Longrightarrow> delim r \<Longrightarrow> scans l r tok"
    "\<And>n l. token l = tok \<Longrightarrow> parse_value lflags (Suc n) l = Some (Some w, l)"
  shows "parses lflags t w"
  unfolding parses_def
proof (intro conjI allI impI)
  fix n l u r
  assume a: "length t \<le> n" "reads l (u @ t @ r)" "spaces u" "delim r"
  then obtain m where "n = Suc m" using assms(2) by (cases n) auto
  then show "\<exists>k. parse_value lflags n (lex_scan l) = Some (Some w, k) \<and> reads k r"
    using assms(3) [OF a(2-4)] assms(4) [of "lex_scan l" m] by (simp add: scans_def)
qed (use assms in simp_all)

lemma clean_literals: "clean ''null''" "clean ''true''" "clean ''false''"
  by (rule clean_ascii; auto simp: code_def)+

lemma alpha_literals: "\<forall>x\<in>set ''null''. l_isalpha x" "\<forall>x\<in>set ''true''. l_isalpha x" "\<forall>x\<in>set ''false''. l_isalpha x"
  by (simp_all add: l_isalpha_def l_isupper_def l_islower_def code_def)

lemma parses_literals: "parses lflags ''null'' JNull" "parses lflags ''true'' JTrue" "parses lflags ''false'' JFalse"
proof -
  have s: "scans l r (if t = ''true'' then TOKEN_TRUE else if t = ''false'' then TOKEN_FALSE else if t = ''null'' then TOKEN_NULL else TOKEN_INVALID)"
    if "t = b # v" "\<forall>x\<in>set t. l_isalpha x" "reads l (u @ t @ r)" "spaces u" "delim r" for l u t r b v
    unfolding that(1) by (rule scan_word) (use that in simp_all)
  show "parses lflags ''null'' JNull"
    by (rule parses_token [where tok = TOKEN_NULL]) (use clean_literals s [OF _ alpha_literals(1)] in \<open>auto simp: parse_value.simps(2)\<close>)
  show "parses lflags ''true'' JTrue"
    by (rule parses_token [where tok = TOKEN_TRUE]) (use clean_literals s [OF _ alpha_literals(2)] in \<open>auto simp: parse_value.simps(2)\<close>)
  show "parses lflags ''false'' JFalse"
    by (rule parses_token [where tok = TOKEN_FALSE]) (use clean_literals s [OF _ alpha_literals(3)] in \<open>auto simp: parse_value.simps(2)\<close>)
qed

lemma clean_dec_int: "clean (dec_int i)"
proof (rule clean_ascii)
  fix c
  assume "c \<in> set (dec_int i)"
  then have "c = CHR ''-'' \<or> isdigit c" using dec_nat_digits by (auto simp: dec_int_def split: if_splits)
  then show "0 < code c \<and> code c < 128" by (auto simp: isdigit_def code_literals)
qed

lemma parses_integer:
  assumes "- (2 ^ 63) \<le> i" "i < 2 ^ 63" "\<not> flag_set lflags JSON_DECODE_INT_AS_REAL"
  shows "parses lflags (dec_int i) (JInteger i)"
proof (rule parses_token [where tok = "TOKEN_INTEGER i"])
  show "dec_int i \<noteq> []" using dec_nat_nonempty by (simp add: dec_int_def)
qed (use assms scan_integer clean_dec_int in \<open>auto simp: parse_value.simps(2)\<close>)

lemma hexdigit_ascii: "n < 16 \<Longrightarrow> 0 < code (hexdigit n) \<and> code (hexdigit n) < 128"
  by (simp add: code_hexdigit)

lemma clean_hex04: "v < 0x10000 \<Longrightarrow> clean (backslash # CHR ''u'' # hex04 v)"
proof (rule clean_ascii)
  fix c
  assume v: "v < 0x10000" and c: "c \<in> set (backslash # CHR ''u'' # hex04 v)"
  have "v div 4096 < 16" using v by (simp add: div_less_iff_less_mult)
  then have "\<forall>x\<in>set (hex04 v). 0 < code x \<and> code x < 128" using hexdigit_ascii by (simp add: hex04_digits [OF v] del: One_nat_def)
  then show "0 < code c \<and> code c < 128" using c by (auto simp: code_literals)
qed

lemma clean_cp:
  assumes "plain_scalar v"
  shows "clean (cp_text flags v)"
proof (cases rule: cp_text_cases [OF assms, where flags = flags, case_names plain letter unit pair])
  case plain
  then show ?thesis unfolding clean_def using assms by (intro exI [of _ "[v]"]) (simp add: plain_scalar_def)
next
  case (letter e)
  have "0 < code e \<and> code e < 128" using letter(1) by (auto simp: letter_escape_def code_literals split: if_splits)
  then show ?thesis unfolding letter(2) by (intro clean_ascii) auto
next
  case unit
  then show ?thesis by (simp add: clean_hex04)
next
  case pair
  let ?c = "v - 0x10000"
  have c: "?c < 0x100000" using assms pair(1) by (simp add: plain_scalar_def scalar_value_def)
  then have "?c div 1024 < 1024" by (simp add: div_less_iff_less_mult)
  then have "0xD800 + ?c div 1024 < 0x10000" "0xDC00 + ?c mod 1024 < 0x10000" using mod_less_divisor [of 1024 ?c] by simp_all
  from clean_append [OF clean_hex04 [OF this(1)] clean_hex04 [OF this(2)]] show ?thesis unfolding pair(2) by simp
qed

lemma clean_concat: "(\<And>u. u \<in> set us \<Longrightarrow> clean u) \<Longrightarrow> clean (concat us)"
  by (induction us) (simp_all add: clean_append)

lemma text_ok_clean: "text_ok s \<longleftrightarrow> clean s"
  by (simp add: text_ok_def clean_iff)

lemma dump_string_ok:
  assumes "text_ok s"
  shows "snd (dump_string flags s)" "clean (fst (dump_string flags s))" "fst (dump_string flags s) \<noteq> []"
proof -
  obtain vs where vs: "list_all plain_scalar vs" "s = concat (map utf8_of vs)"
    using assms unfolding text_ok_clean clean_def plain_scalar_def [abs_def] by blast
  note d = dump_string_text [OF vs(1), of flags]
  show "snd (dump_string flags s)" "fst (dump_string flags s) \<noteq> []" by (simp_all add: vs(2) d)
  have q: "clean [quote_char]" by (rule clean_ascii) simp
  have "clean (concat (map (cp_text flags) vs))" using vs(1) clean_cp by (intro clean_concat) (auto simp: list_all_iff)
  from clean_append [OF q clean_append [OF this q]] show "clean (fst (dump_string flags s))" by (simp add: vs(2) d)
qed

lemma parses_string: "text_ok s \<Longrightarrow> parses lflags (fst (dump_string flags s)) (JString s)"
  by (rule parses_token [where tok = "TOKEN_STRING s"])
    (use dump_string_ok scan_string in \<open>auto simp: parse_value.simps(2) text_ok_clean\<close>)

lemma parses_live:
  assumes "parses lflags t w" "reads l (u @ t @ r)" "spaces u" "delim r"
  shows "token (lex_scan l) \<noteq> TOKEN_EOF" "token (lex_scan l) \<noteq> TOKEN_CHAR (CHR '']'')"
proof -
  obtain m where m: "length t = Suc m" using assms(1) by (cases t) (auto simp: parses_def)
  obtain k where "parse_value lflags (Suc m) (lex_scan l) = Some (Some w, k)"
    using parses_run [OF assms(1) _ assms(2-4), of "Suc m"] m by auto
  then show "token (lex_scan l) \<noteq> TOKEN_EOF" "token (lex_scan l) \<noteq> TOKEN_CHAR (CHR '']'')"
    by (auto simp: parse_value.simps(2))
qed

subsection \<open>Arrays\<close>

text \<open>The white space of an indentation.\<close>

definition gap :: "string \<Rightarrow> bool" where
  "gap g \<longleftrightarrow> spaces g \<and> (g = [] \<or> hd g = newline)"

lemma spaces_simps [simp]: "spaces []" "spaces (u @ v) \<longleftrightarrow> spaces u \<and> spaces v"
  by (auto simp: spaces_def)

lemma dump_indent_spaces: "spaces (dump_indent flags depth sp)"
  by (auto simp: dump_indent_def spaces_def is_space_code split: if_splits)

lemma dump_indent_gap: "gap (dump_indent flags depth False)"
  using dump_indent_spaces [of flags depth False] by (simp add: gap_def) (simp add: dump_indent_def)

lemma delim_gap: "gap g \<Longrightarrow> b = CHR '']'' \<or> b = CHR ''}'' \<Longrightarrow> delim (g @ b # r)"
  by (cases g) (auto simp: gap_def delim_def)

lemma structural_chars: "structural (CHR ''['')" "structural (CHR '']'')" "structural (CHR ''{'')" "structural (CHR ''}'')"
  "structural (CHR '':'')" "structural (CHR '','')"
  by (simp_all add: structural_def)

lemma parse_array_items:
  assumes "list_all2 (parses lflags) ts ws" "ts \<noteq> []" "spaces sw" "gap g" "\<forall>t\<in>set ts. length t \<le> m" "length ts \<le> n"
    "reads l (u @ join (CHR '','' # sw) ts @ g @ CHR '']'' # r)" "spaces u"
  shows "token (lex_scan l) \<noteq> TOKEN_CHAR (CHR '']'') \<and>
    (\<exists>k. parse_array_loop (\<lambda>l. parse_value lflags m l) n arr (lex_scan l) = Some (Some (JArray (arr @ ws)), k) \<and> reads k r)"
  using assms
proof (induction ts arbitrary: ws arr n l u)
  case (Cons t ts)
  obtain w ws' where w: "ws = w # ws'" "parses lflags t w" "list_all2 (parses lflags) ts ws'"
    using Cons.prems(1) by (cases ws) auto
  obtain n' where n: "n = Suc n'" using Cons.prems(6) by (cases n) auto
  show ?case
  proof (cases ts)
    case Nil
    then have ws': "ws' = []" using w(3) by simp
    have rd: "reads l (u @ t @ g @ CHR '']'' # r)" using Cons.prems(7) by (simp add: Nil)
    have d: "delim (g @ CHR '']'' # r)" using delim_gap Cons.prems(4) by blast
    obtain k where k: "parse_value lflags m (lex_scan l) = Some (Some w, k)" "reads k (g @ CHR '']'' # r)"
      using parses_run [OF w(2) _ rd Cons.prems(8) d, of m] Cons.prems(5) by auto
    have c: "scans k r (TOKEN_CHAR (CHR '']''))" using scan_structural [OF k(2)] Cons.prems(4) structural_chars by (simp add: gap_def)
    show ?thesis using k c parses_live [OF w(2) rd Cons.prems(8) d] by (simp add: n w(1) ws' scans_def Let_def)
  next
    case (Cons t2 ts2)
    note C = Cons
    let ?q = "join (CHR '','' # sw) ts @ g @ CHR '']'' # r"
    have rd: "reads l (u @ t @ CHR '','' # sw @ ?q)" using Cons.prems(7) by (simp add: C)
    have d: "delim (CHR '','' # sw @ ?q)" by (simp add: delim_def)
    obtain k where k: "parse_value lflags m (lex_scan l) = Some (Some w, k)" "reads k (CHR '','' # sw @ ?q)"
      using parses_run [OF w(2) _ rd Cons.prems(8) d, of m] Cons.prems(5) by auto
    have c: "token (lex_scan k) = TOKEN_CHAR (CHR '','')" "reads (lex_scan k) (sw @ ?q)"
      using scan_structural [of k "[]" "CHR '',''" "sw @ ?q"] k(2) structural_chars by (simp_all add: scans_def)
    have "\<exists>j. parse_array_loop (\<lambda>l. parse_value lflags m l) n' (arr @ [w]) (lex_scan (lex_scan k)) =
        Some (Some (JArray ((arr @ [w]) @ ws')), j) \<and> reads j r"
      using Cons.prems c(2) n C by (intro Cons.IH [OF w(3), THEN conjunct2]) auto
    then show ?thesis using k c parses_live [OF w(2) rd Cons.prems(8) d] by (simp add: n w(1) Let_def)
  qed
qed simp

lemma join_length: "t \<in> set ts \<Longrightarrow> length t \<le> length (join sep ts)"
  by (induction sep ts rule: join.induct) auto

lemma join_count: "(\<forall>t\<in>set ts. t \<noteq> []) \<Longrightarrow> length ts \<le> length (join sep ts)"
  by (induction sep ts rule: join.induct) (auto simp: Suc_le_eq neq_Nil_conv)

lemma clean_join: "(\<And>t. t \<in> set ts \<Longrightarrow> clean t) \<Longrightarrow> clean sep \<Longrightarrow> clean (join sep ts)"
  by (induction sep ts rule: join.induct) (simp_all add: clean_append)

lemma clean_spaces: "spaces u \<Longrightarrow> clean u"
  by (rule clean_ascii) (auto simp: spaces_def is_space_code)

lemma clean_char: "0 < code c \<Longrightarrow> code c < 128 \<Longrightarrow> clean [c]"
  by (rule clean_ascii) simp

lemma clean_items:
  assumes "\<And>t. t \<in> set ts \<Longrightarrow> clean t" "0 < code a" "code a < 128" "0 < code b" "code b < 128"
  shows "clean (a # dump_items flags depth ts @ [b])"
proof -
  have "clean (CHR '','' # dump_indent flags (depth + 1) True)"
    using clean_append [OF clean_char [of "CHR '',''"] clean_spaces [OF dump_indent_spaces]] by (simp add: code_literals)
  then have "clean (join (CHR '','' # dump_indent flags (depth + 1) True) ts)" using assms(1) by (rule clean_join [rotated])
  then have "clean ([a] @ dump_items flags depth ts @ [b])"
    unfolding dump_items_def by (intro clean_append clean_char clean_spaces [OF dump_indent_spaces]) (use assms in simp_all)
  then show ?thesis by simp
qed

lemma parses_array:
  assumes "list_all2 (parses lflags) ts ws" "ts \<noteq> []"
  shows "parses lflags (''['' @ dump_items flags depth ts @ '']'') (JArray ws)" (is "parses _ ?t _")
  unfolding parses_def
proof (intro conjI allI impI)
  have ok: "clean t \<and> t \<noteq> []" if "t \<in> set ts" for t
    using assms(1) that by (auto simp: list_all2_conv_all_nth in_set_conv_nth parses_def)
  show "clean ?t" using clean_items [of ts "CHR ''[''" "CHR '']''" flags depth] ok by (simp add: code_literals)
  show "?t \<noteq> []" by simp
  fix n l u r
  assume a: "length ?t \<le> n" "reads l (u @ ?t @ r)" "spaces u" "delim r"
  let ?sw = "dump_indent flags (depth + 1) True" and ?g = "dump_indent flags depth False" and ?i = "dump_indent flags (depth + 1) False"
  let ?q = "?i @ join (CHR '','' # ?sw) ts @ ?g @ CHR '']'' # r"
  obtain m where n: "n = Suc m" using a(1) by (cases n) auto
  have len: "length (join (CHR '','' # ?sw) ts) \<le> m" using a(1) n by (simp add: dump_items_def)
  have rd: "reads l (u @ CHR ''['' # ?q)" using a(2) by (simp add: dump_items_def)
  have c: "token (lex_scan l) = TOKEN_CHAR (CHR ''['')" "reads (lex_scan l) ?q"
    using scan_structural [OF rd a(3)] structural_chars by (simp_all add: scans_def)
  have "token (lex_scan (lex_scan l)) \<noteq> TOKEN_CHAR (CHR '']'') \<and>
      (\<exists>k. parse_array_loop (\<lambda>l. parse_value lflags m l) m [] (lex_scan (lex_scan l)) = Some (Some (JArray ([] @ ws)), k) \<and> reads k r)"
  proof (rule parse_array_items [OF assms dump_indent_spaces dump_indent_gap _ _ c(2) dump_indent_spaces])
    show "\<forall>t\<in>set ts. length t \<le> m" using join_length len le_trans by blast
    show "length ts \<le> m" using join_count [of ts "CHR '','' # ?sw"] ok len by fastforce
  qed
  then obtain k where k: "parse_array_loop (\<lambda>l. parse_value lflags m l) m [] (lex_scan (lex_scan l)) = Some (Some (JArray ws), k)" "reads k r"
    and "token (lex_scan (lex_scan l)) \<noteq> TOKEN_CHAR (CHR '']'')" by auto
  then show "\<exists>k. parse_value lflags n (lex_scan l) = Some (Some (JArray ws), k) \<and> reads k r"
    using k c by (simp add: n parse_value.simps(2) parse_array_def Let_def)
qed

subsection \<open>Objects\<close>

text \<open>The text of a member.\<close>

definition member :: "nat \<Rightarrow> string \<Rightarrow> string \<Rightarrow> string" where
  "member flags key t = fst (dump_string flags key) @ dump_separator flags @ t"

lemma dump_separator_spaces: "\<exists>sp. dump_separator flags = CHR '':'' # sp \<and> spaces sp"
  by (auto simp: dump_separator_def spaces_def is_space_code code_def)

lemma assoc_set_new: "key \<notin> set (map fst kvs) \<Longrightarrow> assoc_set kvs key v = kvs @ [(key, v)]"
  by (induction kvs key v rule: assoc_set.induct) auto

text \<open>One member: its key, the colon and its value.\<close>

lemma parse_member:
  assumes "parses lflags t w" "text_ok key" "length t \<le> m" "reads l (u @ member flags key t @ r)" "spaces u" "delim r"
  obtains k where "token (lex_scan l) = TOKEN_STRING key" "token (lex_scan (lex_scan l)) = TOKEN_CHAR (CHR '':'')"
    "parse_value lflags m (lex_scan (lex_scan (lex_scan l))) = Some (Some w, k)" "reads k r"
proof -
  obtain sp where sp: "dump_separator flags = CHR '':'' # sp" "spaces sp" using dump_separator_spaces by blast
  have rd: "reads l (u @ fst (dump_string flags key) @ CHR '':'' # sp @ t @ r)" using assms(4) by (simp add: member_def sp(1))
  have key: "token (lex_scan l) = TOKEN_STRING key" "reads (lex_scan l) ([] @ CHR '':'' # sp @ t @ r)"
    using scan_string [OF _ rd assms(5)] assms(2) by (simp_all add: scans_def text_ok_clean)
  have colon: "token (lex_scan (lex_scan l)) = TOKEN_CHAR (CHR '':'')" "reads (lex_scan (lex_scan l)) (sp @ t @ r)"
    using scan_structural [OF key(2)] structural_chars by (simp_all add: scans_def)
  from parses_run [OF assms(1,3) colon(2) sp(2) assms(6)] obtain k where
    "parse_value lflags m (lex_scan (lex_scan (lex_scan l))) = Some (Some w, k)" "reads k r" by blast
  with key(1) colon(1) that show ?thesis by blast
qed

lemma parse_object_members:
  assumes "list_all2 (parses lflags) ts ws" "length ks = length ts" "ts \<noteq> []" "list_all text_ok ks" "distinct (map fst acc @ ks)"
    "spaces sw" "gap g" "\<forall>t\<in>set ts. length t \<le> m" "length ts \<le> n"
    "reads l (u @ join (CHR '','' # sw) (map2 (member flags) ks ts) @ g @ CHR ''}'' # r)" "spaces u"
  shows "token (lex_scan l) \<noteq> TOKEN_CHAR (CHR ''}'') \<and>
    (\<exists>k. parse_object_loop (\<lambda>l. parse_value lflags m l) lflags n (JObject acc) (lex_scan l) = Some (Some (JObject (acc @ zip ks ws)), k) \<and> reads k r)"
  using assms
proof (induction ts arbitrary: ws ks acc n l u)
  case (Cons t ts)
  obtain w ws' where w: "ws = w # ws'" "parses lflags t w" "list_all2 (parses lflags) ts ws'"
    using Cons.prems(1) by (cases ws) auto
  obtain key ks' where ks: "ks = key # ks'" "length ks' = length ts" "text_ok key" using Cons.prems(2,4) by (cases ks) auto
  obtain n' where n: "n = Suc n'" using Cons.prems(9) by (cases n) auto
  have new: "map_of acc key = None" "assoc_set acc key w = acc @ [(key, w)]"
    using Cons.prems(5) assoc_set_new [of key acc w] by (auto simp: ks map_of_eq_None_iff)
  have len: "length t \<le> m" using Cons.prems(8) by simp
  show ?case
  proof (cases ts)
    case Nil
    then have e: "ws' = []" "ks' = []" using w(3) ks(2) by simp_all
    have rd: "reads l (u @ member flags key t @ g @ CHR ''}'' # r)" using Cons.prems(10) by (simp add: Nil ks e)
    have d: "delim (g @ CHR ''}'' # r)" using delim_gap Cons.prems(7) by blast
    obtain k where k: "token (lex_scan l) = TOKEN_STRING key" "token (lex_scan (lex_scan l)) = TOKEN_CHAR (CHR '':'')"
      "parse_value lflags m (lex_scan (lex_scan (lex_scan l))) = Some (Some w, k)" "reads k (g @ CHR ''}'' # r)"
      by (rule parse_member [OF w(2) ks(3) len rd Cons.prems(11) d])
    have c: "scans k r (TOKEN_CHAR (CHR ''}''))" using scan_structural [OF k(4)] Cons.prems(7) structural_chars by (simp add: gap_def)
    show ?thesis using k c new by (simp add: n w(1) ks(1) e scans_def Let_def)
  next
    case (Cons t2 ts2)
    note C = Cons
    obtain key2 ks2 where k2: "ks' = key2 # ks2" using ks(2) C by (cases ks') auto
    let ?q = "join (CHR '','' # sw) (map2 (member flags) ks' ts) @ g @ CHR ''}'' # r"
    have rd: "reads l (u @ member flags key t @ CHR '','' # sw @ ?q)" using Cons.prems(10) by (simp add: C k2 ks(1))
    have d: "delim (CHR '','' # sw @ ?q)" by (simp add: delim_def)
    obtain k where k: "token (lex_scan l) = TOKEN_STRING key" "token (lex_scan (lex_scan l)) = TOKEN_CHAR (CHR '':'')"
      "parse_value lflags m (lex_scan (lex_scan (lex_scan l))) = Some (Some w, k)" "reads k (CHR '','' # sw @ ?q)"
      by (rule parse_member [OF w(2) ks(3) len rd Cons.prems(11) d])
    have c: "token (lex_scan k) = TOKEN_CHAR (CHR '','')" "reads (lex_scan k) (sw @ ?q)"
      using scan_structural [of k "[]" "CHR '',''" "sw @ ?q"] k(4) structural_chars by (simp_all add: scans_def)
    have "\<exists>j. parse_object_loop (\<lambda>l. parse_value lflags m l) lflags n' (JObject (acc @ [(key, w)])) (lex_scan (lex_scan k)) =
        Some (Some (JObject ((acc @ [(key, w)]) @ zip ks' ws')), j) \<and> reads j r"
      using Cons.prems c(2) n C ks by (intro Cons.IH [OF w(3), THEN conjunct2]) auto
    then show ?thesis using k c new by (simp add: n w(1) ks(1) Let_def)
  qed
qed simp

lemma map2_member_ok:
  assumes "list_all2 (parses lflags) ts ws" "length ks = length ts" "list_all text_ok ks" "x \<in> set (map2 (member flags) ks ts)"
  shows "clean x" "x \<noteq> []"
proof -
  obtain i where i: "i < length ts" "x = member flags (ks ! i) (ts ! i)" using assms(2,4) by (auto simp: set_zip)
  have p: "clean (ts ! i)" using assms(1) i(1) by (auto simp: list_all2_conv_all_nth parses_def)
  have k: "text_ok (ks ! i)" using assms(2,3) i(1) by (simp add: list_all_length)
  obtain sp where sp: "dump_separator flags = CHR '':'' # sp" "spaces sp" using dump_separator_spaces by blast
  have "clean ([CHR '':''] @ sp)" by (intro clean_append clean_char clean_spaces sp(2)) (simp_all add: code_literals)
  then have s: "clean (dump_separator flags)" by (simp add: sp(1))
  show "clean x" unfolding i(2) member_def by (intro clean_append dump_string_ok(2) k s p)
  show "x \<noteq> []" using dump_string_ok(3) [OF k] by (simp add: i(2) member_def)
qed

lemma parses_object:
  assumes "list_all2 (parses lflags) ts ws" "length ks = length ts" "ts \<noteq> []" "list_all text_ok ks" "distinct ks"
  shows "parses lflags (''{'' @ dump_items flags depth (map2 (member flags) ks ts) @ ''}'') (JObject (zip ks ws))" (is "parses _ ?t _")
  unfolding parses_def
proof (intro conjI allI impI)
  note ok = map2_member_ok [OF assms(1,2,4), where flags = flags]
  show "clean ?t" using clean_items [of "map2 (member flags) ks ts" "CHR ''{''" "CHR ''}''" flags depth] ok by (simp add: code_literals)
  show "?t \<noteq> []" by simp
  fix n l u r
  assume a: "length ?t \<le> n" "reads l (u @ ?t @ r)" "spaces u" "delim r"
  let ?sw = "dump_indent flags (depth + 1) True" and ?g = "dump_indent flags depth False" and ?i = "dump_indent flags (depth + 1) False"
  let ?ms = "map2 (member flags) ks ts"
  let ?q = "?i @ join (CHR '','' # ?sw) ?ms @ ?g @ CHR ''}'' # r"
  obtain m where n: "n = Suc m" using a(1) by (cases n) auto
  have len: "length (join (CHR '','' # ?sw) ?ms) \<le> m" using a(1) n by (simp add: dump_items_def)
  have rd: "reads l (u @ CHR ''{'' # ?q)" using a(2) by (simp add: dump_items_def)
  have c: "token (lex_scan l) = TOKEN_CHAR (CHR ''{'')" "reads (lex_scan l) ?q"
    using scan_structural [OF rd a(3)] structural_chars by (simp_all add: scans_def)
  have "token (lex_scan (lex_scan l)) \<noteq> TOKEN_CHAR (CHR ''}'') \<and>
      (\<exists>k. parse_object_loop (\<lambda>l. parse_value lflags m l) lflags m (JObject []) (lex_scan (lex_scan l)) =
        Some (Some (JObject ([] @ zip ks ws)), k) \<and> reads k r)"
  proof (rule parse_object_members [OF assms(1-4) _ dump_indent_spaces dump_indent_gap _ _ c(2) dump_indent_spaces])
    show "distinct (map fst [] @ ks)" using assms(5) by simp
    show "\<forall>t\<in>set ts. length t \<le> m"
    proof
      fix t
      assume "t \<in> set ts"
      then obtain i where i: "i < length ts" "t = ts ! i" by (auto simp: in_set_conv_nth)
      then have "member flags (ks ! i) t \<in> set ?ms" using assms(2) by (force simp: set_zip)
      from join_length [OF this] have "length (member flags (ks ! i) t) \<le> m" using len le_trans by blast
      then show "length t \<le> m" by (simp add: member_def)
    qed
    show "length ts \<le> m" using join_count [of ?ms "CHR '','' # ?sw"] ok(2) len assms(2) by fastforce
  qed
  then obtain k where k: "parse_object_loop (\<lambda>l. parse_value lflags m l) lflags m (JObject []) (lex_scan (lex_scan l)) = Some (Some (JObject (zip ks ws)), k)" "reads k r"
    and "token (lex_scan (lex_scan l)) \<noteq> TOKEN_CHAR (CHR ''}'')" by auto
  then show "\<exists>k. parse_value lflags n (lex_scan l) = Some (Some (JObject (zip ks ws)), k) \<and> reads k r"
    using c by (simp add: n parse_value.simps(2) parse_object_def Let_def)
qed

text \<open>The empty containers.\<close>

lemma parses_empty: "parses lflags ''[]'' (JArray [])" "parses lflags ''{}'' (JObject [])"
proof -
  have two: "\<exists>k. parse_value lflags n (lex_scan l) = Some (Some w, k) \<and> reads k r"
    if "length [a, b] \<le> n" "reads l (u @ [a, b] @ r)" "spaces u" "(a, b, w) = (CHR ''['', CHR '']'', JArray []) \<or> (a, b, w) = (CHR ''{'', CHR ''}'', JObject [])"
    for n l u r a b w
  proof -
    have "n \<noteq> 0" using that(1) by auto
    then obtain m where n: "n = Suc m" using not0_implies_Suc by blast
    have s: "structural a" "structural b" using that(4) structural_chars by auto
    have c: "token (lex_scan l) = TOKEN_CHAR a" "reads (lex_scan l) ([] @ b # r)"
      using scan_structural [of l u a "b # r"] that(2,3) s by (simp_all add: scans_def)
    have "token (lex_scan (lex_scan l)) = TOKEN_CHAR b" "reads (lex_scan (lex_scan l)) r"
      using scan_structural [OF c(2)] s by (simp_all add: scans_def)
    then show ?thesis using c(1) that(4) by (auto simp: n parse_value.simps(2) parse_array_def parse_object_def Let_def)
  qed
  have "clean ''[]''" "clean ''{}''" by (rule clean_ascii; auto simp: code_literals)+
  then show "parses lflags ''[]'' (JArray [])" "parses lflags ''{}'' (JObject [])"
    unfolding parses_def using two by auto
qed

subsection \<open>All values\<close>

lemma list_all2_choice: "(\<And>x. x \<in> set xs \<Longrightarrow> \<exists>y z. p x y z) \<Longrightarrow> \<exists>ys zs. length ys = length xs \<and> length zs = length xs \<and> (\<forall>i<length xs. p (xs ! i) (ys ! i) (zs ! i))"
proof (induction xs)
  case (Cons x xs)
  obtain y z where "p x y z" using Cons.prems [of x] by auto
  moreover obtain ys zs where "length ys = length xs" "length zs = length xs" "\<forall>i<length xs. p (xs ! i) (ys ! i) (zs ! i)" using Cons by auto
  ultimately show ?case by (intro exI [of _ "y # ys"] exI [of _ "z # zs"]) (auto simp: nth_Cons split: nat.split)
qed simp

lemma those_map: "(\<And>i. i < length xs \<Longrightarrow> f (xs ! i) = Some (ys ! i)) \<Longrightarrow> length ys = length xs \<Longrightarrow> those (map f xs) = Some ys"
proof (induction xs arbitrary: ys)
  case (Cons x xs)
  obtain y ys' where ys: "ys = y # ys'" using Cons.prems(2) by (cases ys) auto
  have "f x = Some y" using Cons.prems(1) [of 0] by (simp add: ys)
  moreover have "those (map f xs) = Some ys'" using Cons.prems(1) [of "Suc _"] Cons.prems(2) by (intro Cons.IH) (auto simp: ys)
  ultimately show ?case by (simp add: ys)
qed simp

lemma length_dec_int: "- (2 ^ 63) \<le> i \<Longrightarrow> i < 2 ^ 63 \<Longrightarrow> length (dec_int i) < 100"
proof -
  assume "- (2 ^ 63) \<le> i" "i < 2 ^ 63"
  then have "nat (- i) < 10 ^ 19" "nat i < 10 ^ 19" by (simp_all add: nat_less_iff)
  then show ?thesis using length_dec_nat [of "nat (- i)" 19] length_dec_nat [of "nat i" 19] by (auto simp: dec_int_def)
qed

definition any_order :: "key_order \<Rightarrow> bool" where
  "any_order it \<longleftrightarrow>
    (\<forall>kvs. distinct (map fst kvs) \<longrightarrow> length kvs \<le> table_limit \<longrightarrow> mset (it kvs) = mset (map fst kvs))"

lemma dump_keys_mset: "any_order it \<Longrightarrow> distinct (map fst kvs) \<Longrightarrow> length kvs \<le> table_limit \<Longrightarrow> mset (dump_keys it flags kvs) = mset (map fst kvs)"
  by (simp add: dump_keys_def any_order_def)

lemma json_equal_object:
  assumes "distinct (map fst kvs)" "mset ks = mset (map fst kvs)" "length ws = length ks"
    "\<And>i. i < length ks \<Longrightarrow> \<exists>v. map_of kvs (ks ! i) = Some v \<and> json_equal v (ws ! i)"
  shows "json_equal (JObject kvs) (JObject (zip ks ws))"
proof -
  have d: "distinct ks" using assms(1,2) mset_eq_imp_distinct_iff by blast
  have len: "length kvs = length ks" using assms(2) by (metis length_map size_mset)
  have "\<exists>v w. map_of kvs key = Some v \<and> map_of (zip ks ws) key = Some w \<and> json_equal v w" if "key \<in> set (map fst kvs)" for key
  proof -
    have "key \<in> set ks" using that assms(2) by (metis set_mset_mset)
    then obtain i where i: "i < length ks" "key = ks ! i" by (auto simp: in_set_conv_nth)
    have "map_of (zip ks ws) key = Some (ws ! i)" using i d assms(3) by (simp add: map_of_zip_nth)
    then show ?thesis using assms(4) [OF i(1)] i(2) by auto
  qed
  then have "list_all (\<lambda>key. case map_of kvs key of None \<Rightarrow> False
      | Some x \<Rightarrow> (case map_of (zip ks ws) key of None \<Rightarrow> False | Some y \<Rightarrow> json_equal x y)) (map fst kvs)"
    unfolding list_all_iff by fastforce
  then show ?thesis using len assms(3) by simp
qed

lemma dump_parses:
  assumes "json_ok v" "any_order it" "\<not> flag_set lflags JSON_DECODE_INT_AS_REAL"
  shows "\<exists>t w. do_dump it flags depth v = Some t \<and> json_equal v w \<and> parses lflags t w"
  using assms(1)
proof (induction "size v" arbitrary: v depth rule: less_induct)
  case less
  show ?case
  proof (cases v)
    case (JString s)
    then show ?thesis using less.prems parses_string [of s lflags flags] dump_string_ok(1) [of s flags]
      by (auto split: prod.split intro!: exI [of _ "JString s"])
  next
    case (JInteger i)
    then show ?thesis using less.prems parses_integer [of i lflags] assms(3) length_dec_int [of i]
      by (auto intro!: exI [of _ "JInteger i"])
  next
    case (JArray vs)
    show ?thesis
    proof (cases "vs = []")
      case True
      then show ?thesis using parses_empty(1) [of lflags] by (auto simp: JArray intro!: exI [of _ "JArray []"])
    next
      case False
      have ex: "\<exists>t w. do_dump it flags (depth + 1) x = Some t \<and> json_equal x w \<and> parses lflags t w" if "x \<in> set vs" for x
        using less.hyps [of x "depth + 1"] less.prems that size_element [OF that] by (simp add: JArray list_all_iff)
      from list_all2_choice [of vs "\<lambda>x t w. do_dump it flags (depth + 1) x = Some t \<and> json_equal x w \<and> parses lflags t w", OF ex] obtain ts ws where tw: "length ts = length vs" "length ws = length vs"
        "\<forall>i<length vs. do_dump it flags (depth + 1) (vs ! i) = Some (ts ! i) \<and> json_equal (vs ! i) (ws ! i) \<and> parses lflags (ts ! i) (ws ! i)"
        by blast
      have "those (map (\<lambda>v. do_dump it flags (depth + 1) v) vs) = Some ts" using tw by (intro those_map) simp_all
      moreover have "parses lflags (''['' @ dump_items flags depth ts @ '']'') (JArray ws)"
        using tw False by (intro parses_array) (auto simp: list_all2_conv_all_nth)
      moreover have "json_equal v (JArray ws)" using tw by (auto simp: JArray list_all_length)
      ultimately show ?thesis using False by (intro exI [of _ "''['' @ dump_items flags depth ts @ '']''"] exI [of _ "JArray ws"]) (simp add: JArray)
    qed
  next
    case (JObject kvs)
    show ?thesis
    proof (cases "kvs = []")
      case True
      then show ?thesis using parses_empty(2) [of lflags] by (auto simp: JObject intro!: exI [of _ "JObject []"])
    next
      case False
      define ks where "ks = dump_keys it flags kvs"
      have m: "mset ks = mset (map fst kvs)" unfolding ks_def using less.prems by (intro dump_keys_mset [OF assms(2)]) (simp_all add: JObject)
      have ok: "distinct (map fst kvs)" "list_all text_ok (map fst kvs)" "list_all json_ok (map snd kvs)" using less.prems by (simp_all add: JObject)
      have ex: "\<exists>t w. (\<exists>x. map_of kvs key = Some x \<and> do_dump it flags (depth + 1) x = Some t \<and> json_equal x w) \<and> parses lflags t w"
        if "key \<in> set ks" for key
      proof -
        have "key \<in> fst ` set kvs" using that m by (metis list.set_map set_mset_mset)
        then obtain x where x: "map_of kvs key = Some x" by (metis weak_map_of_SomeI imageE prod.collapse)
        have "json_ok x" using ok(3) map_of_SomeD [OF x] by (auto simp: list_all_iff)
        then show ?thesis using less.hyps [of x "depth + 1"] size_member [OF x] x by (auto simp: JObject)
      qed
      from list_all2_choice [of ks "\<lambda>key t w. (\<exists>x. map_of kvs key = Some x \<and> do_dump it flags (depth + 1) x = Some t \<and> json_equal x w) \<and>
          parses lflags t w", OF ex] obtain ts ws where tw: "length ts = length ks" "length ws = length ks"
        "\<forall>i<length ks. (\<exists>x. map_of kvs (ks ! i) = Some x \<and> do_dump it flags (depth + 1) x = Some (ts ! i) \<and> json_equal x (ws ! i)) \<and>
          parses lflags (ts ! i) (ws ! i)" by blast
      have "those (map (\<lambda>key. (case map_of kvs key of None \<Rightarrow> None
            | Some v \<Rightarrow> (case do_dump it flags (depth + 1) v of None \<Rightarrow> None
                | Some t \<Rightarrow> Some (fst (dump_string flags key) @ dump_separator flags @ t)))) ks) = Some (map2 (member flags) ks ts)"
        using tw by (intro those_map) (auto simp: member_def)
      then have dump: "do_dump it flags depth v = Some (''{'' @ dump_items flags depth (map2 (member flags) ks ts) @ ''}'')"
        using False by (simp add: JObject ks_def)
      have "parses lflags (''{'' @ dump_items flags depth (map2 (member flags) ks ts) @ ''}'') (JObject (zip ks ws))"
      proof (rule parses_object)
        show "list_all2 (parses lflags) ts ws" using tw by (auto simp: list_all2_conv_all_nth)
        show "ts \<noteq> []" using tw(1) False m by (cases ks) auto
        show "list_all text_ok ks" using ok(2) m by (metis list.pred_set set_mset_mset)
        show "distinct ks" using ok(1) m mset_eq_imp_distinct_iff by blast
      qed (use tw in simp)
      moreover have "json_equal v (JObject (zip ks ws))" unfolding JObject using ok(1) m tw by (intro json_equal_object) auto
      ultimately show ?thesis using dump by blast
    qed
  qed (use less.prems parses_literals in auto)
qed

lemma dump_bracket:
  assumes "do_dump it flags depth v = Some t" "json_is_array (Some v) \<or> json_is_object (Some v)"
  obtains b u where "t = b # u" "b = CHR ''['' \<or> b = CHR ''{''"
  using assms by (cases v) (auto split: if_splits option.splits)

lemma reads_init: "clean t \<Longrightarrow> reads (lex_init t e) t"
  by (simp add: reads_def lex_init_def lex_pending_def clean_NUL clean_utf8)

section \<open>Properties\<close>

text \<open>C32: what the printer writes for an array or an object, with any flags and in any order of the keys, the
  parser reads back as an equal value: escapes, surrogate pairs and indentation included.\<close>

theorem json_round_trip:
  assumes "json_ok v" "json_is_array (Some v) \<or> json_is_object (Some v)" "any_order it" "\<not> flag_set lflags JSON_DECODE_INT_AS_REAL"
  shows "\<exists>t w e. json_dumps it (Some v) flags = Some t \<and> json_loads (Some t) lflags err = Some (Some w, e) \<and> json_equal v w"
proof -
  obtain t w where t: "do_dump it flags 0 v = Some t" "json_equal v w" "parses lflags t w"
    using dump_parses [OF assms(1,3,4)] by blast
  have c: "clean t" using t(3) by (simp add: parses_def)
  have tw: "takeWhile (\<lambda>c. c \<noteq> NUL) t = t" using clean_NUL [OF c] by (auto simp: takeWhile_eq_all_conv)
  define l where "l = lex_init t (map_option (\<lambda>_. jsonp_error_init ''<string>'') err)"
  have rd: "reads l ([] @ t @ [])" using reads_init [OF c] by (simp add: l_def)
  have d: "delim []" by (simp add: delim_def)
  obtain b u where b: "t = b # u" "b = CHR ''['' \<or> b = CHR ''{''" by (rule dump_bracket [OF t(1) assms(2)])
  have tok: "token (lex_scan l) = TOKEN_CHAR b" using scan_structural [of l "[]" b u] rd b structural_chars by (auto simp: scans_def)
  obtain k where k: "parse_value lflags (json_fuel t) (lex_scan l) = Some (Some w, k)" "reads k []"
    using parses_run [OF t(3) _ rd _ d, of "json_fuel t"] by (auto simp: json_fuel_def)
  have "token (lex_scan k) = TOKEN_EOF" using scan_end [OF k(2)] by simp
  then have "\<exists>e. json_loads (Some t) lflags err = Some (Some w, e)"
    using k(1) tok b(2) by (auto simp: json_loads_def json_load_bytes_def tw l_def [symmetric] parse_json_def Let_def)
  moreover have "json_dumps it (Some v) flags = Some t" using t(1) assms(2) by (auto simp: json_dumps_def)
  ultimately show ?thesis using t(2) by blast
qed

definition sample_request :: json where
  "sample_request =
    JObject [(''id'', JInteger 4), (''method'', JString ''mining.submit''),
      (''params'', JArray [JString [chr 0xC3, chr 0xA9, quote_char], JNull, JArray [], JInteger (- 9223372036854775808)])]"

lemma sample_texts: "text_ok ''id''" "text_ok ''method''" "text_ok ''mining.submit''" "text_ok ''params''"
  "text_ok [chr 0xC3, chr 0xA9, quote_char]"
proof -
  show "text_ok ''id''" "text_ok ''method''" "text_ok ''mining.submit''" "text_ok ''params''"
    unfolding text_ok_clean by (rule clean_ascii; auto simp: code_def)+
  show "text_ok [chr 0xC3, chr 0xA9, quote_char]"
    unfolding text_ok_clean clean_def
    by (intro exI [of _ "[0xE9, 0x22]"]) (simp add: scalar_value_def utf8_of_cases quote_char_def)
qed

lemma json_round_trip_witness:
  "\<exists>t w e. json_dumps (map fst) (Some sample_request) 0xC3 = Some t \<and> json_loads (Some t) 0 None = Some (Some w, e) \<and>
    json_equal sample_request w"
proof (rule json_round_trip)
  show "json_ok sample_request" by (simp add: sample_request_def sample_texts table_limit_def)
  show "\<not> flag_set 0 JSON_DECODE_INT_AS_REAL" by (simp add: flag_set_def)
qed (simp_all add: sample_request_def any_order_def)

end
