(* ===== verification/Hashtable.thy ===== *)
theory Hashtable
  imports Elist Json_Round
begin

text \<open>
  The hash table behind a JSON object (\<^verbatim>\<open>compat/jansson/hashtable.c\<close> and the object functions of
  \<^verbatim>\<open>value.c\<close>): all pairs on one doubly linked list, on which every bucket is a run of neighbours given by
  its first and last node. The heap is that of the theory \<^verbatim>\<open>Elist\<close>; the node \<open>LIST\<close> is the list head inside
  the table. The storage of the bucket array is assumed to be available.
\<close>

section \<open>Definitions\<close>

record hpair =
  p_key :: string
  p_hash :: u64
  p_serial :: nat
  p_value :: json

record hashtable =
  ht_size :: nat
  ht_num_buckets :: nat
  ht_buckets :: "(nat \<times> nat) list"
  ht_heap :: heap
  ht_pairs :: "nat \<Rightarrow> hpair"

definition LIST :: nat where "LIST = 1"

text \<open>The characters are signed.\<close>

definition hash_str :: "string \<Rightarrow> u64" where
  "hash_str str =
    foldl (\<lambda>hash c. (push_bit 5 hash + hash) + of_int (sint (of_nat (code c) :: 8 word))) 5381
      (takeWhile (\<lambda>c. c \<noteq> NUL) str)"

text \<open>\<^verbatim>\<open>list_init\<close> is \<open>INIT_LIST_HEAD\<close>; a node is inserted before a list position.\<close>

definition list_insert :: "nat \<Rightarrow> nat \<Rightarrow> heap \<Rightarrow> heap" where
  "list_insert lst node h =
    (let h = set_next node lst h;
         h = set_prev node (lprev (h lst)) h;
         h = set_next (lprev (h lst)) node h
     in set_prev lst node h)"

definition list_remove :: "nat \<Rightarrow> heap \<Rightarrow> heap" where
  "list_remove node h =
    (let h = set_next (lprev (h node)) (lnext (h node)) h
     in set_prev (lnext (h node)) (lprev (h node)) h)"

definition primes :: "nat list" where
  "primes = [5, 13, 23, 53, 97, 193, 389, 769, 1543, 3079, 6151, 12289, 24593, 49157, 98317, 196613, 393241, 786433,
    1572869, 3145739, 6291469, 12582917, 25165843, 50331653, 100663319, 201326611, 402653189, 805306457, 1610612741]"

definition num_buckets :: "hashtable \<Rightarrow> nat" where
  "num_buckets ht = primes ! ht_num_buckets ht"

definition bucket_is_empty :: "nat \<times> nat \<Rightarrow> bool" where
  "bucket_is_empty bucket \<longleftrightarrow> fst bucket = LIST \<and> fst bucket = snd bucket"

definition insert_to_bucket :: "nat \<Rightarrow> nat \<Rightarrow> hashtable \<Rightarrow> hashtable" where
  "insert_to_bucket index node ht =
    (let bucket = ht_buckets ht ! index in
     if bucket_is_empty bucket then
       ht\<lparr>ht_heap := list_insert LIST node (ht_heap ht), ht_buckets := (ht_buckets ht)[index := (node, node)]\<rparr>
     else
       ht\<lparr>ht_heap := list_insert (fst bucket) node (ht_heap ht), ht_buckets := (ht_buckets ht)[index := (node, snd bucket)]\<rparr>)"

text \<open>The loop from the first to the last node of a bucket; on a damaged list it may not end.\<close>

partial_function (option) find_loop :: "hashtable \<Rightarrow> string \<Rightarrow> u64 \<Rightarrow> nat \<Rightarrow> nat \<Rightarrow> nat option option" where
  [code]: "find_loop ht key hash final node =
    (if p_hash (ht_pairs ht node) = hash \<and> p_key (ht_pairs ht node) = key then Some (Some node)
     else if node = final then Some None
     else find_loop ht key hash final (lnext (ht_heap ht node)))"

definition hashtable_find_pair :: "hashtable \<Rightarrow> nat \<Rightarrow> string \<Rightarrow> u64 \<Rightarrow> nat option option" where
  "hashtable_find_pair ht index key hash =
    (let bucket = ht_buckets ht ! index in
     if bucket_is_empty bucket then Some None else find_loop ht key hash (snd bucket) (fst bucket))"

definition bucket_index :: "hashtable \<Rightarrow> u64 \<Rightarrow> nat" where
  "bucket_index ht hash = unat hash mod num_buckets ht"

definition hashtable_do_del :: "hashtable \<Rightarrow> string \<Rightarrow> u64 \<Rightarrow> (bool \<times> hashtable) option" where
  "hashtable_do_del ht key hash =
    (let index = bucket_index ht hash; bucket = ht_buckets ht ! index in
     case hashtable_find_pair ht index key hash of
       None \<Rightarrow> None
     | Some None \<Rightarrow> Some (False, ht)
     | Some (Some node) \<Rightarrow>
         let bucket' =
           (if node = fst bucket \<and> node = snd bucket then (LIST, LIST)
            else if node = fst bucket then (lnext (ht_heap ht node), snd bucket)
            else if node = snd bucket then (fst bucket, lprev (ht_heap ht node))
            else bucket)
         in Some (True, ht\<lparr>ht_buckets := (ht_buckets ht)[index := bucket'], ht_heap := list_remove node (ht_heap ht),
              ht_size := ht_size ht - 1\<rparr>))"

text \<open>The loop of a rehash, which inserts the nodes of the old list one after the other.\<close>

partial_function (option) rehash_loop :: "hashtable \<Rightarrow> nat \<Rightarrow> hashtable option" where
  [code]: "rehash_loop ht list =
    (if list = LIST then Some ht
     else rehash_loop (insert_to_bucket (bucket_index ht (p_hash (ht_pairs ht list))) list ht) (lnext (ht_heap ht list)))"

definition empty_buckets :: "hashtable \<Rightarrow> hashtable" where
  "empty_buckets ht = ht\<lparr>ht_buckets := replicate (num_buckets ht) (LIST, LIST)\<rparr>"

definition hashtable_do_rehash :: "hashtable \<Rightarrow> hashtable option" where
  "hashtable_do_rehash ht =
    (let ht = empty_buckets (ht\<lparr>ht_num_buckets := ht_num_buckets ht + 1\<rparr>);
         list = lnext (ht_heap ht LIST)
     in rehash_loop (ht\<lparr>ht_heap := INIT_LIST_HEAD LIST (ht_heap ht)\<rparr>) list)"

definition hashtable_init :: "hashtable \<Rightarrow> hashtable" where
  "hashtable_init ht =
    (let ht = ht\<lparr>ht_size := 0, ht_num_buckets := 0\<rparr> in
     empty_buckets (ht\<lparr>ht_heap := INIT_LIST_HEAD LIST (ht_heap ht)\<rparr>))"

text \<open>Setting a key; \<open>malloc\<close> gives the address of a new pair, 0 when there is no storage, and the first
  component of the result is \<open>False\<close> for the return value -1.\<close>

definition hashtable_set :: "(hashtable \<Rightarrow> nat) \<Rightarrow> hashtable \<Rightarrow> string \<Rightarrow> nat \<Rightarrow> json \<Rightarrow> (bool \<times> hashtable) option" where
  "hashtable_set malloc ht key serial value =
    (case (if num_buckets ht \<le> ht_size ht then hashtable_do_rehash ht else Some ht) of
       None \<Rightarrow> None
     | Some ht \<Rightarrow>
         let hash = hash_str key; index = bucket_index ht hash in
         case hashtable_find_pair ht index key hash of
           None \<Rightarrow> None
         | Some (Some node) \<Rightarrow> Some (True, ht\<lparr>ht_pairs := (ht_pairs ht)(node := (ht_pairs ht node)\<lparr>p_value := value\<rparr>)\<rparr>)
         | Some None \<Rightarrow>
             let node = malloc ht in
             if node = 0 then Some (False, ht)
             else
               let ht = ht\<lparr>ht_pairs := (ht_pairs ht)(node :=
                     \<lparr>p_key = key, p_hash = hash, p_serial = serial, p_value = value\<rparr>),
                   ht_heap := INIT_LIST_HEAD node (ht_heap ht)\<rparr>;
                   ht = insert_to_bucket index node ht
               in Some (True, ht\<lparr>ht_size := ht_size ht + 1\<rparr>))"

definition hashtable_get :: "hashtable \<Rightarrow> string \<Rightarrow> json option option" where
  "hashtable_get ht key =
    (let hash = hash_str key in
     case hashtable_find_pair ht (bucket_index ht hash) key hash of
       None \<Rightarrow> None
     | Some None \<Rightarrow> Some None
     | Some (Some node) \<Rightarrow> Some (Some (p_value (ht_pairs ht node))))"

definition hashtable_del :: "hashtable \<Rightarrow> string \<Rightarrow> (bool \<times> hashtable) option" where
  "hashtable_del ht key = hashtable_do_del ht key (hash_str key)"

definition hashtable_clear :: "hashtable \<Rightarrow> hashtable" where
  "hashtable_clear ht =
    (let ht = empty_buckets ht in ht\<lparr>ht_heap := INIT_LIST_HEAD LIST (ht_heap ht), ht_size := 0\<rparr>)"

text \<open>Iterators are nodes; 0 is the end.\<close>

definition hashtable_iter_next :: "hashtable \<Rightarrow> nat \<Rightarrow> nat" where
  "hashtable_iter_next ht list = (if lnext (ht_heap ht list) = LIST then 0 else lnext (ht_heap ht list))"

definition hashtable_iter :: "hashtable \<Rightarrow> nat" where
  "hashtable_iter ht = hashtable_iter_next ht LIST"

text \<open>The loop \<^verbatim>\<open>json_object_foreach\<close>: the nodes it visits.\<close>

partial_function (option) foreach_loop :: "hashtable \<Rightarrow> nat \<Rightarrow> nat list option" where
  [code]: "foreach_loop ht it =
    (if it = 0 then Some []
     else Option.bind (foreach_loop ht (hashtable_iter_next ht it)) (\<lambda>xs. Some (it # xs)))"

definition hashtable_foreach :: "hashtable \<Rightarrow> nat list option" where
  "hashtable_foreach ht = foreach_loop ht (hashtable_iter ht)"

section \<open>Objects\<close>

record json_object_t =
  ob_table :: hashtable
  ob_serial :: nat

definition new_object :: "hashtable \<Rightarrow> json_object_t" where
  "new_object ht = \<lparr>ob_table = hashtable_init ht, ob_serial = 0\<rparr>"

definition object_get :: "json_object_t \<Rightarrow> string \<Rightarrow> json option option" where
  "object_get ob key = hashtable_get (ob_table ob) key"

definition object_set_new_nocheck :: "(hashtable \<Rightarrow> nat) \<Rightarrow> json_object_t \<Rightarrow> string \<Rightarrow> json \<Rightarrow> (bool \<times> json_object_t) option" where
  "object_set_new_nocheck malloc ob key value =
    (case hashtable_set malloc (ob_table ob) key (ob_serial ob) value of
       None \<Rightarrow> None
     | Some (ok, ht) \<Rightarrow> Some (ok, ob\<lparr>ob_table := ht, ob_serial := ob_serial ob + 1\<rparr>))"

definition object_set_new :: "(hashtable \<Rightarrow> nat) \<Rightarrow> json_object_t \<Rightarrow> string \<Rightarrow> json \<Rightarrow> (bool \<times> json_object_t) option" where
  "object_set_new malloc ob key value =
    (if \<not> utf8_check_string key then Some (False, ob) else object_set_new_nocheck malloc ob key value)"

definition object_del :: "json_object_t \<Rightarrow> string \<Rightarrow> (bool \<times> json_object_t) option" where
  "object_del ob key =
    (case hashtable_del (ob_table ob) key of
       None \<Rightarrow> None
     | Some (ok, ht) \<Rightarrow> Some (ok, ob\<lparr>ob_table := ht\<rparr>))"

definition object_clear :: "json_object_t \<Rightarrow> json_object_t" where
  "object_clear ob = \<lparr>ob_table = hashtable_clear (ob_table ob), ob_serial = 0\<rparr>"

definition object_size :: "json_object_t \<Rightarrow> nat" where
  "object_size ob = ht_size (ob_table ob)"

definition hashtable_iter_at :: "hashtable \<Rightarrow> string \<Rightarrow> nat option" where
  "hashtable_iter_at ht key =
    (let hash = hash_str key in
     case hashtable_find_pair ht (bucket_index ht hash) key hash of
       None \<Rightarrow> None
     | Some None \<Rightarrow> Some 0
     | Some (Some node) \<Rightarrow> Some node)"

definition hashtable_iter_set :: "hashtable \<Rightarrow> nat \<Rightarrow> json \<Rightarrow> hashtable" where
  "hashtable_iter_set ht it value = ht\<lparr>ht_pairs := (ht_pairs ht)(it := (ht_pairs ht it)\<lparr>p_value := value\<rparr>)\<rparr>"

text \<open>Copying the pairs of another object, at the nodes \<open>xs\<close> of its table: all of them, up to a failure, or
  those whose key is there (\<open>present\<close>) or is not, whatever the outcome.\<close>

primrec update_loop :: "(hashtable \<Rightarrow> nat) \<Rightarrow> hashtable \<Rightarrow> nat list \<Rightarrow> json_object_t \<Rightarrow> (bool \<times> json_object_t) option" where
  "update_loop malloc other [] ob = Some (True, ob)"
| "update_loop malloc other (x # xs) ob =
    (case object_set_new_nocheck malloc ob (p_key (ht_pairs other x)) (p_value (ht_pairs other x)) of
       None \<Rightarrow> None
     | Some (ok, ob) \<Rightarrow> if ok then update_loop malloc other xs ob else Some (False, ob))"

definition object_update :: "(hashtable \<Rightarrow> nat) \<Rightarrow> json_object_t \<Rightarrow> json_object_t \<Rightarrow> (bool \<times> json_object_t) option" where
  "object_update malloc ob other =
    Option.bind (hashtable_foreach (ob_table other)) (\<lambda>xs. update_loop malloc (ob_table other) xs ob)"

primrec update_some_loop :: "bool \<Rightarrow> (hashtable \<Rightarrow> nat) \<Rightarrow> hashtable \<Rightarrow> nat list \<Rightarrow> json_object_t \<Rightarrow> json_object_t option" where
  "update_some_loop present malloc other [] ob = Some ob"
| "update_some_loop present malloc other (x # xs) ob =
    (case object_get ob (p_key (ht_pairs other x)) of
       None \<Rightarrow> None
     | Some r \<Rightarrow>
         if (r \<noteq> None) = present then
           (case object_set_new_nocheck malloc ob (p_key (ht_pairs other x)) (p_value (ht_pairs other x)) of
              None \<Rightarrow> None
            | Some (_, ob) \<Rightarrow> update_some_loop present malloc other xs ob)
         else update_some_loop present malloc other xs ob)"

definition object_update_existing :: "(hashtable \<Rightarrow> nat) \<Rightarrow> json_object_t \<Rightarrow> json_object_t \<Rightarrow> json_object_t option" where
  "object_update_existing malloc ob other =
    Option.bind (hashtable_foreach (ob_table other)) (\<lambda>xs. update_some_loop True malloc (ob_table other) xs ob)"

definition object_update_missing :: "(hashtable \<Rightarrow> nat) \<Rightarrow> json_object_t \<Rightarrow> json_object_t \<Rightarrow> json_object_t option" where
  "object_update_missing malloc ob other =
    Option.bind (hashtable_foreach (ob_table other)) (\<lambda>xs. update_some_loop False malloc (ob_table other) xs ob)"

section \<open>The list and the buckets\<close>

definition node_index :: "hashtable \<Rightarrow> nat \<Rightarrow> nat" where
  "node_index ht x = bucket_index ht (p_hash (ht_pairs ht x))"

text \<open>The list is a sequence of runs, one for every bucket in use, and every bucket knows its run.\<close>

definition runs :: "hashtable \<Rightarrow> nat list list \<Rightarrow> bool" where
  "runs ht bl \<longleftrightarrow>
    dlist (ht_heap ht) LIST (concat bl) \<and>
    (\<forall>b\<in>set bl. b \<noteq> [] \<and> (\<forall>x\<in>set b. node_index ht x = node_index ht (hd b))) \<and>
    distinct (map (\<lambda>b. node_index ht (hd b)) bl) \<and>
    ht_num_buckets ht < length primes \<and>
    length (ht_buckets ht) = num_buckets ht \<and>
    (\<forall>b\<in>set bl. ht_buckets ht ! node_index ht (hd b) = (hd b, last b)) \<and>
    (\<forall>i<num_buckets ht. i \<notin> (\<lambda>b. node_index ht (hd b)) ` set bl \<longrightarrow> ht_buckets ht ! i = (LIST, LIST))"

lemma runsI:
  assumes "dlist (ht_heap ht) LIST (concat bl)" "\<And>b. b \<in> set bl \<Longrightarrow> b \<noteq> []"
    "\<And>b x. b \<in> set bl \<Longrightarrow> x \<in> set b \<Longrightarrow> node_index ht x = node_index ht (hd b)"
    "distinct (map (\<lambda>b. node_index ht (hd b)) bl)" "ht_num_buckets ht < length primes"
    "length (ht_buckets ht) = num_buckets ht"
    "\<And>b. b \<in> set bl \<Longrightarrow> ht_buckets ht ! node_index ht (hd b) = (hd b, last b)"
    "\<And>i. i < num_buckets ht \<Longrightarrow> i \<notin> (\<lambda>b. node_index ht (hd b)) ` set bl \<Longrightarrow> ht_buckets ht ! i = (LIST, LIST)"
  shows "runs ht bl"
  using assms unfolding runs_def by blast

lemma runsD:
  assumes "runs ht bl"
  shows "dlist (ht_heap ht) LIST (concat bl)" "b \<in> set bl \<Longrightarrow> b \<noteq> []"
    "b \<in> set bl \<Longrightarrow> x \<in> set b \<Longrightarrow> node_index ht x = node_index ht (hd b)"
    "distinct (map (\<lambda>b. node_index ht (hd b)) bl)" "ht_num_buckets ht < length primes"
    "length (ht_buckets ht) = num_buckets ht"
    "b \<in> set bl \<Longrightarrow> ht_buckets ht ! node_index ht (hd b) = (hd b, last b)"
    "i < num_buckets ht \<Longrightarrow> i \<notin> (\<lambda>b. node_index ht (hd b)) ` set bl \<Longrightarrow> ht_buckets ht ! i = (LIST, LIST)"
  using assms unfolding runs_def by blast+

lemma num_buckets_pos: "ht_num_buckets ht < length primes \<Longrightarrow> 0 < num_buckets ht"
proof -
  assume "ht_num_buckets ht < length primes"
  moreover have "\<forall>p\<in>set primes. 0 < p" by (simp add: primes_def)
  ultimately show ?thesis by (simp add: num_buckets_def)
qed

lemma bucket_index_less: "ht_num_buckets ht < length primes \<Longrightarrow> bucket_index ht h < num_buckets ht"
  using num_buckets_pos by (simp add: bucket_index_def)

lemma list_insert_between: "node \<noteq> lst \<Longrightarrow> list_insert lst node h = list_add_between node (lprev (h lst)) lst h"
  by (rule ext) (auto simp: list_insert_def list_add_between_def Let_def set_next_def set_prev_def)

lemma list_remove_between: "lprev (h x) \<noteq> x \<Longrightarrow> list_remove x h = list_del_between (lprev (h x)) (lnext (h x)) h"
  by (rule ext) (auto simp: list_remove_def list_del_between_def Let_def set_next_def set_prev_def)

lemma dlist_insert_before:
  assumes d: "dlist h head (us @ y # vs)" and n: "n \<noteq> 0" "n \<notin> set (head # us @ y # vs)"
  shows "dlist (list_insert y n h) head (us @ n # y # vs)"
proof -
  obtain as p where ap: "head # us = as @ [p]" by (metis append_butlast_last_id list.distinct(1))
  have path: "head # (us @ y # vs) @ [head] = as @ p # y # vs @ [head]" using ap by (metis append_Cons append_assoc append_Nil)
  have l: "links h (as @ p # y # vs @ [head])" using d unfolding dlist_def path by blast
  have t: "tl (as @ [p]) = us" using ap by (metis list.sel(3))
  have "set (head # us) = set (as @ [p])" "distinct (as @ [p])" unfolding ap [symmetric] using d by (simp_all add: dlist_def)
  then have s: "insert head (set us) = insert p (set as)" "distinct (as @ [p])" by simp_all
  have "links (list_add_between n p y h) (as @ p # n # y # vs @ [head])"
  proof (rule links_insert [OF l])
    show "n \<notin> set (as @ p # y # vs @ [head])" using n s(1) by auto
    show "y \<notin> set (tl (as @ [p]))" "y \<notin> set (vs @ [head])" unfolding t using d by (auto simp: dlist_def)
    have "p \<in> insert head (set us)" using s(1) by simp
    then show "p \<notin> set (butlast (y # vs @ [head]))" using d by (auto simp: dlist_def butlast_append)
  qed (use s(2) in simp)
  moreover have "lprev (h y) = p" using l links_append [of h as p y "vs @ [head]"] by simp
  moreover have "as @ p # n # y # vs @ [head] = head # (us @ n # y # vs) @ [head]" using ap by (metis append_Cons append_assoc append_Nil)
  ultimately show ?thesis using d n by (auto simp: dlist_def list_insert_between)
qed

lemma runs_index_less: "runs ht bl \<Longrightarrow> node_index ht x < num_buckets ht"
  using runsD(5) by (simp add: node_index_def bucket_index_less)

text \<open>Fields that the operations leave alone.\<close>

lemma insert_to_bucket_fields [simp]:
  "ht_pairs (insert_to_bucket i n ht) = ht_pairs ht" "ht_num_buckets (insert_to_bucket i n ht) = ht_num_buckets ht"
  "ht_size (insert_to_bucket i n ht) = ht_size ht"
  by (simp_all add: insert_to_bucket_def Let_def)

lemma node_index_cong:
  "ht_pairs ht' = ht_pairs ht \<Longrightarrow> ht_num_buckets ht' = ht_num_buckets ht \<Longrightarrow> node_index ht' = node_index ht"
  "ht_num_buckets ht' = ht_num_buckets ht \<Longrightarrow> num_buckets ht' = num_buckets ht"
  "ht_num_buckets ht' = ht_num_buckets ht \<Longrightarrow> bucket_index ht' = bucket_index ht"
  by (auto simp: node_index_def bucket_index_def num_buckets_def fun_eq_iff)

lemma runs_not_LIST: "runs ht bl \<Longrightarrow> b \<in> set bl \<Longrightarrow> x \<in> set b \<Longrightarrow> x \<noteq> LIST \<and> x \<noteq> 0"
proof -
  assume r: "runs ht bl" and "b \<in> set bl" "x \<in> set b"
  then have "x \<in> set (concat bl)" by auto
  moreover have "LIST \<notin> set (concat bl)" "0 \<notin> set (concat bl)" using runsD(1) [OF r] by (simp_all add: dlist_def)
  ultimately show ?thesis by metis
qed

text \<open>The run of a bucket that is in use.\<close>

lemma runs_split:
  assumes "runs ht bl" "i < num_buckets ht" "\<not> bucket_is_empty (ht_buckets ht ! i)"
  obtains us b vs where "bl = us @ b # vs" "node_index ht (hd b) = i" "b \<noteq> []" "ht_buckets ht ! i = (hd b, last b)"
    "i \<notin> (\<lambda>b. node_index ht (hd b)) ` set (us @ vs)"
proof -
  have "i \<in> (\<lambda>b. node_index ht (hd b)) ` set bl" using runsD(8) [OF assms(1,2)] assms(3) by (force simp: bucket_is_empty_def)
  then obtain b where b: "b \<in> set bl" "node_index ht (hd b) = i" by auto
  then obtain us vs where s: "bl = us @ b # vs" by (meson split_list)
  have "i \<notin> (\<lambda>b. node_index ht (hd b)) ` set (us @ vs)" using runsD(4) [OF assms(1)] b(2) by (auto simp: s)
  then show ?thesis using that [OF s b(2) runsD(2) [OF assms(1) b(1)]] runsD(7) [OF assms(1) b(1)] b(2) by simp
qed

lemma runs_empty_bucket:
  assumes "runs ht bl" "i < num_buckets ht" "bucket_is_empty (ht_buckets ht ! i)"
  shows "i \<notin> (\<lambda>b. node_index ht (hd b)) ` set bl"
proof
  assume "i \<in> (\<lambda>b. node_index ht (hd b)) ` set bl"
  then obtain b where b: "b \<in> set bl" "node_index ht (hd b) = i" by auto
  then have "ht_buckets ht ! i = (hd b, last b)" "b \<noteq> []" using runsD(2,7) [OF assms(1) b(1)] by auto
  then show False using assms(3) runs_not_LIST [OF assms(1) b(1), of "hd b"] by (simp add: bucket_is_empty_def)
qed

text \<open>Replacing one run by another of the same bucket.\<close>

lemma runs_replace:
  assumes r: "runs ht (us @ bs @ vs)" and i: "i < num_buckets ht" "i \<notin> (\<lambda>b. node_index ht (hd b)) ` set (us @ vs)"
    and d: "dlist (ht_heap ht') LIST (concat (us @ cs @ vs))"
    and ht': "ht_pairs ht' = ht_pairs ht" "ht_num_buckets ht' = ht_num_buckets ht" "ht_buckets ht' = (ht_buckets ht)[i := bk]"
    and bs: "\<forall>b\<in>set bs. node_index ht (hd b) = i"
    and cs: "cs = [] \<and> bk = (LIST, LIST) \<or> (\<exists>c. cs = [c] \<and> c \<noteq> [] \<and> (\<forall>x\<in>set c. node_index ht x = i) \<and> bk = (hd c, last c))"
  shows "runs ht' (us @ cs @ vs)"
proof -
  note n = node_index_cong(1) [OF ht'(1,2)] node_index_cong(2) [OF ht'(2)]
  have c: "c \<noteq> []" "\<forall>x\<in>set c. node_index ht x = i" "node_index ht (hd c) = i" "cs = [c]" "bk = (hd c, last c)" if "c \<in> set cs" for c
    using cs that by auto
  have old: "b \<in> set (us @ bs @ vs)" "node_index ht (hd b) \<noteq> i" if "b \<in> set (us @ vs)" for b using that i(2) by auto
  show ?thesis
  proof (rule runsI)
    show "b \<noteq> []" if "b \<in> set (us @ cs @ vs)" for b using that runsD(2) [OF r] c(1) by auto
    show "node_index ht' x = node_index ht' (hd b)" if "b \<in> set (us @ cs @ vs)" "x \<in> set b" for b x
      using that runsD(3) [OF r, of b x] c(2,3) [of b] by (auto simp: n)
    have "distinct (map (\<lambda>b. node_index ht (hd b)) (us @ vs))" using runsD(4) [OF r] by auto
    then show "distinct (map (\<lambda>b. node_index ht' (hd b)) (us @ cs @ vs))" using cs i(2) by (auto simp: n)
    show "length (ht_buckets ht') = num_buckets ht'" "ht_num_buckets ht' < length primes" using runsD(5,6) [OF r] by (simp_all add: n ht')
    show "ht_buckets ht' ! node_index ht' (hd b) = (hd b, last b)" if "b \<in> set (us @ cs @ vs)" for b
    proof (cases "b \<in> set cs")
      case True
      then show ?thesis using c [OF True] i(1) runsD(6) [OF r] by (simp add: n ht')
    next
      case False
      then have "b \<in> set (us @ vs)" using that by auto
      then show ?thesis using old [of b] runsD(7) [OF r, of b] by (simp add: n ht')
    qed
    show "ht_buckets ht' ! j = (LIST, LIST)" if "j < num_buckets ht'" "j \<notin> (\<lambda>b. node_index ht' (hd b)) ` set (us @ cs @ vs)" for j
    proof (cases "j = i")
      case True
      have "cs = []"
      proof (rule ccontr)
        assume "cs \<noteq> []"
        then obtain c where "c \<in> set cs" by (cases cs) auto
        then show False using that(2) True c(3) [of c] by (auto simp: n)
      qed
      then show ?thesis using cs True i(1) runsD(6) [OF r] by (simp add: ht')
    next
      case False
      then have "j \<notin> (\<lambda>b. node_index ht (hd b)) ` set (us @ bs @ vs)" using that(2) bs by (auto simp: n)
      then show ?thesis using runsD(8) [OF r] that(1) False by (simp add: n ht')
    qed
  qed (rule d)
qed

lemma insert_runs:
  assumes r: "runs ht bl" and n: "n \<noteq> 0" "n \<notin> set (LIST # concat bl)" and i: "i = node_index ht n"
  shows "\<exists>bl'. runs (insert_to_bucket i n ht) bl' \<and> set (concat bl') = insert n (set (concat bl)) \<and>
    (\<forall>x. x \<notin> set (concat bl) \<longrightarrow> x \<noteq> LIST \<longrightarrow> x \<noteq> n \<longrightarrow> ht_heap (insert_to_bucket i n ht) x = ht_heap ht x)"
proof -
  let ?ht = "insert_to_bucket i n ht"
  have lt: "i < num_buckets ht" using runs_index_less [OF r] i by simp
  show ?thesis
  proof (cases "bucket_is_empty (ht_buckets ht ! i)")
    case True
    have heap: "ht_heap ?ht = list_add_tail n LIST (ht_heap ht)"
      using True n by (simp add: insert_to_bucket_def list_insert_between list_add_tail_def)
    have d: "dlist (ht_heap ?ht) LIST (concat (bl @ [[n]] @ []))" using dlist_add_tail [OF runsD(1) [OF r] n] heap by simp
    have b: "ht_buckets ?ht = (ht_buckets ht)[i := (n, n)]" using True by (simp add: insert_to_bucket_def)
    have "runs ?ht (bl @ [[n]] @ [])"
      by (rule runs_replace [where bs = "[]", OF _ lt _ d _ _ b]) (use r runs_empty_bucket [OF r lt True] i in simp_all)
    moreover have "ht_heap ?ht x = ht_heap ht x" if "x \<notin> set (concat bl)" "x \<noteq> LIST" "x \<noteq> n" for x
    proof -
      have "lprev (ht_heap ht LIST) = last (LIST # concat bl)" by (rule dlist_last [OF runsD(1) [OF r]])
      then have "x \<noteq> lprev (ht_heap ht LIST)" using that by (metis last_in_set list.distinct(1) set_ConsD)
      then show ?thesis using that by (simp add: heap list_add_tail_def list_add_between_def Let_def set_next_def set_prev_def)
    qed
    ultimately show ?thesis by (intro exI [of _ "bl @ [[n]]"]) auto
  next
    case False
    obtain us b vs where s: "bl = us @ b # vs" "node_index ht (hd b) = i" "b \<noteq> []" "ht_buckets ht ! i = (hd b, last b)"
      "i \<notin> (\<lambda>b. node_index ht (hd b)) ` set (us @ vs)" by (rule runs_split [OF r lt False])
    obtain y b' where y: "b = y # b'" using s(3) by (cases b) auto
    have heap: "ht_heap ?ht = list_insert y n (ht_heap ht)" using False by (simp add: insert_to_bucket_def s(4) y Let_def)
    have dl: "dlist (ht_heap ht) LIST (concat us @ y # b' @ concat vs)" using runsD(1) [OF r] by (simp add: s(1) y)
    have d: "dlist (ht_heap ?ht) LIST (concat (us @ [n # b] @ vs))"
      using dlist_insert_before [OF dl n(1)] n(2) by (simp add: heap s(1) y)
    have b: "ht_buckets ?ht = (ht_buckets ht)[i := (n, last b)]" using False by (simp add: insert_to_bucket_def s(4) Let_def)
    have "\<forall>x\<in>set b. node_index ht x = i" using runsD(3) [OF r, of b] s(1,2) by simp
    then have "runs ?ht (us @ [n # b] @ vs)"
      by (intro runs_replace [where bs = "[b]", OF _ lt s(5) d _ _ b]) (use r s i in simp_all)
    moreover have "ht_heap ?ht x = ht_heap ht x" if "x \<notin> set (concat bl)" "x \<noteq> LIST" "x \<noteq> n" for x
    proof -
      have "links (ht_heap ht) ((LIST # concat us) @ y # b' @ concat vs @ [LIST])" using dl by (simp add: dlist_def)
      moreover have "LIST # concat us = butlast (LIST # concat us) @ [last (LIST # concat us)]" by (metis append_butlast_last_id list.distinct(1))
      ultimately have "lprev (ht_heap ht y) = last (LIST # concat us)" using links_tail_reads by (metis append_Cons append_Nil append_assoc)
      then have "lprev (ht_heap ht y) \<in> set (LIST # concat us)" by (metis last_in_set list.distinct(1))
      then have "x \<noteq> lprev (ht_heap ht y)" "x \<noteq> y" using that by (auto simp: s(1) y)
      then show ?thesis using that n by (simp add: heap list_insert_def Let_def set_next_def set_prev_def s(1) y)
    qed
    ultimately show ?thesis by (intro exI [of _ "us @ (n # b) # vs"]) (auto simp: s(1))
  qed
qed

section \<open>Searching\<close>

lemma find_loop_run:
  "links (ht_heap ht) b \<Longrightarrow> b \<noteq> [] \<Longrightarrow> distinct b \<Longrightarrow>
    find_loop ht key hash (last b) (hd b) = Some (find (\<lambda>x. p_hash (ht_pairs ht x) = hash \<and> p_key (ht_pairs ht x) = key) b)"
proof (induction b)
  case (Cons x b)
  then show ?case by (cases b; subst find_loop.simps) auto
qed simp

lemma dlist_links_run: "dlist h head (us @ b @ vs) \<Longrightarrow> links h b \<and> distinct b"
  using links_parts [of h "head # us" "b @ vs @ [head]"] links_parts [of h b "vs @ [head]"] by (auto simp: dlist_def)

text \<open>The node found has the key and the hash; when none is found, no node has.\<close>

lemma find_pair:
  assumes r: "runs ht bl"
  shows "\<exists>f. hashtable_find_pair ht (bucket_index ht hash) key hash = Some f \<and>
    (case f of
       None \<Rightarrow> \<forall>x\<in>set (concat bl). \<not> (p_hash (ht_pairs ht x) = hash \<and> p_key (ht_pairs ht x) = key)
     | Some x \<Rightarrow> x \<in> set (concat bl) \<and> p_hash (ht_pairs ht x) = hash \<and> p_key (ht_pairs ht x) = key)"
proof -
  let ?P = "\<lambda>x. p_hash (ht_pairs ht x) = hash \<and> p_key (ht_pairs ht x) = key"
  let ?i = "bucket_index ht hash"
  have lt: "?i < num_buckets ht" using bucket_index_less [OF runsD(5) [OF r]] .
  have idx: "node_index ht x = ?i" if "?P x" for x using that by (simp add: node_index_def)
  show ?thesis
  proof (cases "bucket_is_empty (ht_buckets ht ! ?i)")
    case True
    have "\<not> ?P x" if mem: "x \<in> set (concat bl)" for x
    proof
      assume p: "?P x"
      obtain b where b: "b \<in> set bl" "x \<in> set b" using mem by auto
      have "node_index ht (hd b) = ?i" using runsD(3) [OF r b] idx [OF p] by simp
      then show False using runs_empty_bucket [OF r lt True] b(1) by (metis image_eqI)
    qed
    then show ?thesis using True by (simp add: hashtable_find_pair_def)
  next
    case False
    obtain us b vs where s: "bl = us @ b # vs" "node_index ht (hd b) = ?i" "b \<noteq> []" "ht_buckets ht ! ?i = (hd b, last b)"
      "?i \<notin> (\<lambda>b. node_index ht (hd b)) ` set (us @ vs)" by (rule runs_split [OF r lt False])
    have "dlist (ht_heap ht) LIST (concat us @ b @ concat vs)" using runsD(1) [OF r] by (simp add: s(1))
    from find_loop_run [OF _ s(3)] dlist_links_run [OF this]
    have f: "hashtable_find_pair ht ?i key hash = Some (find ?P b)" using False by (simp add: hashtable_find_pair_def s(4) Let_def)
    have "\<not> ?P x" if mem: "x \<in> set (concat bl)" and none: "\<forall>y\<in>set b. \<not> ?P y" for x
    proof
      assume p: "?P x"
      obtain c where c: "c \<in> set bl" "x \<in> set c" using mem by auto
      have "node_index ht (hd c) = ?i" using runsD(3) [OF r c] idx [OF p] by simp
      then have "c \<notin> set (us @ vs)" using s(5) by (metis image_eqI)
      then have "c = b" using s(1) c(1) by auto
      then show False using none c(2) p by blast
    qed
    then show ?thesis unfolding f
      by (cases "find ?P b") (use s(1) in \<open>fastforce simp: find_None_iff find_Some_iff\<close>)+
  qed
qed

section \<open>Rehashing\<close>

text \<open>The nodes that are still to be inserted hang together by their next pointers alone.\<close>

fun chain :: "heap \<Rightarrow> nat list \<Rightarrow> bool" where
  "chain h (x # y # ps) = (lnext (h x) = y \<and> chain h (y # ps))"
| "chain h ps = True"

lemma chain_links: "links h ps \<Longrightarrow> chain h ps"
  by (induction h ps rule: links.induct) auto

lemma chain_cong: "(\<And>x. x \<in> set (butlast ps) \<Longrightarrow> lnext (h' x) = lnext (h x)) \<Longrightarrow> chain h' ps = chain h ps"
  by (induction h ps rule: chain.induct) auto

lemma rehash_loop_runs:
  assumes "runs ht bl" "chain (ht_heap ht) (xs @ [LIST])" "distinct xs" "0 \<notin> set xs" "set xs \<inter> set (LIST # concat bl) = {}"
  shows "\<exists>ht' bl'. rehash_loop ht (hd (xs @ [LIST])) = Some ht' \<and> runs ht' bl' \<and> set (concat bl') = set xs \<union> set (concat bl) \<and>
    ht_pairs ht' = ht_pairs ht \<and> ht_num_buckets ht' = ht_num_buckets ht \<and> ht_size ht' = ht_size ht"
  using assms
proof (induction xs arbitrary: ht bl)
  case Nil
  then show ?case by (subst rehash_loop.simps) auto
next
  case (Cons x xs)
  have x: "x \<noteq> 0" "x \<notin> set (LIST # concat bl)" "x \<noteq> LIST" using Cons.prems by auto
  let ?ht = "insert_to_bucket (node_index ht x) x ht"
  obtain bl' where bl': "runs ?ht bl'" "set (concat bl') = insert x (set (concat bl))"
    "\<And>y. y \<notin> set (concat bl) \<Longrightarrow> y \<noteq> LIST \<Longrightarrow> y \<noteq> x \<Longrightarrow> ht_heap ?ht y = ht_heap ht y"
    using insert_runs [OF Cons.prems(1) x(1,2) refl] by auto
  have nx: "lnext (ht_heap ht x) = hd (xs @ [LIST])" "chain (ht_heap ht) (xs @ [LIST])" using Cons.prems(2) by (cases xs; simp)+
  have "chain (ht_heap ?ht) (xs @ [LIST]) = chain (ht_heap ht) (xs @ [LIST])"
    using Cons.prems by (intro chain_cong) (simp, subst bl'(3), auto)
  then have ch: "chain (ht_heap ?ht) (xs @ [LIST])" using nx(2) by simp
  have "set xs \<inter> set (LIST # concat bl') = {}" using Cons.prems by (auto simp: bl'(2) simp del: set_concat)
  from Cons.IH [OF bl'(1) ch _ _ this] Cons.prems(3,4) obtain ht' cl where
    "rehash_loop ?ht (hd (xs @ [LIST])) = Some ht'" "runs ht' cl" "set (concat cl) = set xs \<union> set (concat bl')"
    "ht_pairs ht' = ht_pairs ht" "ht_num_buckets ht' = ht_num_buckets ht" "ht_size ht' = ht_size ht" by auto
  moreover have "rehash_loop ht x = rehash_loop ?ht (hd (xs @ [LIST]))"
    using x(3) nx(1) by (subst rehash_loop.simps) (simp add: node_index_def)
  ultimately show ?case using bl'(2) by auto
qed

lemma runs_Nil:
  assumes "dlist (ht_heap ht) LIST []" "ht_num_buckets ht < length primes" "ht_buckets ht = replicate (num_buckets ht) (LIST, LIST)"
  shows "runs ht []"
  using assms by (simp add: runs_def)

lemma rehash_runs:
  assumes r: "runs ht bl" and n: "Suc (ht_num_buckets ht) < length primes"
  shows "\<exists>ht' bl'. hashtable_do_rehash ht = Some ht' \<and> runs ht' bl' \<and> set (concat bl') = set (concat bl) \<and>
    ht_pairs ht' = ht_pairs ht \<and> ht_num_buckets ht' = Suc (ht_num_buckets ht) \<and> ht_size ht' = ht_size ht"
proof -
  define ht1 where "ht1 = (empty_buckets (ht\<lparr>ht_num_buckets := ht_num_buckets ht + 1\<rparr>))\<lparr>ht_heap := INIT_LIST_HEAD LIST (ht_heap ht)\<rparr>"
  have f: "ht_pairs ht1 = ht_pairs ht" "ht_num_buckets ht1 = Suc (ht_num_buckets ht)" "ht_size ht1 = ht_size ht"
    "ht_heap ht1 = INIT_LIST_HEAD LIST (ht_heap ht)" by (simp_all add: ht1_def empty_buckets_def)
  have "runs ht1 []"
    by (rule runs_Nil) (use n in \<open>simp_all add: ht1_def empty_buckets_def dlist_INIT LIST_def num_buckets_def\<close>)
  moreover have d: "dlist (ht_heap ht) LIST (concat bl)" by (rule runsD(1) [OF r])
  moreover have "chain (ht_heap ht1) (concat bl @ [LIST])"
  proof -
    have "links (ht_heap ht) ((LIST # []) @ (concat bl @ [LIST]))" using d by (simp add: dlist_def)
    then have "chain (ht_heap ht) (concat bl @ [LIST])" using links_parts chain_links by blast
    moreover have "lnext (ht_heap ht1 x) = lnext (ht_heap ht x)" if "x \<in> set (concat bl)" for x
      using that d by (auto simp: f dlist_def INIT_LIST_HEAD_def heap_simps)
    ultimately show ?thesis using chain_cong [of "concat bl @ [LIST]" "ht_heap ht1" "ht_heap ht"] by simp
  qed
  ultimately obtain ht' bl' where "rehash_loop ht1 (hd (concat bl @ [LIST])) = Some ht'" "runs ht' bl'" "set (concat bl') = set (concat bl)"
    "ht_pairs ht' = ht_pairs ht1" "ht_num_buckets ht' = ht_num_buckets ht1" "ht_size ht' = ht_size ht1"
    using rehash_loop_runs [of ht1 "[]" "concat bl"] by (auto simp: dlist_def)
  moreover have "hashtable_do_rehash ht = rehash_loop ht1 (hd (concat bl @ [LIST]))"
    using dlist_first [OF d] by (simp add: hashtable_do_rehash_def ht1_def empty_buckets_def Let_def)
  ultimately show ?thesis by (metis f(1-3))
qed

section \<open>Deleting\<close>

lemma delete_runs:
  assumes r: "runs ht bl" and x: "x \<in> set (concat bl)" "p_hash (ht_pairs ht x) = hash" "p_key (ht_pairs ht x) = key"
    and f: "hashtable_find_pair ht (bucket_index ht hash) key hash = Some (Some x)"
  shows "\<exists>ht' bl'. hashtable_do_del ht key hash = Some (True, ht') \<and> runs ht' bl' \<and> concat bl' = filter (\<lambda>y. y \<noteq> x) (concat bl) \<and>
    ht_pairs ht' = ht_pairs ht \<and> ht_num_buckets ht' = ht_num_buckets ht \<and> ht_size ht' = ht_size ht - 1"
proof -
  let ?i = "bucket_index ht hash"
  have i: "node_index ht x = ?i" by (simp add: node_index_def x)
  have lt: "?i < num_buckets ht" using bucket_index_less [OF runsD(5) [OF r]] .
  have ne: "\<not> bucket_is_empty (ht_buckets ht ! ?i)" using f by (auto simp: hashtable_find_pair_def Let_def)
  obtain us b vs where s: "bl = us @ b # vs" "node_index ht (hd b) = ?i" "b \<noteq> []" "ht_buckets ht ! ?i = (hd b, last b)"
    "?i \<notin> (\<lambda>b. node_index ht (hd b)) ` set (us @ vs)" by (rule runs_split [OF r lt ne])
  have "x \<in> set b"
  proof -
    obtain c where c: "c \<in> set bl" "x \<in> set c" using x(1) by auto
    have "node_index ht (hd c) = ?i" using runsD(3) [OF r c] i by simp
    then have "c \<notin> set (us @ vs)" using s(5) by (metis image_eqI)
    then have "c = b" using s(1) c(1) by auto
    then show ?thesis using c(2) by simp
  qed
  then obtain b1 b2 where b: "b = b1 @ x # b2" by (meson split_list)
  define h where "h = list_remove x (ht_heap ht)"
  have dl: "dlist (ht_heap ht) LIST ((concat us @ b1) @ x # (b2 @ concat vs))" using runsD(1) [OF r] by (simp add: s(1) b)
  then have ds: "distinct (LIST # (concat us @ b1) @ x # (b2 @ concat vs))" and
    lk: "links (ht_heap ht) (LIST # (concat us @ b1) @ x # (b2 @ concat vs) @ [LIST])" by (simp_all add: dlist_def)
  have prev: "lprev (ht_heap ht x) = last (LIST # concat us @ b1)"
  proof -
    have "LIST # concat us @ b1 = butlast (LIST # concat us @ b1) @ [last (LIST # concat us @ b1)]" by (metis append_butlast_last_id list.distinct(1))
    then show ?thesis using lk links_tail_reads by (metis append_Cons append_Nil append_assoc)
  qed
  have nxt: "lnext (ht_heap ht x) = hd (b2 @ concat vs @ [LIST])"
  proof -
    have "links (ht_heap ht) (x # (b2 @ concat vs) @ [LIST])" using lk links_parts [of _ "LIST # concat us @ b1" "x # (b2 @ concat vs) @ [LIST]"] by simp
    then show ?thesis by (cases "(b2 @ concat vs) @ [LIST]") auto
  qed
  have "lprev (ht_heap ht x) \<noteq> x" 
  proof -
    have "last (LIST # concat us @ b1) \<in> set (LIST # concat us @ b1)" by (rule last_in_set) simp
    moreover have "x \<notin> set (LIST # concat us @ b1)" using ds by auto
    ultimately show ?thesis unfolding prev by metis
  qed
  from list_remove_between [where h = "ht_heap ht" and x = x, OF this] dlist_unlink [OF dl]
  have dh: "dlist h LIST (concat us @ b1 @ b2 @ concat vs)" by (simp add: h_def)
  define cs where "cs = (if b1 @ b2 = [] then [] else [b1 @ b2])"
  define bk where "bk = (if x = hd b \<and> x = last b then (LIST, LIST) else if x = hd b then (lnext (ht_heap ht x), last b)
      else if x = last b then (hd b, lprev (ht_heap ht x)) else (hd b, last b))"
  define ht' where "ht' = ht\<lparr>ht_buckets := (ht_buckets ht)[?i := bk], ht_heap := h, ht_size := ht_size ht - 1\<rparr>"
  have run: "hashtable_do_del ht key hash = Some (True, ht')"
    by (simp add: hashtable_do_del_def f Let_def ht'_def h_def bk_def s(4))
  have bd: "distinct b" using ds by (auto simp: b)
  have "bk = (if b1 @ b2 = [] then (LIST, LIST) else (hd (b1 @ b2), last (b1 @ b2)))"
  proof (cases b1)
    case Nil
    show ?thesis
    proof (cases b2)
      case (Cons z zs)
      then show ?thesis using bd nxt by (auto simp: bk_def b Nil)
    qed (simp add: bk_def b Nil)
  next
    case (Cons y ys)
    then have hd: "hd b = y" "x \<noteq> y" using bd by (auto simp: b)
    show ?thesis
    proof (cases b2 rule: rev_cases)
      case Nil
      then show ?thesis using hd Cons prev by (simp add: bk_def b)
    next
      case (snoc zs z)
      then have "last b = z" "x \<noteq> z" using bd by (auto simp: b)
      then show ?thesis using hd Cons snoc by (simp add: bk_def)
    qed
  qed
  moreover have "\<forall>y\<in>set b. node_index ht y = ?i" using runsD(3) [OF r, of b] s(1,2) by simp
  ultimately have cs: "cs = [] \<and> bk = (LIST, LIST) \<or> (\<exists>c. cs = [c] \<and> c \<noteq> [] \<and> (\<forall>x\<in>set c. node_index ht x = ?i) \<and> bk = (hd c, last c))"
    by (auto simp: cs_def b)
  have cc: "concat (us @ cs @ vs) = concat us @ b1 @ b2 @ concat vs" by (simp add: cs_def)
  have "runs ht' (us @ cs @ vs)"
    by (rule runs_replace [where bs = "[b]", OF _ lt s(5) _ _ _ _ _ cs]) (use r s dh cc in \<open>simp_all add: ht'_def\<close>)
  moreover have "concat us @ b1 @ b2 @ concat vs = filter (\<lambda>y. y \<noteq> x) (concat bl)"
  proof -
    have "filter (\<lambda>y. y \<noteq> x) u = u" if "x \<notin> set u" for u using that by (simp add: filter_id_conv) metis
    then show ?thesis using ds by (simp add: s(1) b)
  qed
  ultimately show ?thesis using run cc by (auto simp: ht'_def)
qed

section \<open>Objects refine association lists\<close>

lemma runs_frame:
  assumes "runs ht bl" "\<And>x. x \<in> set (concat bl) \<Longrightarrow> p_hash (ht_pairs ht' x) = p_hash (ht_pairs ht x)"
    "\<And>x. x \<in> set (LIST # concat bl) \<Longrightarrow> ht_heap ht' x = ht_heap ht x" "ht_buckets ht' = ht_buckets ht"
    "ht_num_buckets ht' = ht_num_buckets ht"
  shows "runs ht' bl"
proof -
  have idx: "node_index ht' x = node_index ht x" if "b \<in> set bl" "x \<in> set b" for b x

  proof -
    have "x \<in> set (concat bl)" using that by auto
    then show ?thesis using assms(2) node_index_cong(3) [OF assms(5)] by (simp add: node_index_def)
  qed
  have h: "node_index ht' (hd b) = node_index ht (hd b)" if "b \<in> set bl" for b
    using idx [OF that hd_in_set] runsD(2) [OF assms(1) that] by blast
  have n: "num_buckets ht' = num_buckets ht" by (simp add: num_buckets_def assms(5))
  have img: "(\<lambda>b. node_index ht' (hd b)) ` set bl = (\<lambda>b. node_index ht (hd b)) ` set bl" "map (\<lambda>b. node_index ht' (hd b)) bl = map (\<lambda>b. node_index ht (hd b)) bl"
    using h by auto
  show ?thesis
  proof (rule runsI)
    show "dlist (ht_heap ht') LIST (concat bl)" using runsD(1) [OF assms(1)] dlist_frame assms(3) by blast
    show "node_index ht' x = node_index ht' (hd b)" if "b \<in> set bl" "x \<in> set b" for b x
      using runsD(3) [OF assms(1) that] idx [OF that] h [OF that(1)] by simp
    show "ht_buckets ht' ! node_index ht' (hd b) = (hd b, last b)" if "b \<in> set bl" for b
      using runsD(7) [OF assms(1) that] h [OF that] assms(4) by simp
    show "b \<noteq> []" if "b \<in> set bl" for b using runsD(2) [OF assms(1) that] .
    show "distinct (map (\<lambda>b. node_index ht' (hd b)) bl)" unfolding img(2) by (rule runsD(4) [OF assms(1)])
    show "ht_num_buckets ht' < length primes" "length (ht_buckets ht') = num_buckets ht'"
      unfolding n assms(4,5) by (rule runsD(5,6) [OF assms(1)])+
    show "ht_buckets ht' ! i = (LIST, LIST)" if "i < num_buckets ht'" "i \<notin> (\<lambda>b. node_index ht' (hd b)) ` set bl" for i
      using runsD(8) [OF assms(1)] that unfolding img(1) n assms(4) by blast
  qed
qed

text \<open>The loop over an object visits the nodes of the list.\<close>

lemma foreach_path:
  "links (ht_heap ht) (x # xs @ [LIST]) \<Longrightarrow> LIST \<notin> set xs \<Longrightarrow> 0 \<notin> set xs \<Longrightarrow> foreach_loop ht (hashtable_iter_next ht x) = Some xs"
proof (induction xs arbitrary: x)
  case Nil
  then show ?case by (subst foreach_loop.simps) (simp add: hashtable_iter_next_def)
next
  case (Cons y xs)
  then have "hashtable_iter_next ht x = y" by (simp add: hashtable_iter_next_def)
  then show ?case using Cons by (subst foreach_loop.simps) simp
qed

lemma foreach_runs: "runs ht bl \<Longrightarrow> hashtable_foreach ht = Some (concat bl)"
  using foreach_path [of ht LIST "concat bl"] runsD(1) [of ht bl] by (simp add: hashtable_foreach_def hashtable_iter_def dlist_def)

text \<open>The contents of an object, in the order of insertion.\<close>

definition sorted_alist :: "(nat \<Rightarrow> hpair) \<Rightarrow> nat list \<Rightarrow> (string \<times> json) list" where
  "sorted_alist pairs xs = map (\<lambda>x. (p_key (pairs x), p_value (pairs x))) (sort_key (\<lambda>x. p_serial (pairs x)) xs)"

definition object_alist :: "json_object_t \<Rightarrow> (string \<times> json) list" where
  "object_alist ob = (case hashtable_foreach (ob_table ob) of None \<Rightarrow> [] | Some xs \<Rightarrow> sorted_alist (ht_pairs (ob_table ob)) xs)"

definition pairs_ok :: "(nat \<Rightarrow> hpair) \<Rightarrow> nat \<Rightarrow> nat list \<Rightarrow> bool" where
  "pairs_ok pairs serial xs \<longleftrightarrow>
    distinct (map (\<lambda>x. p_key (pairs x)) xs) \<and> distinct (map (\<lambda>x. p_serial (pairs x)) xs) \<and>
    (\<forall>x\<in>set xs. p_hash (pairs x) = hash_str (p_key (pairs x)) \<and> p_serial (pairs x) < serial)"

definition ob_rep :: "json_object_t \<Rightarrow> nat list \<Rightarrow> bool" where
  "ob_rep ob xs \<longleftrightarrow> (\<exists>bl. runs (ob_table ob) bl \<and> xs = concat bl) \<and> ht_size (ob_table ob) = length xs \<and>
    pairs_ok (ht_pairs (ob_table ob)) (ob_serial ob) xs"

lemma rep_alist: "ob_rep ob xs \<Longrightarrow> object_alist ob = sorted_alist (ht_pairs (ob_table ob)) xs"
  by (auto simp: ob_rep_def object_alist_def foreach_runs)

lemma sorted_alist_set: "set (sorted_alist pairs xs) = (\<lambda>x. (p_key (pairs x), p_value (pairs x))) ` set xs"
  by (simp add: sorted_alist_def)

lemma sorted_alist_length: "length (sorted_alist pairs xs) = length xs"
  by (simp add: sorted_alist_def)

lemma sorted_alist_keys: "mset (map fst (sorted_alist pairs xs)) = mset (map (\<lambda>x. p_key (pairs x)) xs)"
  by (simp add: sorted_alist_def comp_def)

lemma distinct_alist: "pairs_ok pairs s xs \<Longrightarrow> distinct (map fst (sorted_alist pairs xs))"
  using sorted_alist_keys mset_eq_imp_distinct_iff unfolding pairs_ok_def by blast

lemma map_of_alist:
  assumes "pairs_ok pairs s xs" "x \<in> set xs" "p_key (pairs x) = key"
  shows "map_of (sorted_alist pairs xs) key = Some (p_value (pairs x))"
proof (rule map_of_is_SomeI)
  show "distinct (map fst (sorted_alist pairs xs))" by (rule distinct_alist [OF assms(1)])
  show "(key, p_value (pairs x)) \<in> set (sorted_alist pairs xs)" using assms(2,3) by (auto simp: sorted_alist_set)
qed

lemma map_of_alist_None: "(\<forall>x\<in>set xs. p_key (pairs x) \<noteq> key) \<Longrightarrow> map_of (sorted_alist pairs xs) key = None"
  by (auto simp: map_of_eq_None_iff sorted_alist_set)

lemma sorted_alist_perm:
  assumes "pairs_ok pairs s xs" "mset xs = mset ys"
  shows "sorted_alist pairs xs = sorted_alist pairs ys"
proof -
  have "inj_on (\<lambda>x. p_serial (pairs x)) (set xs)" using assms(1) by (simp add: pairs_ok_def distinct_map)
  then have "sort_key (\<lambda>x. p_serial (pairs x)) xs = sort_key (\<lambda>x. p_serial (pairs x)) ys"
    using assms(2) by (intro sort_key_inj_key_eq) simp_all
  then show ?thesis by (simp add: sorted_alist_def)
qed

lemma pairs_ok_perm: "mset xs = mset ys \<Longrightarrow> pairs_ok pairs s xs = pairs_ok pairs s ys"
  unfolding pairs_ok_def by (metis mset_eq_imp_distinct_iff mset_eq_setD mset_map)

text \<open>Finding a node, as the operations do it.\<close>

lemma find_key:
  assumes r: "runs ht bl" and p: "pairs_ok (ht_pairs ht) s (concat bl)"
  shows "\<exists>f. hashtable_find_pair ht (bucket_index ht (hash_str key)) key (hash_str key) = Some f \<and>
    (case f of
       None \<Rightarrow> \<forall>x\<in>set (concat bl). p_key (ht_pairs ht x) \<noteq> key
     | Some x \<Rightarrow> x \<in> set (concat bl) \<and> p_key (ht_pairs ht x) = key \<and> p_hash (ht_pairs ht x) = hash_str key)"
proof -
  obtain f where f: "hashtable_find_pair ht (bucket_index ht (hash_str key)) key (hash_str key) = Some f"
    "case f of None \<Rightarrow> \<forall>x\<in>set (concat bl). \<not> (p_hash (ht_pairs ht x) = hash_str key \<and> p_key (ht_pairs ht x) = key)
      | Some x \<Rightarrow> x \<in> set (concat bl) \<and> p_hash (ht_pairs ht x) = hash_str key \<and> p_key (ht_pairs ht x) = key"
    using find_pair [OF r, of "hash_str key" key] by blast
  then show ?thesis using p by (cases f) (auto simp: pairs_ok_def)
qed

lemma object_get_refines:
  assumes "ob_rep ob xs"
  shows "object_get ob key = Some (map_of (object_alist ob) key)"
proof -
  obtain bl where r: "runs (ob_table ob) bl" "xs = concat bl" and p: "pairs_ok (ht_pairs (ob_table ob)) (ob_serial ob) xs"
    using assms by (auto simp: ob_rep_def)
  obtain f where f: "hashtable_find_pair (ob_table ob) (bucket_index (ob_table ob) (hash_str key)) key (hash_str key) = Some f"
    "case f of None \<Rightarrow> \<forall>x\<in>set (concat bl). p_key (ht_pairs (ob_table ob) x) \<noteq> key
      | Some x \<Rightarrow> x \<in> set (concat bl) \<and> p_key (ht_pairs (ob_table ob) x) = key \<and> p_hash (ht_pairs (ob_table ob) x) = hash_str key"
    using find_key [OF r(1) p [unfolded r(2)], of key] by blast
  show ?thesis
  proof (cases f)
    case None
    then have "\<forall>x\<in>set xs. p_key (ht_pairs (ob_table ob) x) \<noteq> key" using f(2) by (simp add: r(2) del: set_concat)
    from map_of_alist_None [OF this] show ?thesis using f(1) None by (simp add: object_get_def hashtable_get_def Let_def rep_alist [OF assms])
  next
    case (Some x)
    then have "x \<in> set xs" "p_key (ht_pairs (ob_table ob) x) = key" using f(2) by (simp_all add: r(2) del: set_concat)
    from map_of_alist [OF p this] show ?thesis using f(1) Some by (simp add: object_get_def hashtable_get_def Let_def rep_alist [OF assms])
  qed
qed

definition malloc_ok :: "(hashtable \<Rightarrow> nat) \<Rightarrow> bool" where
  "malloc_ok malloc \<longleftrightarrow> (\<forall>ht bl. runs ht bl \<longrightarrow> malloc ht = 0 \<or> malloc ht \<notin> set (LIST # concat bl))"

lemma assoc_set_old: "key \<in> fst ` set al \<Longrightarrow> distinct (map fst al) \<Longrightarrow>
    assoc_set al key v = map (\<lambda>(k, w). if k = key then (k, v) else (k, w)) al"
proof (induction al key v rule: assoc_set.induct)
  case (2 k w kvs key v)
  have "map (\<lambda>(k, w). if k = key then (k, v) else (k, w)) kvs = kvs" if "key \<notin> fst ` set kvs"
    using that by (intro map_idI) force
  then show ?case using 2 by (cases "k = key") auto
qed simp

text \<open>Replacing the value of a pair.\<close>

lemma sorted_alist_value:
  assumes "pairs_ok pairs s xs" "x \<in> set xs" "p_key (pairs x) = key"
  shows "pairs_ok (pairs(x := (pairs x)\<lparr>p_value := v\<rparr>)) s xs"
    "sorted_alist (pairs(x := (pairs x)\<lparr>p_value := v\<rparr>)) xs = assoc_set (sorted_alist pairs xs) key v"
proof -
  let ?p = "pairs(x := (pairs x)\<lparr>p_value := v\<rparr>)"
  have f: "p_key (?p y) = p_key (pairs y)" "p_serial (?p y) = p_serial (pairs y)" "p_hash (?p y) = p_hash (pairs y)" for y by simp_all
  show "pairs_ok ?p s xs" using assms(1) unfolding pairs_ok_def f .
  have inj: "inj_on (\<lambda>x. p_key (pairs x)) (set xs)" using assms(1) by (simp add: pairs_ok_def distinct_map)
  have v: "(p_key (?p y), p_value (?p y)) = (\<lambda>(k, w). if k = key then (k, v) else (k, w)) (p_key (pairs y), p_value (pairs y))" if "y \<in> set xs" for y
  proof (cases "y = x")
    case False
    then have "p_key (pairs y) \<noteq> key" using inj_onD [OF inj, of y x] that assms(2,3) by auto
    then show ?thesis using False by simp
  qed (simp add: assms(3))
  have "sorted_alist ?p xs = map (\<lambda>(k, w). if k = key then (k, v) else (k, w)) (sorted_alist pairs xs)"
    unfolding sorted_alist_def f(2) map_map by (rule map_cong [OF refl]) (use v in \<open>simp only: comp_def set_sort\<close>)
  then show "sorted_alist ?p xs = assoc_set (sorted_alist pairs xs) key v"
    using assoc_set_old [of key "sorted_alist pairs xs" v] distinct_alist [OF assms(1)] assms(2,3) by (force simp: sorted_alist_set)
qed

text \<open>Adding a pair with the largest serial number.\<close>

lemma sorted_alist_add:
  fixes v :: json
  assumes "pairs_ok pairs s xs" "n \<notin> set xs" "\<forall>x\<in>set xs. p_key (pairs x) \<noteq> key" "mset ys = mset (n # xs)"
  defines "pairs' \<equiv> pairs(n := \<lparr>p_key = key, p_hash = hash_str key, p_serial = s, p_value = v\<rparr>)"
  shows "pairs_ok pairs' (s + 1) ys" "sorted_alist pairs' ys = assoc_set (sorted_alist pairs xs) key v"
proof -
  have old: "pairs' x = pairs x" if "x \<in> set xs" for x using that assms(2) by (auto simp: pairs'_def)
  have new: "p_key (pairs' n) = key" "p_hash (pairs' n) = hash_str key" "p_serial (pairs' n) = s" "p_value (pairs' n) = v" by (simp_all add: pairs'_def)
  have maps: "map (\<lambda>x. g (pairs' x)) xs = map (\<lambda>x. g (pairs x)) xs" for g :: "hpair \<Rightarrow> 'b" using old by simp
  have lt: "p_serial (pairs x) < s" if "x \<in> set xs" for x using assms(1) that by (simp add: pairs_ok_def)
  have "pairs_ok pairs' (s + 1) (n # xs)"
    using assms(1,3) lt old unfolding pairs_ok_def by (auto simp: new maps less_Suc_eq)
  then show ok: "pairs_ok pairs' (s + 1) ys" using pairs_ok_perm [OF assms(4)] by simp
  have inj: "inj_on (\<lambda>x. p_serial (pairs' x)) (set ys)" using ok by (simp add: pairs_ok_def distinct_map)
  define zs where "zs = sort_key (\<lambda>x. p_serial (pairs x)) xs"
  have zs: "set zs = set xs" "mset zs = mset xs" "sorted (map (\<lambda>x. p_serial (pairs x)) zs)" by (simp_all add: zs_def)
  have "sort_key (\<lambda>x. p_serial (pairs' x)) ys = zs @ [n]"
  proof (rule sort_key_inj_key_eq [OF _ inj])
    show "mset ys = mset (zs @ [n])" using assms(4) zs(2) by simp
    have e: "map (\<lambda>x. p_serial (pairs' x)) zs = map (\<lambda>x. p_serial (pairs x)) zs" using old zs(1) by simp
    show "sorted (map (\<lambda>x. p_serial (pairs' x)) (zs @ [n]))"
      unfolding map_append e using zs lt by (auto simp: sorted_append new intro: less_imp_le)
  qed
  moreover have "map (\<lambda>x. (p_key (pairs' x), p_value (pairs' x))) zs = sorted_alist pairs xs" using old zs(1) by (simp add: sorted_alist_def zs_def)
  ultimately have "sorted_alist pairs' ys = sorted_alist pairs xs @ [(key, v)]" by (simp add: sorted_alist_def new)
  moreover have "key \<notin> set (map fst (sorted_alist pairs xs))" using assms(3) by (auto simp: sorted_alist_set)
  ultimately show "sorted_alist pairs' ys = assoc_set (sorted_alist pairs xs) key v" by (simp add: assoc_set_new)
qed

lemma pairs_ok_Suc: "pairs_ok pairs s xs \<Longrightarrow> pairs_ok pairs (Suc s) xs"
  by (auto simp: pairs_ok_def less_Suc_eq)

lemma primes_capacity: "n < length primes \<Longrightarrow> primes ! n \<le> k \<Longrightarrow> k < table_limit \<Longrightarrow> Suc n < length primes"
proof (rule ccontr)
  assume a: "n < length primes" "primes ! n \<le> k" "k < table_limit" "\<not> Suc n < length primes"
  then have "n = 28" by (simp add: primes_def)
  then show False using a by (simp add: primes_def table_limit_def)
qed

text \<open>The rehash that may come first.\<close>

lemma maybe_rehash:
  assumes "runs ht bl" "distinct (concat bl)" "ht_size ht = length (concat bl)" "length (concat bl) < table_limit"
  shows "\<exists>ht' bl'. (if num_buckets ht \<le> ht_size ht then hashtable_do_rehash ht else Some ht) = Some ht' \<and> runs ht' bl' \<and>
    mset (concat bl') = mset (concat bl) \<and> ht_pairs ht' = ht_pairs ht \<and> ht_size ht' = ht_size ht"
proof (cases "num_buckets ht \<le> ht_size ht")
  case True
  have "Suc (ht_num_buckets ht) < length primes"
    using primes_capacity [OF runsD(5) [OF assms(1)]] True assms(3,4) by (simp add: num_buckets_def)
  from rehash_runs [OF assms(1) this] obtain ht' bl' where h: "hashtable_do_rehash ht = Some ht'" "runs ht' bl'" "set (concat bl') = set (concat bl)"
    "ht_pairs ht' = ht_pairs ht" "ht_size ht' = ht_size ht" by blast
  have "distinct (concat bl')" using runsD(1) [OF h(2)] by (simp add: dlist_def)
  then have "mset (concat bl') = mset (concat bl)" using h(3) assms(2) set_eq_iff_mset_eq_distinct by blast
  then show ?thesis using True h by auto
qed (use assms in auto)

lemma object_set_refines:
  assumes rep: "ob_rep ob xs" and lim: "length xs < table_limit" and m: "malloc_ok malloc"
  shows "\<exists>ok ob' ys. object_set_new_nocheck malloc ob key v = Some (ok, ob') \<and> ob_rep ob' ys \<and>
    (ok \<or> (\<exists>ht. malloc ht = 0) \<and> key \<notin> fst ` set (object_alist ob)) \<and>
    object_alist ob' = (if ok then assoc_set (object_alist ob) key v else object_alist ob)"
proof -
  let ?ht = "ob_table ob"
  obtain bl where r: "runs ?ht bl" "xs = concat bl" and sz: "ht_size ?ht = length xs" and p: "pairs_ok (ht_pairs ?ht) (ob_serial ob) xs"
    using rep by (auto simp: ob_rep_def)
  have dx: "distinct (concat bl)" using runsD(1) [OF r(1)] by (simp add: dlist_def)
  obtain ht bl' where h: "(if num_buckets ?ht \<le> ht_size ?ht then hashtable_do_rehash ?ht else Some ?ht) = Some ht" "runs ht bl'"
    "mset (concat bl') = mset (concat bl)" "ht_pairs ht = ht_pairs ?ht" "ht_size ht = ht_size ?ht"
    using maybe_rehash [OF r(1) dx] sz lim r(2) by auto
  define ys where "ys = concat bl'"
  have ys: "mset ys = mset xs" "set ys = set xs" "length ys = length xs"
    using h(3) by (simp_all only: ys_def r(2)) (metis set_mset_mset, metis size_mset)
  have py: "pairs_ok (ht_pairs ht) (ob_serial ob) ys" using p pairs_ok_perm [OF ys(1)] by (simp add: h(4))
  have al: "object_alist ob = sorted_alist (ht_pairs ht) ys" using rep_alist [OF rep] sorted_alist_perm [OF py ys(1)] by (simp add: h(4))
  obtain f where f: "hashtable_find_pair ht (bucket_index ht (hash_str key)) key (hash_str key) = Some f"
    "case f of None \<Rightarrow> \<forall>x\<in>set ys. p_key (ht_pairs ht x) \<noteq> key
      | Some x \<Rightarrow> x \<in> set ys \<and> p_key (ht_pairs ht x) = key \<and> p_hash (ht_pairs ht x) = hash_str key"
    using find_key [OF h(2) py [unfolded ys_def]] unfolding ys_def by blast
  show ?thesis
  proof (cases f)
    case (Some x)
    then have x: "x \<in> set ys" "p_key (ht_pairs ht x) = key" using f(2) by simp_all
    let ?p = "(ht_pairs ht)(x := (ht_pairs ht x)\<lparr>p_value := v\<rparr>)"
    let ?ob = "ob\<lparr>ob_table := ht\<lparr>ht_pairs := ?p\<rparr>, ob_serial := ob_serial ob + 1\<rparr>"
    have "object_set_new_nocheck malloc ob key v = Some (True, ?ob)"
      by (simp add: object_set_new_nocheck_def hashtable_set_def h(1) f(1) Some Let_def)
    moreover have "runs (ht\<lparr>ht_pairs := ?p\<rparr>) bl'" by (rule runs_frame [OF h(2)]) simp_all
    then have "ob_rep ?ob ys"
      using sorted_alist_value(1) [OF py x] ys(3) sz by (auto simp: ob_rep_def ys_def h(5) intro: pairs_ok_Suc)
    moreover from rep_alist [OF this] have "object_alist ?ob = assoc_set (object_alist ob) key v"
      using sorted_alist_value(2) [OF py x] by (simp add: al)
    ultimately show ?thesis by (intro exI [of _ True] exI [of _ ?ob] exI [of _ ys]) simp
  next
    case None
    then have none: "\<forall>x\<in>set ys. p_key (ht_pairs ht x) \<noteq> key" using f(2) by simp
    show ?thesis
    proof (cases "malloc ht = 0")
      case True
      let ?ob = "ob\<lparr>ob_table := ht, ob_serial := ob_serial ob + 1\<rparr>"
      have "object_set_new_nocheck malloc ob key v = Some (False, ?ob)"
        using True by (simp add: object_set_new_nocheck_def hashtable_set_def h(1) f(1) None Let_def)
      moreover have "ob_rep ?ob ys" using h(2) ys(3) sz py by (auto simp: ob_rep_def ys_def h(5) intro: pairs_ok_Suc)
      moreover from rep_alist [OF this] have "object_alist ?ob = object_alist ob" by (simp add: al)
      moreover have "key \<notin> fst ` set (object_alist ob)" using none by (auto simp: al sorted_alist_set)
      ultimately show ?thesis using True by (intro exI [of _ False] exI [of _ ?ob] exI [of _ ys]) auto
    next
      case False
      define n where "n = malloc ht"
      have "malloc ht = 0 \<or> malloc ht \<notin> set (LIST # ys)" using m h(2) unfolding malloc_ok_def ys_def by blast
      then have n: "n \<noteq> 0" "n \<notin> set (LIST # ys)" using False by (simp_all add: n_def)
      define ht2 where "ht2 = ht\<lparr>ht_pairs := (ht_pairs ht)(n := \<lparr>p_key = key, p_hash = hash_str key, p_serial = ob_serial ob, p_value = v\<rparr>),
        ht_heap := INIT_LIST_HEAD n (ht_heap ht)\<rparr>"
      have f2: "ht_num_buckets ht2 = ht_num_buckets ht" "ht_size ht2 = ht_size ht" "ht_buckets ht2 = ht_buckets ht" by (simp_all add: ht2_def)
      have r2: "runs ht2 bl'"
        by (rule runs_frame [OF h(2)]) (use n in \<open>auto simp: ht2_def ys_def INIT_LIST_HEAD_def set_next_def set_prev_def\<close>)
      have idx: "bucket_index ht (hash_str key) = node_index ht2 n" by (simp add: node_index_def ht2_def bucket_index_def num_buckets_def)
      obtain cl where cl: "runs (insert_to_bucket (node_index ht2 n) n ht2) cl" "set (concat cl) = insert n (set ys)"
        using insert_runs [OF r2 n(1) n(2) [unfolded ys_def] refl] by (auto simp: ys_def)
      have dc: "distinct (concat cl)" "distinct (n # ys)"
        using runsD(1) [OF cl(1)] runsD(1) [OF h(2)] n(2) by (auto simp: dlist_def ys_def)
      then have mc: "mset (concat cl) = mset (n # ys)" using cl(2) by (intro iffD1 [OF set_eq_iff_mset_eq_distinct]) simp_all
      let ?ht3 = "(insert_to_bucket (node_index ht2 n) n ht2)\<lparr>ht_size := ht_size ht + 1\<rparr>"
      let ?ob = "ob\<lparr>ob_table := ?ht3, ob_serial := ob_serial ob + 1\<rparr>"
      have run: "object_set_new_nocheck malloc ob key v = Some (True, ?ob)"
        unfolding object_set_new_nocheck_def hashtable_set_def h(1)
        using n(1) by (simp add: f(1) [unfolded None idx] Let_def n_def [symmetric] ht2_def [symmetric] idx f2)
      have nn: "n \<notin> set ys" using n(2) by simp
      note add = sorted_alist_add [OF py nn none mc, of v]
      have len: "length (concat cl) = Suc (length ys)" using mc by (metis length_Cons size_mset)
      have r3: "runs ?ht3 cl" by (rule runs_frame [OF cl(1)]) simp_all
      have "ob_rep ?ob (concat cl)" unfolding ob_rep_def using add(1) r3 len ys(3) sz by (auto simp: ht2_def h(5))
      moreover from rep_alist [OF this] have "object_alist ?ob = assoc_set (object_alist ob) key v"
        using add(2) by (simp add: al ht2_def)
      ultimately show ?thesis using run by (intro exI [of _ True] exI [of _ ?ob] exI [of _ "concat cl"]) simp
    qed
  qed
qed

lemma filter_sort_key: "filter P (sort_key f xs) = sort_key f (filter P xs)"
  by (simp add: filter_sort)

lemma object_del_refines:
  assumes rep: "ob_rep ob xs"
  shows "\<exists>ob' ys. object_del ob key = Some (key \<in> fst ` set (object_alist ob), ob') \<and> ob_rep ob' ys \<and>
    object_alist ob' = filter (\<lambda>(k, _). k \<noteq> key) (object_alist ob)"
proof -
  let ?ht = "ob_table ob"
  obtain bl where r: "runs ?ht bl" "xs = concat bl" and sz: "ht_size ?ht = length xs" and p: "pairs_ok (ht_pairs ?ht) (ob_serial ob) xs"
    using rep by (auto simp: ob_rep_def)
  note al = rep_alist [OF rep]
  obtain f where f: "hashtable_find_pair ?ht (bucket_index ?ht (hash_str key)) key (hash_str key) = Some f"
    "case f of None \<Rightarrow> \<forall>x\<in>set xs. p_key (ht_pairs ?ht x) \<noteq> key
      | Some x \<Rightarrow> x \<in> set xs \<and> p_key (ht_pairs ?ht x) = key \<and> p_hash (ht_pairs ?ht x) = hash_str key"
    using find_key [OF r(1) p [unfolded r(2)]] unfolding r(2) by blast
  show ?thesis
  proof (cases f)
    case None
    then have none: "key \<notin> fst ` set (object_alist ob)" using f(2) by (auto simp: al sorted_alist_set)
    have "object_del ob key = Some (False, ob)"
      by (simp add: object_del_def hashtable_del_def hashtable_do_del_def f(1) None Let_def)
    moreover have "filter (\<lambda>(k, _). k \<noteq> key) (object_alist ob) = object_alist ob" using none by (force simp: filter_id_conv)
    ultimately show ?thesis using none rep by auto
  next
    case (Some x)
    then have x: "x \<in> set xs" "p_key (ht_pairs ?ht x) = key" "p_hash (ht_pairs ?ht x) = hash_str key" using f(2) by simp_all
    obtain ht bl' where d: "hashtable_do_del ?ht key (hash_str key) = Some (True, ht)" "runs ht bl'" "concat bl' = filter (\<lambda>y. y \<noteq> x) xs"
      "ht_pairs ht = ht_pairs ?ht" "ht_size ht = ht_size ?ht - 1"
      using delete_runs [OF r(1) x(1) [unfolded r(2)] x(3,2) f(1) [unfolded Some]] unfolding r(2) by blast
    let ?ob = "ob\<lparr>ob_table := ht\<rparr>" and ?ys = "filter (\<lambda>y. y \<noteq> x) xs"
    have dx: "distinct xs" using runsD(1) [OF r(1)] by (simp add: dlist_def r(2))
    have len: "length ?ys = length xs - 1"
      using length_remove1 [of x xs] distinct_remove1_removeAll [OF dx, of x] x(1) by (simp add: removeAll_filter_not_eq eq_commute)
    have "pairs_ok (ht_pairs ht) (ob_serial ob) ?ys"
      using p by (auto simp: pairs_ok_def d(4) distinct_map_filter)
    then have rep': "ob_rep ?ob ?ys" using d(2,3,5) len sz by (auto simp: ob_rep_def)
    have inj: "inj_on (\<lambda>x. p_key (ht_pairs ?ht x)) (set xs)" using p by (simp add: pairs_ok_def distinct_map)
    have "p_key (ht_pairs ?ht y) \<noteq> key \<longleftrightarrow> y \<noteq> x" if "y \<in> set xs" for y using inj_onD [OF inj, of y x] that x(1,2) by auto
    then have "filter (\<lambda>y. p_key (ht_pairs ?ht y) \<noteq> key) xs = ?ys" by (rule filter_cong [OF refl])
    then have "object_alist ?ob = filter (\<lambda>(k, _). k \<noteq> key) (object_alist ob)"
      by (simp add: rep_alist [OF rep'] al sorted_alist_def d(4) filter_map comp_def filter_sort_key)
    moreover have "key \<in> fst ` set (object_alist ob)" using x by (force simp: al sorted_alist_set)
    moreover have "object_del ob key = Some (True, ?ob)" by (simp add: object_del_def hashtable_del_def d(1))
    ultimately show ?thesis using rep' by auto
  qed
qed

lemma runs_fresh:
  assumes "ht_num_buckets ht < length primes"
  shows "runs (empty_buckets (ht\<lparr>ht_heap := INIT_LIST_HEAD LIST h\<rparr>)) []"
  using assms num_buckets_pos
  by (auto simp: runs_def empty_buckets_def num_buckets_def dlist_INIT LIST_def)

lemma new_object_refines: "ob_rep (new_object ht) []"
proof -
  have "runs (hashtable_init ht) []"
    using runs_fresh [of "ht\<lparr>ht_size := 0, ht_num_buckets := 0\<rparr>" "ht_heap ht"] by (simp add: hashtable_init_def Let_def primes_def)
  then show ?thesis by (auto simp: ob_rep_def new_object_def pairs_ok_def intro!: exI [of _ "[]"]) (simp add: hashtable_init_def Let_def empty_buckets_def)
qed

lemma object_clear_refines:
  assumes "ob_rep ob xs"
  shows "ob_rep (object_clear ob) []"
proof -
  obtain bl where r: "runs (ob_table ob) bl" using assms by (auto simp: ob_rep_def)
  have "runs (empty_buckets (ob_table ob\<lparr>ht_heap := INIT_LIST_HEAD LIST (ht_heap (ob_table ob))\<rparr>)) []"
    by (rule runs_fresh [OF runsD(5) [OF r]])
  then have "runs (hashtable_clear (ob_table ob)) []"
    by (rule runs_frame) (simp_all add: hashtable_clear_def empty_buckets_def num_buckets_def)
  then show ?thesis by (auto simp: ob_rep_def object_clear_def pairs_ok_def hashtable_clear_def Let_def intro!: exI [of _ "[]"])
qed

lemma rep_empty: "ob_rep ob [] \<Longrightarrow> object_alist ob = []"
  by (simp add: rep_alist sorted_alist_def)

section \<open>The interface of an object\<close>

datatype object_op = Get string | Set string json | Del string | Clear

datatype object_out = Found "json option" | Done bool

text \<open>A sequence of operations, with what each returns.\<close>

definition run_op :: "('o \<Rightarrow> string \<Rightarrow> json option option) \<Rightarrow> ('o \<Rightarrow> string \<Rightarrow> json \<Rightarrow> (bool \<times> 'o) option) \<Rightarrow>
    ('o \<Rightarrow> string \<Rightarrow> (bool \<times> 'o) option) \<Rightarrow> ('o \<Rightarrow> 'o) \<Rightarrow> 'o \<Rightarrow> object_op \<Rightarrow> (object_out \<times> 'o) option" where
  "run_op get put del clear ob op =
    (case op of
       Get key \<Rightarrow> map_option (\<lambda>r. (Found r, ob)) (get ob key)
     | Set key v \<Rightarrow> map_option (\<lambda>(ok, ob). (Done ok, ob)) (put ob key v)
     | Del key \<Rightarrow> map_option (\<lambda>(ok, ob). (Done ok, ob)) (del ob key)
     | Clear \<Rightarrow> Some (Done True, clear ob))"

fun run_ops :: "('o \<Rightarrow> object_op \<Rightarrow> (object_out \<times> 'o) option) \<Rightarrow> 'o \<Rightarrow> object_op list \<Rightarrow> (object_out list \<times> 'o) option" where
  "run_ops step ob [] = Some ([], ob)"
| "run_ops step ob (op # ops) =
    Option.bind (step ob op) (\<lambda>(out, ob). map_option (\<lambda>(outs, ob). (out # outs, ob)) (run_ops step ob ops))"

text \<open>The same on an association list: the outcomes a history may have, where a new key is only refused
  when memory may run out.\<close>

fun spec_ok :: "bool \<Rightarrow> (string \<times> json) list \<Rightarrow> object_op \<Rightarrow> object_out \<Rightarrow> bool" where
  "spec_ok full al (Get key) (Found r) \<longleftrightarrow> r = map_of al key"
| "spec_ok full al (Set key v) (Done ok) \<longleftrightarrow> ok \<or> full \<and> key \<notin> fst ` set al"
| "spec_ok full al (Del key) (Done ok) \<longleftrightarrow> ok = (key \<in> fst ` set al)"
| "spec_ok full al Clear (Done ok) \<longleftrightarrow> ok"
| "spec_ok full al _ _ \<longleftrightarrow> False"

fun spec_next :: "(string \<times> json) list \<Rightarrow> object_op \<Rightarrow> object_out \<Rightarrow> (string \<times> json) list" where
  "spec_next al (Set key v) (Done True) = assoc_set al key v"
| "spec_next al (Del key) _ = filter (\<lambda>(k, _). k \<noteq> key) al"
| "spec_next al Clear _ = []"
| "spec_next al _ _ = al"

fun spec_run :: "bool \<Rightarrow> (string \<times> json) list \<Rightarrow> object_op list \<Rightarrow> object_out list \<Rightarrow> (string \<times> json) list option" where
  "spec_run full al [] [] = Some al"
| "spec_run full al (op # ops) (out # outs) =
    (if spec_ok full al op out then spec_run full (spec_next al op out) ops outs else None)"
| "spec_run full al _ _ = None"

locale assoc_object =
  fixes rep :: "'o \<Rightarrow> (string \<times> json) list \<Rightarrow> bool"
    and get :: "'o \<Rightarrow> string \<Rightarrow> json option option"
    and put :: "'o \<Rightarrow> string \<Rightarrow> json \<Rightarrow> (bool \<times> 'o) option"
    and del :: "'o \<Rightarrow> string \<Rightarrow> (bool \<times> 'o) option"
    and clear :: "'o \<Rightarrow> 'o"
    and full :: bool
    and limit :: nat
  assumes get_law: "rep ob al \<Longrightarrow> get ob key = Some (map_of al key)"
    and put_law: "rep ob al \<Longrightarrow> length al < limit \<Longrightarrow>
      \<exists>ok ob'. put ob key v = Some (ok, ob') \<and> (ok \<or> full \<and> key \<notin> fst ` set al) \<and> rep ob' (if ok then assoc_set al key v else al)"
    and del_law: "rep ob al \<Longrightarrow>
      \<exists>ob'. del ob key = Some (key \<in> fst ` set al, ob') \<and> rep ob' (filter (\<lambda>(k, _). k \<noteq> key) al)"
    and clear_law: "rep ob al \<Longrightarrow> rep (clear ob) []"
begin

lemma step_refines:
  assumes "rep ob al" "length al < limit"
  shows "\<exists>out ob'. run_op get put del clear ob op = Some (out, ob') \<and> spec_ok full al op out \<and> rep ob' (spec_next al op out)"
proof (cases op)
  case (Get key)
  then show ?thesis using assms get_law by (simp add: run_op_def)
next
  case (Set key v)
  obtain ok ob' where p: "put ob key v = Some (ok, ob')" "ok \<or> full \<and> key \<notin> fst ` set al" "rep ob' (if ok then assoc_set al key v else al)"
    using put_law [OF assms] by blast
  then show ?thesis using Set by (cases ok) (simp_all add: run_op_def)
next
  case (Del key)
  obtain ob' where "del ob key = Some (key \<in> fst ` set al, ob')" "rep ob' (filter (\<lambda>(k, _). k \<noteq> key) al)"
    using del_law [OF assms(1)] by blast
  then show ?thesis using Del by (simp add: run_op_def)
next
  case Clear
  then show ?thesis using clear_law [OF assms(1)] by (simp add: run_op_def)
qed

lemma next_length: "length (spec_next al op out) \<le> Suc (length al)"
proof -
  have "length (assoc_set al key v) \<le> Suc (length al)" for key v by (induction al key v rule: assoc_set.induct) auto
  then show ?thesis by (cases "(al, op, out)" rule: spec_next.cases) (auto intro: le_SucI)
qed

lemma history_refines:
  assumes "rep ob al" "length al + length ops \<le> limit"
  shows "\<exists>outs ob' al'. run_ops (run_op get put del clear) ob ops = Some (outs, ob') \<and> spec_run full al ops outs = Some al' \<and>
    rep ob' al' \<and> length al' \<le> length al + length ops"
  using assms
proof (induction ops arbitrary: ob al)
  case (Cons op ops)
  have "length al < limit" using Cons.prems(2) by simp
  then obtain out ob1 where s: "run_op get put del clear ob op = Some (out, ob1)" "spec_ok full al op out" "rep ob1 (spec_next al op out)"
    using step_refines [OF Cons.prems(1)] by blast
  have l: "length (spec_next al op out) + length ops \<le> length al + length (op # ops)" using next_length [of al op out] by simp
  obtain outs ob' al' where h: "run_ops (run_op get put del clear) ob1 ops = Some (outs, ob')"
    "spec_run full (spec_next al op out) ops outs = Some al'" "rep ob' al'" "length al' \<le> length (spec_next al op out) + length ops"
    using Cons.IH [OF s(3)] l Cons.prems(2) by (meson le_trans)
  then show ?case using s l by (intro exI [of _ "out # outs"] exI [of _ ob'] exI [of _ al']) auto
qed simp

end

definition object_step :: "(hashtable \<Rightarrow> nat) \<Rightarrow> json_object_t \<Rightarrow> object_op \<Rightarrow> (object_out \<times> json_object_t) option" where
  "object_step malloc = run_op object_get (object_set_new_nocheck malloc) object_del object_clear"

definition object_abs :: "(hashtable \<Rightarrow> nat) \<Rightarrow> json_object_t \<Rightarrow> (string \<times> json) list \<Rightarrow> bool" where
  "object_abs malloc ob al \<longleftrightarrow> malloc_ok malloc \<and> (\<exists>xs. ob_rep ob xs) \<and> object_alist ob = al"

lemma object_alist_length: "ob_rep ob xs \<Longrightarrow> length (object_alist ob) = length xs"
  by (simp add: rep_alist sorted_alist_length)

interpretation json_object: assoc_object "object_abs malloc" object_get "object_set_new_nocheck malloc" object_del object_clear
  "\<exists>ht. malloc ht = 0" table_limit for malloc
proof unfold_locales
  fix ob al key v
  assume a: "object_abs malloc ob al"
  then obtain xs where xs: "ob_rep ob xs" "object_alist ob = al" "malloc_ok malloc" by (auto simp: object_abs_def)
  show "object_get ob key = Some (map_of al key)" using object_get_refines [OF xs(1)] xs(2) by simp
  show "object_abs malloc (object_clear ob) []"
    using object_clear_refines [OF xs(1)] xs(3) by (auto simp: object_abs_def rep_empty)
  show "\<exists>ob'. object_del ob key = Some (key \<in> fst ` set al, ob') \<and> object_abs malloc ob' (filter (\<lambda>(k, _). k \<noteq> key) al)"
    using object_del_refines [OF xs(1), of key] xs(2,3) by (auto simp: object_abs_def)
  assume "length al < table_limit"
  then have "length xs < table_limit" using object_alist_length [OF xs(1)] xs(2) by simp
  from object_set_refines [OF xs(1) this xs(3), of key v] obtain ok ob' ys where p: "object_set_new_nocheck malloc ob key v = Some (ok, ob')"
    "ob_rep ob' ys" "ok \<or> (\<exists>ht. malloc ht = 0) \<and> key \<notin> fst ` set al" "object_alist ob' = (if ok then assoc_set al key v else al)"
    unfolding xs(2) by metis
  then have "object_abs malloc ob' (if ok then assoc_set al key v else al)" using xs(3) unfolding object_abs_def by metis
  with p(1,3) show "\<exists>ok ob'. object_set_new_nocheck malloc ob key v = Some (ok, ob') \<and> (ok \<or> (\<exists>ht. malloc ht = 0) \<and> key \<notin> fst ` set al) \<and>
      object_abs malloc ob' (if ok then assoc_set al key v else al)"
    by blast
qed

lemma object_size_abs: "object_abs malloc ob al \<Longrightarrow> object_size ob = length al"
  using object_alist_length by (fastforce simp: object_abs_def object_size_def ob_rep_def)

text \<open>An update is the same settings in the order of the other table.\<close>

lemma update_loop_refines:
  "object_abs malloc ob al \<Longrightarrow> length al + length xs \<le> table_limit \<Longrightarrow> \<forall>ht. malloc ht \<noteq> 0 \<Longrightarrow>
    \<exists>ob'. update_loop malloc other xs ob = Some (True, ob') \<and>
      object_abs malloc ob' (foldl (\<lambda>al x. assoc_set al (p_key (ht_pairs other x)) (p_value (ht_pairs other x))) al xs)"
proof (induction xs arbitrary: ob al)
  case (Cons x xs)
  let ?k = "p_key (ht_pairs other x)" and ?v = "p_value (ht_pairs other x)"
  have "length al < table_limit" using Cons.prems(2) by simp
  from json_object.put_law [OF Cons.prems(1) this, of ?k ?v] obtain ok ob' where o: "object_set_new_nocheck malloc ob ?k ?v = Some (ok, ob')"
    "ok \<or> (\<exists>ht. malloc ht = 0) \<and> ?k \<notin> fst ` set al" "object_abs malloc ob' (if ok then assoc_set al ?k ?v else al)" by blast
  then have p: "object_set_new_nocheck malloc ob ?k ?v = Some (True, ob')" "object_abs malloc ob' (assoc_set al ?k ?v)"
    using Cons.prems(3) by auto
  have "length (assoc_set al ?k ?v) \<le> Suc (length al)" using json_object.next_length [of al "Set ?k ?v" "Done True"] by simp
  then show ?case using Cons.IH [OF p(2)] Cons.prems p(1) by simp
qed simp

lemma new_object_abs: "malloc_ok malloc \<Longrightarrow> object_abs malloc (new_object ht) []"
  using new_object_refines rep_empty by (auto simp: object_abs_def)

text \<open>C33: Refinement of an object. Any sequence of lookups, settings, deletions and clearings on a new object runs to
  its end, with every loop over a bucket ending, and gives the outcomes that an association list gives in the order
  of insertion: also after the table has grown, after pairs with the same hash, and after an allocation has failed. The
  allocator only has to give addresses not in use, and there may be as many operations as the largest table has buckets.\<close>

theorem object_history_refines:
  assumes "malloc_ok malloc" "length ops \<le> table_limit"
  shows "\<exists>outs ob. run_ops (object_step malloc) (new_object ht) ops = Some (outs, ob) \<and>
    spec_run (\<exists>ht. malloc ht = 0) [] ops outs = Some (object_alist ob)"
proof -
  have "length [] + length ops \<le> table_limit" using assms(2) by simp
  from json_object.history_refines [OF new_object_abs [OF assms(1)] this, of ht]
  obtain outs ob al where "run_ops (object_step malloc) (new_object ht) ops = Some (outs, ob)"
    "spec_run (\<exists>ht. malloc ht = 0) [] ops outs = Some al" "object_abs malloc ob al" unfolding object_step_def by metis
  moreover from this have "al = object_alist ob" by (simp add: object_abs_def)
  ultimately show ?thesis by blast
qed

text \<open>An allocator.\<close>

definition fresh_node :: "hashtable \<Rightarrow> nat" where
  "fresh_node ht = (case hashtable_foreach ht of None \<Rightarrow> 2 | Some xs \<Rightarrow> Suc (foldr max xs LIST))"

lemma fresh_node_ok: "malloc_ok fresh_node"
proof -
  have "x \<le> foldr max xs l" if "x \<in> set xs" for x l :: nat and xs using that by (induction xs) auto
  moreover have "l \<le> foldr max xs l" for l :: nat and xs by (induction xs) auto
  ultimately have "x \<le> foldr max xs l" if "x \<in> set (l # xs)" for x l :: nat and xs using that by auto
  then have "Suc (foldr max xs l) \<notin> set (l # xs)" for l :: nat and xs by (metis Suc_n_not_le_n)
  then show ?thesis unfolding malloc_ok_def fresh_node_def by (simp add: foreach_runs del: set_concat)
qed

lemma fresh_node_pos: "fresh_node ht \<noteq> 0"
  by (simp add: fresh_node_def split: option.split)

lemma spec_run_Nil: "spec_run full al [] outs = Some al' \<longleftrightarrow> outs = [] \<and> al' = al"
  by (cases outs) auto

lemma spec_run_Cons: "spec_run full al (op # ops) outs = Some al' \<longleftrightarrow>
    (\<exists>out outs'. outs = out # outs' \<and> spec_ok full al op out \<and> spec_run full (spec_next al op out) ops outs' = Some al')"
  by (cases outs) auto

text \<open>What memory suffices for is determined.\<close>

lemma spec_ok_outcome:
  "spec_ok False al (Get key) out \<longleftrightarrow> out = Found (map_of al key)"
  "spec_ok False al (Set key v) out \<longleftrightarrow> out = Done True"
  "spec_ok False al (Del key) out \<longleftrightarrow> out = Done (key \<in> fst ` set al)"
  "spec_ok False al Clear out \<longleftrightarrow> out = Done True"
  by (cases out; auto)+

lemmas spec_run_outcome = spec_run_Nil spec_run_Cons spec_ok_outcome

definition blank_table :: hashtable where
  "blank_table = \<lparr>ht_size = 0, ht_num_buckets = 0, ht_buckets = [], ht_heap = (\<lambda>_. \<lparr>lnext = 0, lprev = 0\<rparr>),
    ht_pairs = (\<lambda>_. \<lparr>p_key = [], p_hash = 0, p_serial = 0, p_value = JNull\<rparr>)\<rparr>"

lemma object_history_refines_witness:
  "\<exists>outs ob. run_ops (object_step fresh_node) (new_object blank_table) [Set ''id'' JNull, Set ''job'' JTrue, Set ''id'' JFalse, Get ''id'', Del ''job'', Get ''job''] =
      Some (outs, ob) \<and>
    outs = [Done True, Done True, Done True, Found (Some JFalse), Done True, Found None] \<and> object_alist ob = [(''id'', JFalse)]"
proof -
  let ?ops = "[Set ''id'' JNull, Set ''job'' JTrue, Set ''id'' JFalse, Get ''id'', Del ''job'', Get ''job'']"
  have "length ?ops \<le> table_limit" by (simp add: table_limit_def)
  from object_history_refines [OF fresh_node_ok this, of blank_table] obtain outs ob where
    "run_ops (object_step fresh_node) (new_object blank_table) ?ops = Some (outs, ob)" "spec_run False [] ?ops outs = Some (object_alist ob)"
    by (auto simp: fresh_node_pos)
  then show ?thesis by (simp add: spec_run_outcome)
qed

section \<open>The order of the keys\<close>

text \<open>The order in which the printer visits an object that has been read or built key by key.\<close>

definition table_order :: "(hashtable \<Rightarrow> nat) \<Rightarrow> hashtable \<Rightarrow> key_order" where
  "table_order malloc ht kvs =
    (case run_ops (object_step malloc) (new_object ht) (map (\<lambda>(k, v). Set k v) kvs) of
       None \<Rightarrow> []
     | Some (_, ob) \<Rightarrow>
         (case hashtable_foreach (ob_table ob) of
            None \<Rightarrow> []
          | Some xs \<Rightarrow> map (\<lambda>x. p_key (ht_pairs (ob_table ob) x)) xs))"

lemma spec_run_sets:
  "distinct (map fst (al @ kvs)) \<Longrightarrow> spec_run False al (map (\<lambda>(k, v). Set k v) kvs) outs = Some al' \<Longrightarrow> al' = al @ kvs"
proof (induction kvs arbitrary: al outs)
  case (Cons kv kvs)
  obtain k v where kv: "kv = (k, v)" by (cases kv)
  have new: "k \<notin> set (map fst al)" using Cons.prems(1) by (auto simp: kv)
  show ?case using Cons.IH [of "al @ [(k, v)]"] Cons.prems by (auto simp: kv spec_run_outcome assoc_set_new [OF new])
qed (simp add: spec_run_outcome)

lemma any_order_table:
  assumes "malloc_ok malloc" "\<And>ht. malloc ht \<noteq> 0"
  shows "any_order (table_order malloc ht)"
  unfolding any_order_def
proof (intro allI impI)
  fix kvs :: "(string \<times> json) list"
  assume d: "distinct (map fst kvs)" and l: "length kvs \<le> table_limit"
  have "length [] + length (map (\<lambda>(k, v). Set k v) kvs) \<le> table_limit" using l by simp
  from json_object.history_refines [OF new_object_abs [OF assms(1)] this, of ht]
  obtain outs ob al where r: "run_ops (object_step malloc) (new_object ht) (map (\<lambda>(k, v). Set k v) kvs) = Some (outs, ob)"
    "spec_run False [] (map (\<lambda>(k, v). Set k v) kvs) outs = Some al" "object_abs malloc ob al"
    unfolding object_step_def using assms(2) by auto
  have al: "object_alist ob = kvs" using spec_run_sets [OF _ r(2)] d r(3) by (simp add: object_abs_def)
  obtain xs where xs: "ob_rep ob xs" using r(3) by (auto simp: object_abs_def)
  then have "hashtable_foreach (ob_table ob) = Some xs" by (auto simp: ob_rep_def foreach_runs)
  then have "table_order malloc ht kvs = map (\<lambda>x. p_key (ht_pairs (ob_table ob) x)) xs" using r(1) by (simp add: table_order_def)
  also have "mset \<dots> = mset (map fst kvs)" using sorted_alist_keys rep_alist [OF xs] al by metis
  finally show "mset (table_order malloc ht kvs) = mset (map fst kvs)" .
qed

end
