(* ===== verification/Spec2Isabelle.thy ===== *)
theory Spec2Isabelle
  imports Api Hashtable
begin

text \<open>
  A model of the CPU miner of the mining pool, the C program in \<^verbatim>\<open>src/cpuminer-multi\<close>, and of the
  properties that make it correct.

  \<^bold>\<open>The program.\<close> A stratum thread keeps the connection to a pool and turns the jobs that arrive on it into
  work; without a pool, the workio thread fetches work over HTTP and a long polling thread waits for news. The miner
  threads copy the global work, search their share of the nonces for a header whose double SHA-256 is at
  most the target, and queue what they find for the workio thread, which submits it to the pool, or
  as a block or a work to the server. The threads share the global variables of \<^verbatim>\<open>cpu-miner.c\<close> under locks.

  \<^bold>\<open>The theories\<close>, in the order of the calls, with the files they model.

  \<^item> \<open>Miner_Prelude\<close>, \<open>Cstring\<close>, \<open>Double\<close>, \<open>Cfloat\<close>: words, arrays and bytes; C strings and the functions of the C library on
    them; binary64 arithmetic, its reading and printing. Nothing in them models the program.
  \<^item> \<open>Endian\<close> (\<^verbatim>\<open>miner.h\<close>), \<open>Sha256\<close>, \<open>Sha256d\<close>, \<open>Sha256_Midstate\<close> (\<^verbatim>\<open>algo/sha2.c\<close>): the compression function, the double
    hash and the kernel that resumes from precomputed values, each equal to FIPS 180-4.
  \<^item> \<open>Target\<close> (\<^verbatim>\<open>util.c\<close>, \<^verbatim>\<open>uint256.cpp\<close>): \<^verbatim>\<open>struct work\<close>, the comparison with the target and the conversions between
    targets and difficulties. \<open>Scanhash\<close> (\<^verbatim>\<open>algo/sha2.c\<close>): the nonce search with one, four or eight lanes.
  \<^item> \<open>Hexcodec\<close> (\<^verbatim>\<open>util.c\<close>): hexadecimal text, variable-length integers, base 58, output scripts, time differences,
    the rewriting of large JSON integers.
  \<^item> \<open>Elist\<close> (\<^verbatim>\<open>elist.h\<close>), \<open>Thread_Queue\<close> (\<^verbatim>\<open>util.c\<close>): the linked lists on an explicit heap and the queues between
    the threads, as refinements of lists.
  \<^item> \<open>Json\<close>, \<open>Utf8\<close> (\<^verbatim>\<open>compat/jansson\<close>): JSON values, their accessors and the check of their texts. \<open>Json_Lex\<close>,
    \<open>Json_Load\<close> (\<^verbatim>\<open>load.c\<close>): the stream, the scanner and the parser; \<open>Json_Dump\<close> (\<^verbatim>\<open>dump.c\<close>, \<^verbatim>\<open>strconv.c\<close>): the printer and
    the comparison of values; \<open>Json_Tokens\<close>, \<open>Json_Round\<close>: the scanner and the parser on what the printer wrote. \<open>Hashtable\<close>
    (\<^verbatim>\<open>hashtable.c\<close>, the objects of \<^verbatim>\<open>value.c\<close>): the table of an object on the heap of \<open>Elist\<close>, as a refinement of an
    association list.
  \<^item> \<open>Stratum_Net\<close>, \<open>Rpc2\<close>, \<open>Stratum\<close> (\<^verbatim>\<open>util.c\<close>): the lines on the socket, the JSON-RPC 2.0 variant and every message
    of the protocol.
  \<^item> \<open>Miner_State\<close>, \<open>Gen_Work\<close>, \<open>Gbt\<close>, \<open>Upstream\<close>, \<open>Miner_Loop\<close>, \<open>Threads\<close> (\<^verbatim>\<open>cpu-miner.c\<close>): the shared state (records
    \<open>config\<close> for the options, \<open>miner\<close> for what changes); work from jobs; work from block templates; fetching and
    submitting with its retries; a round of a miner thread; a round of the stratum and of the long polling thread.
  \<^item> \<open>Http\<close> (\<^verbatim>\<open>util.c\<close>): the callbacks of the transfer library and \<^verbatim>\<open>json_rpc_call\<close>.
  \<^item> \<open>Upstream_Inv\<close>, \<open>Pool_Inv\<close>: what every server and every pool can do to the state. \<open>System\<close>: the threads
    together, as a step relation.
  \<^item> \<open>Options\<close> (\<^verbatim>\<open>cpu-miner.c\<close>): the options, the command line and the configuration files (record \<open>opts\<close>). \<open>Startup\<close>: \<^verbatim>\<open>main\<close>
    and the state that its threads find. \<open>Api\<close> (\<^verbatim>\<open>api.c\<close>): the monitoring interface with its commands.

  \<^bold>\<open>Conventions.\<close> A function of the code has a definition of its name; a loop or a stage of a long function has
  one of its own. Undefined behaviour of the C program (reading past a buffer, a null pointer, a conversion out of
  range) is \<open>None\<close>, failure is \<open>False\<close> or an inner \<open>None\<close> as in the code. The answers of the operating system are
  lists of events; the transfer library (\<open>curl\<close>), the vector kernels and the contents of uninitialised memory (\<open>junk\<close>) are
  arguments. The functions of the miner take the JSON parser and printer as arguments (\<open>loads\<close>, \<open>dumps\<close>), so that their properties
  hold for any; the parser of the program is \<open>JSON_LOADS\<close>, the printer \<open>json_dumps\<close>. Unsigned integers are words of their width. A
  round of a thread is one step on the shared state where the code holds the lock of what it uses.

  \<^bold>\<open>What is shown.\<close>
  \<^item> The arithmetic: hashing equals its standard, the comparison with the target is the one of numbers, encodings
    are inverse to each other, buffers are large enough.
  \<^item> The search: it finds a solution when its range has one, reports solutions only, and visits the nonces of its
    thread only, which no other thread tests.
  \<^item> The protocols: messages keep the state well formed, a job gives the header that
    it describes with a fresh extra nonce, a block template the header of its block, waiting and retrying end.
  \<^item> The JSON library: parsing ends on every input, printing and parsing give the value back whatever the flags and the
    order of the keys, and the hash table does what an association list does.
  \<^item> The options: their values are in the ranges that the threads rely on, an address is taken apart and its password
    removed from memory, and a start in stratum mode gives an initial state of the step relation. Two settings after which
    the program does not mine or does not start are shown as such.
  \<^item> The monitoring interface: who may connect, that only remote control changes anything, that a new address reaches
    the stratum thread, and what the encodings of the browser interface give.
  \<^item> The whole: in every state that the threads reach together against an arbitrary pool, every share
    handed over for submission is a solution for a job of that name with the submitted extra nonce.

  \<^bold>\<open>Interfaces.\<close> The locale \<open>fifo\<close> is what the threads rely on in a queue, \<open>ms_kernel\<close> what the search relies on in
  a kernel, \<open>http_client\<close> what the fetching relies on in a call, \<open>assoc_object\<close> what the users of a JSON object rely on; they are
  interpreted on the queue of \<^verbatim>\<open>util.c\<close>, on the portable kernel and on lanes of it, on \<^verbatim>\<open>json_rpc_call\<close> and on the hash table.

  \<^bold>\<open>Fuel and bounds.\<close> \<open>authorize_wait\<close> takes fuel: one more than the characters still to be read is enough, because
  every line takes one. \<open>get_upstream_work\<close> takes fuel for its jumps back: two rounds are enough, because each jump
  clears \<^verbatim>\<open>have_gbt\<close>. \<open>retry\<close> takes fuel for the attempts: one more than the tolerated failures is enough, and
  without a limit of failures the code itself need not return. \<open>parse_arg\<close> takes fuel for configuration files that name
  other files: the depth of the nesting is enough, and a file that names itself uses up any amount. \<open>parse_value\<close> takes fuel for its
  recursion: one more than the characters of the text is enough, because every token takes one. The loops over the list of a hash
  table are partial functions, which end on every well-formed table. Every other loop is a total function.

  \<^bold>\<open>Assumptions.\<close> Allocations succeed except where a function takes their outcome as an argument; the machine is little
  endian with 64-bit pointers; the clock has one value per round; string literals sent by the program fit
  their buffers. The threads of the step relation do not run in benchmark mode or with JSON-RPC 2.0, have
  at least 64 nonces each, and a coinbase shorter than 512 megabytes has the header that is claimed. The round trip of
  JSON is for values without reals, and an object has at most as many keys as the largest table has buckets.

  \<^bold>\<open>Not modelled.\<close> Logging and the sensors of the machine do not decide what is mined; \<^verbatim>\<open>getopt_long\<close> gives the
  command line as keys and arguments; the assembly kernels are used through their law; the transfer library and the operating system are arguments; reference
  counts, the values that the JSON library packs and the streams it is not used on are left out; the other hash functions are never called. The
  pool server in \<^verbatim>\<open>src/src\<close> is a program in another language and is the arbitrary environment here.
\<close>

end
